(* ===== verification/Prelude.thy ===== *)
theory Prelude
  imports Main "HOL-Library.Word" "HOL-Library.Monad_Syntax" "HOL-Library.Multiset"
begin

text \<open>
  Shared vocabulary of the development: the machine integer types of the C code, the
  memory model for byte buffers (a read outside the buffer has no value), the option monad
  lemmas that drive the component proofs, and a few generic facts on words and lists.

  The C types are kept at their width: \<open>uint8_t\<close>, \<open>uint16_t\<close>, \<open>uint32_t\<close> and
  \<open>uint64_t\<close> are words, \<open>unsigned\<close> is a 32-bit word and \<open>size_t\<close> a 64-bit word
  (the LP64 model of the platforms the project is built on). A pointer into a buffer is
  the buffer together with an offset (\<open>nat\<close>).
\<close>

unbundle bit_operations_syntax

type_synonym u8 = "8 word"
type_synonym u16 = "16 word"
type_synonym u32 = "32 word"
type_synonym u64 = "64 word"
type_synonym size_t = "64 word"
type_synonym cuint = "32 word"

text \<open>Collections of facts: inversion of successful option computations, and the facts
  that say an operation has a result.\<close>

named_theorems some_iff "when a computation of the option monad returns"
named_theorems safe_intro "computations that never leave their buffer"

section \<open>Memory\<close>

text \<open>
  One byte of a buffer. Reading at or past the end of the buffer is undefined behaviour in
  C; the model gives it no value, so a theorem that an operation returns \<open>Some\<close> also
  says that every read it makes is inside the buffer.
\<close>

definition rd8 :: "u8 list \<Rightarrow> nat \<Rightarrow> u8 option" where
  "rd8 b i = (if i < length b then Some (b ! i) else None)"

text \<open>\<open>n\<close> consecutive bytes, as \<open>memcpy\<close> and \<open>memcmp\<close> read them.\<close>

definition rdn :: "u8 list \<Rightarrow> nat \<Rightarrow> nat \<Rightarrow> u8 list option" where
  "rdn b i n = (if i + n \<le> length b then Some (take n (drop i b)) else None)"

text \<open>An element of an array of another type.\<close>

definition rd :: "'a list \<Rightarrow> nat \<Rightarrow> 'a option" where
  "rd xs i = (if i < length xs then Some (xs ! i) else None)"

lemma rd_in [simp]: "i < length xs \<Longrightarrow> rd xs i = Some (xs ! i)"
  by (simp add: rd_def)

text \<open>Storing to an array element: no value when the index is outside the array.\<close>

definition wr :: "'a list \<Rightarrow> nat \<Rightarrow> 'a \<Rightarrow> 'a list option" where
  "wr xs i x = (if i < length xs then Some (xs[i := x]) else None)"

text \<open>\<open>memcpy\<close> to the start of an array that is at least as long.\<close>

definition set_prefix :: "u8 list \<Rightarrow> u8 list \<Rightarrow> u8 list" where
  "set_prefix a xs = xs @ drop (length xs) a"

lemma wr_Some_iff [some_iff]: "wr xs i x = Some ys \<longleftrightarrow> i < length xs \<and> ys = xs[i := x]"
  by (auto simp: wr_def)

lemma wr_in [safe_intro]: "i < length xs \<Longrightarrow> wr xs i x = Some (xs[i := x])"
  by (simp add: wr_def)

lemma length_set_prefix [simp]: "length xs \<le> length a \<Longrightarrow> length (set_prefix a xs) = length a"
  by (simp add: set_prefix_def)

lemma rd8_Some_iff [some_iff]: "rd8 b i = Some x \<longleftrightarrow> i < length b \<and> x = b ! i"
  by (auto simp: rd8_def)

lemma rd8_in [safe_intro]: "i < length b \<Longrightarrow> rd8 b i = Some (b ! i)"
  by (simp add: rd8_def)

lemma rdn_Some_iff [some_iff]:
  "rdn b i n = Some xs \<longleftrightarrow> i + n \<le> length b \<and> xs = take n (drop i b)"
  by (auto simp: rdn_def)

lemma rdn_in [safe_intro]: "i + n \<le> length b \<Longrightarrow> rdn b i n = Some (take n (drop i b))"
  by (simp add: rdn_def)

lemma rdn_length: "rdn b i n = Some xs \<Longrightarrow> length xs = n"
  by (auto simp: some_iff)

text \<open>A read that succeeds gives the same value in every extension of the buffer.\<close>

lemma rd8_append: "rd8 b i = Some x \<Longrightarrow> rd8 (b @ c) i = Some x"
  by (auto simp: rd8_def nth_append split: if_splits)

lemma rdn_append: "rdn b i n = Some x \<Longrightarrow> rdn (b @ c) i n = Some x"
  by (auto simp: rdn_def split: if_splits)

section \<open>The option monad\<close>

lemma bind_Some_iff [some_iff]:
  "Option.bind m f = Some y \<longleftrightarrow> (\<exists>x. m = Some x \<and> f x = Some y)"
  by (cases m) auto

lemma bind_in [safe_intro]: "m = Some x \<Longrightarrow> f x = r \<Longrightarrow> Option.bind m f = r"
  by simp

lemma option_eqI: "(\<And>x. m = Some x \<longleftrightarrow> m' = Some x) \<Longrightarrow> m = m'"
  by (cases m; cases m') auto

text \<open>
  Weakest preconditions: \<open>wp m Q\<close> says that \<open>m\<close> has a value, so no read or store left
  its array, and that the value satisfies \<open>Q\<close>. The rules take a computation apart from
  the outside in.
\<close>

definition wp :: "'a option \<Rightarrow> ('a \<Rightarrow> bool) \<Rightarrow> bool" where
  "wp m Q \<longleftrightarrow> (\<exists>x. m = Some x \<and> Q x)"

named_theorems wp_intro "weakest precondition rules"

lemma wpI [wp_intro]: "Q x \<Longrightarrow> wp (Some x) Q"
  by (simp add: wp_def)

lemma wpD: "wp m Q \<Longrightarrow> m = Some x \<Longrightarrow> Q x"
  by (simp add: wp_def)

lemma wpE: "wp m Q \<Longrightarrow> (\<And>x. m = Some x \<Longrightarrow> Q x \<Longrightarrow> R) \<Longrightarrow> R"
  by (auto simp: wp_def)

lemma wp_conj: "wp m P \<Longrightarrow> wp m Q \<Longrightarrow> wp m (\<lambda>x. P x \<and> Q x)"
  by (auto simp: wp_def)

lemma wp_mono: "wp m P \<Longrightarrow> (\<And>x. m = Some x \<Longrightarrow> P x \<Longrightarrow> Q x) \<Longrightarrow> wp m Q"
  by (auto simp: wp_def)

lemma wp_bind [wp_intro]: "wp m (\<lambda>x. wp (f x) Q) \<Longrightarrow> wp (Option.bind m f) Q"
  by (auto simp: wp_def)

lemma wp_if [wp_intro]:
  "(c \<Longrightarrow> wp t Q) \<Longrightarrow> (\<not> c \<Longrightarrow> wp e Q) \<Longrightarrow> wp (if c then t else e) Q"
  by simp

lemma wp_let [wp_intro]: "wp (f v) Q \<Longrightarrow> wp (let x = v in f x) Q"
  by (simp add: Let_def)

lemma wp_map_option [wp_intro]: "wp m (\<lambda>x. Q (f x)) \<Longrightarrow> wp (map_option f m) Q"
  by (auto simp: wp_def)

lemma wp_rd8 [wp_intro]: "i < length b \<Longrightarrow> Q (b ! i) \<Longrightarrow> wp (rd8 b i) Q"
  by (simp add: wp_def rd8_def)

lemma wp_rdn [wp_intro]: "i + n \<le> length b \<Longrightarrow> Q (take n (drop i b)) \<Longrightarrow> wp (rdn b i n) Q"
  by (simp add: wp_def rdn_def)

lemma wp_wr [wp_intro]: "i < length xs \<Longrightarrow> Q (xs[i := x]) \<Longrightarrow> wp (wr xs i x) Q"
  by (simp add: wp_def wr_def)

text \<open>
  Extension order on option values: \<open>ext_le m m'\<close> says that where \<open>m\<close> has a value,
  \<open>m'\<close> has the same one. It is what enlarging a buffer does to every computation that
  only reads it.
\<close>

definition ext_le :: "'a option \<Rightarrow> 'a option \<Rightarrow> bool" where
  "ext_le m m' \<longleftrightarrow> (\<forall>x. m = Some x \<longrightarrow> m' = Some x)"

named_theorems ext_intro "computations that are monotone in their buffer"

lemma ext_le_refl [ext_intro]: "ext_le m m"
  by (simp add: ext_le_def)

lemma ext_leD: "ext_le m m' \<Longrightarrow> m = Some x \<Longrightarrow> m' = Some x"
  by (simp add: ext_le_def)

lemma ext_le_bind [ext_intro]:
  "ext_le m m' \<Longrightarrow> (\<And>x. ext_le (f x) (f' x)) \<Longrightarrow> ext_le (Option.bind m f) (Option.bind m' f')"
  by (auto simp: ext_le_def some_iff)

lemma ext_le_if [ext_intro]:
  "(c \<Longrightarrow> ext_le t t') \<Longrightarrow> (\<not> c \<Longrightarrow> ext_le e e') \<Longrightarrow> ext_le (if c then t else e) (if c then t' else e')"
  by simp

lemma ext_le_let [ext_intro]:
  "(\<And>x. ext_le (f x) (f' x)) \<Longrightarrow> ext_le (let x = v in f x) (let x = v in f' x)"
  by (simp add: Let_def)

lemma ext_le_prod [ext_intro]:
  "(\<And>x y. ext_le (f x y) (f' x y)) \<Longrightarrow> ext_le (case p of (x, y) \<Rightarrow> f x y) (case p of (x, y) \<Rightarrow> f' x y)"
  by (cases p) simp

lemma ext_le_rd8 [ext_intro]: "ext_le (rd8 b i) (rd8 (b @ c) i)"
  by (simp add: ext_le_def rd8_append)

lemma ext_le_rdn [ext_intro]: "ext_le (rdn b i n) (rdn (b @ c) i n)"
  by (simp add: ext_le_def rdn_append)

section \<open>Words\<close>

lemma unat_le_word: "n \<le> m \<Longrightarrow> unat n \<le> unat m" for n m :: "'a::len word"
  by (simp add: word_le_nat_alt)

lemma unat_minus: "n \<le> m \<Longrightarrow> unat (m - n) = unat m - unat n" for n m :: "'a::len word"
  by (simp add: unat_sub)

lemma unat_ucast_up [simp]:
  "LENGTH('b) \<le> LENGTH('a) \<Longrightarrow> unat (ucast x :: 'a::len word) = unat x" for x :: "'b::len word"
proof -
  assume "LENGTH('b) \<le> LENGTH('a)"
  then have "unat x < 2 ^ LENGTH('a)"
    using unsigned_less [of x] power_increasing [of "LENGTH('b)" "LENGTH('a)" "2::nat"]
    by (meson less_le_trans one_le_numeral)
  then show ?thesis by (simp add: unsigned_ucast_eq take_bit_nat_eq_self)
qed

lemma unat_u8: "unat x < 256" for x :: u8
  using unsigned_less [of x] by simp

lemma unat_u16: "unat x < 65536" for x :: u16
  using unsigned_less [of x] by simp

lemma unat_u32: "unat x < 4294967296" for x :: u32
  using unsigned_less [of x] by simp

lemma size_t_of_nat_0: "k < 2 ^ 64 \<Longrightarrow> (of_nat k :: size_t) = 0 \<longleftrightarrow> k = 0"
  by (auto simp: word_of_nat_eq_0_iff dest: dvd_imp_le)

lemma unat_pred: "x \<noteq> 0 \<Longrightarrow> unat (x - 1) < unat x" for x :: "'a::len word"
  by (metis unat_minus_one unat_gt_0 diff_less zero_less_one)

lemma unat_inc: "i < n \<Longrightarrow> unat (i + 1) = Suc (unat i)" for i n :: "'a::len word"
proof -
  assume "i < n"
  moreover have "unat n < 2 ^ LENGTH('a)" by (rule unsigned_less)
  ultimately have "Suc (unat i) < 2 ^ LENGTH('a)"
    unfolding word_less_nat_alt by linarith
  then show ?thesis by (simp add: unat_word_ariths)
qed

text \<open>A counter that a loop compares with its bound before each increment: the distance to
  the bound shrinks, whatever the counter's start.\<close>

lemma counter_measure: "n \<noteq> m \<Longrightarrow> unat (m - (n + 1)) < unat (m - n)" for n m :: "'a::len word"
proof -
  assume "n \<noteq> m"
  then have "m - n \<noteq> 0" by simp
  then have "unat (m - n - 1) < unat (m - n)"
    by (rule unat_pred)
  then show ?thesis by (simp add: algebra_simps)
qed

text \<open>Induction for such a loop.\<close>

lemma counter_induct:
  fixes m n :: "'a::len word"
  assumes "\<And>n. (n \<noteq> m \<Longrightarrow> P (n + 1)) \<Longrightarrow> P n"
  shows "P n"
proof (induction "unat (m - n)" arbitrary: n rule: less_induct)
  case less
  show ?case by (rule assms) (rule less.hyps [OF counter_measure])
qed

end
