(* ===== verification/Bytes.thy ===== *)
theory Bytes
  imports Prelude
begin

text \<open>
  \<open>bytes.h\<close>: byte-order-explicit loads. Each load reads single bytes of the buffer at an
  offset and assembles them with shifts; it has no value when one of its bytes lies outside
  the buffer. The encoders at the end are the specification the loads are checked against.
\<close>

section \<open>Loads\<close>

definition be16 :: "u8 \<Rightarrow> u8 \<Rightarrow> u16" where
  "be16 p0 p1 = ucast (push_bit 8 (ucast p0 :: cuint) OR ucast p1)"

definition be32 :: "u8 \<Rightarrow> u8 \<Rightarrow> u8 \<Rightarrow> u8 \<Rightarrow> u32" where
  "be32 p0 p1 p2 p3 =
     push_bit 24 (ucast p0) OR push_bit 16 (ucast p1) OR push_bit 8 (ucast p2) OR ucast p3"

definition load_be16 :: "u8 list \<Rightarrow> nat \<Rightarrow> u16 option" where
  "load_be16 b p = do { p0 \<leftarrow> rd8 b p; p1 \<leftarrow> rd8 b (p + 1); Some (be16 p0 p1) }"

definition load_le16 :: "u8 list \<Rightarrow> nat \<Rightarrow> u16 option" where
  "load_le16 b p = do { p1 \<leftarrow> rd8 b (p + 1); p0 \<leftarrow> rd8 b p; Some (be16 p1 p0) }"

definition load_be32 :: "u8 list \<Rightarrow> nat \<Rightarrow> u32 option" where
  "load_be32 b p = do {
     p0 \<leftarrow> rd8 b p; p1 \<leftarrow> rd8 b (p + 1); p2 \<leftarrow> rd8 b (p + 2); p3 \<leftarrow> rd8 b (p + 3);
     Some (be32 p0 p1 p2 p3) }"

definition load_le32 :: "u8 list \<Rightarrow> nat \<Rightarrow> u32 option" where
  "load_le32 b p = do {
     p3 \<leftarrow> rd8 b (p + 3); p2 \<leftarrow> rd8 b (p + 2); p1 \<leftarrow> rd8 b (p + 1); p0 \<leftarrow> rd8 b p;
     Some (be32 p3 p2 p1 p0) }"

text \<open>The specification: a number as its bytes, most significant first.\<close>

definition enc_be16 :: "u16 \<Rightarrow> u8 list" where
  "enc_be16 x = [ucast (drop_bit 8 x), ucast x]"

definition enc_be32 :: "u32 \<Rightarrow> u8 list" where
  "enc_be32 x = [ucast (drop_bit 24 x), ucast (drop_bit 16 x), ucast (drop_bit 8 x), ucast x]"

section \<open>When a load has a value\<close>

lemmas load_defs = load_be16_def load_le16_def load_be32_def load_le32_def

lemma load_be16_in [safe_intro]: "p + 1 < length b \<Longrightarrow> load_be16 b p = Some (be16 (b ! p) (b ! (p + 1)))"
  by (simp add: load_defs rd8_def)

lemma load_be32_in [safe_intro]:
  "p + 3 < length b \<Longrightarrow> load_be32 b p = Some (be32 (b ! p) (b ! (p + 1)) (b ! (p + 2)) (b ! (p + 3)))"
  by (simp add: load_defs rd8_def)

lemma load_le16_in [safe_intro]: "p + 1 < length b \<Longrightarrow> load_le16 b p = Some (be16 (b ! (p + 1)) (b ! p))"
  by (simp add: load_defs rd8_def)

lemma load_le32_in [safe_intro]:
  "p + 3 < length b \<Longrightarrow> load_le32 b p = Some (be32 (b ! (p + 3)) (b ! (p + 2)) (b ! (p + 1)) (b ! p))"
  by (simp add: load_defs rd8_def)

lemma wp_loads [wp_intro]:
  "p + 1 < length b \<Longrightarrow> Q16 (be16 (b ! p) (b ! (p + 1))) \<Longrightarrow> wp (load_be16 b p) Q16"
  "p + 1 < length b \<Longrightarrow> Q16 (be16 (b ! (p + 1)) (b ! p)) \<Longrightarrow> wp (load_le16 b p) Q16"
  "p + 3 < length b \<Longrightarrow> Q32 (be32 (b ! p) (b ! (p + 1)) (b ! (p + 2)) (b ! (p + 3))) \<Longrightarrow>
     wp (load_be32 b p) Q32"
  "p + 3 < length b \<Longrightarrow> Q32 (be32 (b ! (p + 3)) (b ! (p + 2)) (b ! (p + 1)) (b ! p)) \<Longrightarrow>
     wp (load_le32 b p) Q32"
  by (simp_all add: wp_def safe_intro)

lemma ext_le_loads [ext_intro]:
  "ext_le (load_be16 b p) (load_be16 (b @ c) p)"
  "ext_le (load_le16 b p) (load_le16 (b @ c) p)"
  "ext_le (load_be32 b p) (load_be32 (b @ c) p)"
  "ext_le (load_le32 b p) (load_le32 (b @ c) p)"
  unfolding load_defs by (intro ext_intro)+

section \<open>Loads decode what the encoders write\<close>

lemma be16_enc: "be16 (ucast (drop_bit 8 x)) (ucast x) = x" for x :: u16
  unfolding be16_def by (rule bit_word_eqI) (auto simp: bit_simps)

lemma be32_enc:
  "be32 (ucast (drop_bit 24 x)) (ucast (drop_bit 16 x)) (ucast (drop_bit 8 x)) (ucast x) = x" for x :: u32
proof (rule bit_word_eqI)
  fix n assume "n < LENGTH(32)"
  then show "bit (be32 (ucast (drop_bit 24 x)) (ucast (drop_bit 16 x)) (ucast (drop_bit 8 x)) (ucast x)) n = bit x n"
    by (cases "24 \<le> n"; cases "16 \<le> n"; cases "8 \<le> n") (auto simp: be32_def bit_simps)
qed

text \<open>The bytes occupy disjoint bit positions, so the shifts and ors are a sum.\<close>

lemma or_push_bit_ucast:
  fixes x :: "'a::len word" and p :: u8
  assumes "8 \<le> n" and high: "\<And>k. bit x k \<Longrightarrow> n \<le> k"
  shows "x OR push_bit (n - 8) (ucast p) = x + push_bit (n - 8) (ucast p)"
proof (rule disjunctive_add_eq_or [symmetric], rule bit_word_eqI)
  fix k assume "k < LENGTH('a)"
  have "\<not> bit p (k - (n - 8))" if "bit x k"
    using high [OF that] \<open>8 \<le> n\<close> bit_imp_le_length [of p "k - (n - 8)"] by auto
  then show "bit (x AND push_bit (n - 8) (ucast p)) k = bit 0 k"
    by (auto simp: bit_simps)
qed

lemma unat_be16: "unat (be16 p0 p1) = 256 * unat p0 + unat p1"
proof -
  have "push_bit 8 (ucast p0 :: cuint) OR ucast p1 = push_bit 8 (ucast p0) + ucast p1"
    using or_push_bit_ucast [of 8 "push_bit 8 (ucast p0 :: cuint)" p1] by (auto simp: bit_simps)
  then have eq: "be16 p0 p1 = ucast (256 * ucast p0 + ucast p1 :: cuint)"
    by (simp add: be16_def push_bit_eq_mult mult.commute)
  have "unat (256 * ucast p0 + ucast p1 :: cuint) = 256 * unat p0 + unat p1"
    using unat_u8 [of p0] unat_u8 [of p1] by (simp add: unat_word_ariths)
  then show ?thesis
    unfolding eq using unat_u8 [of p0] unat_u8 [of p1]
    by (simp add: unsigned_ucast_eq take_bit_nat_eq_self del: unat_ucast_up)
qed

lemma unat_be32:
  "unat (be32 p0 p1 p2 p3) = 16777216 * unat p0 + 65536 * unat p1 + 256 * unat p2 + unat p3"
proof -
  let ?a = "push_bit 24 (ucast p0) :: u32" and ?b = "push_bit 16 (ucast p1) :: u32"
    and ?c = "push_bit 8 (ucast p2) :: u32" and ?d = "ucast p3 :: u32"
  have 1: "?a OR ?b = ?a + ?b"
    using or_push_bit_ucast [of 24 ?a p1] by (auto simp: bit_simps)
  have 2: "(?a OR ?b) OR ?c = (?a OR ?b) + ?c"
    using or_push_bit_ucast [of 16 "?a OR ?b" p2] by (fastforce simp: bit_simps)
  have 3: "((?a OR ?b) OR ?c) OR ?d = ((?a OR ?b) OR ?c) + ?d"
    using or_push_bit_ucast [of 8 "(?a OR ?b) OR ?c" p3] by (fastforce simp: bit_simps)
  have "be32 p0 p1 p2 p3 = ((?a OR ?b) OR ?c) OR ?d"
    by (simp add: be32_def or.assoc)
  with 1 2 3 have "be32 p0 p1 p2 p3 = ?a + ?b + ?c + ?d" by simp
  then show ?thesis
    using unat_u8 [of p0] unat_u8 [of p1] unat_u8 [of p2] unat_u8 [of p3]
    by (simp add: push_bit_eq_mult unat_word_ariths)
qed

end
