(* ===== verification/Decode.thy ===== *)
theory Decode
  imports Bytes
begin

text \<open>
  \<open>decode.h\<close> and \<open>decode.c\<close>: the decoder of one Ethernet frame, translated function by
  function. A buffer is a byte list; a \<open>span\<close> is the offset of its pointer together
  with the two lengths \<open>cap\<close> and \<open>wire\<close>, both \<open>size_t\<close>, so that the subtractions
  of \<open>advance\<close> wrap exactly where the C code's would. A decoder returns its status,
  the span and the \<open>packet_info\<close> it leaves behind; it has no value (\<open>None\<close>) if it
  reads a byte outside the buffer. The proofs are in \<open>Decode_Safety\<close>,
  \<open>Decode_Frame\<close> and \<open>Decode_Snap\<close>.
\<close>

section \<open>Constants\<close>

abbreviation (input) DECODE_MAX_VLANS :: u8 where "DECODE_MAX_VLANS \<equiv> 2"
abbreviation (input) ETHERTYPE_IPV4 :: cuint where "ETHERTYPE_IPV4 \<equiv> 0x0800"
abbreviation (input) ETHERTYPE_VLAN :: cuint where "ETHERTYPE_VLAN \<equiv> 0x8100"
abbreviation (input) ETHERTYPE_QINQ :: cuint where "ETHERTYPE_QINQ \<equiv> 0x88A8"
abbreviation (input) ETHERTYPE_QINQ_LEGACY :: cuint where "ETHERTYPE_QINQ_LEGACY \<equiv> 0x9100"
abbreviation (input) ETHERTYPE_IPV6 :: cuint where "ETHERTYPE_IPV6 \<equiv> 0x86DD"

abbreviation (input) IPPROTO_NUM_ICMP :: u8 where "IPPROTO_NUM_ICMP \<equiv> 1"
abbreviation (input) IPPROTO_NUM_TCP :: u8 where "IPPROTO_NUM_TCP \<equiv> 6"
abbreviation (input) IPPROTO_NUM_UDP :: u8 where "IPPROTO_NUM_UDP \<equiv> 17"
abbreviation (input) IPPROTO_NUM_ICMPV6 :: u8 where "IPPROTO_NUM_ICMPV6 \<equiv> 58"

abbreviation (input) GTPU_PORT :: u16 where "GTPU_PORT \<equiv> 2152"
abbreviation (input) GTPU_FLAG_PT :: cuint where "GTPU_FLAG_PT \<equiv> 0x10"
abbreviation (input) GTPU_FLAG_E :: cuint where "GTPU_FLAG_E \<equiv> 0x04"
abbreviation (input) GTPU_FLAG_S :: cuint where "GTPU_FLAG_S \<equiv> 0x02"
abbreviation (input) GTPU_FLAG_PN :: cuint where "GTPU_FLAG_PN \<equiv> 0x01"

abbreviation (input) GTPU_MSG_ECHO_REQUEST :: u8 where "GTPU_MSG_ECHO_REQUEST \<equiv> 1"
abbreviation (input) GTPU_MSG_ECHO_RESPONSE :: u8 where "GTPU_MSG_ECHO_RESPONSE \<equiv> 2"
abbreviation (input) GTPU_MSG_ERROR_INDICATION :: u8 where "GTPU_MSG_ERROR_INDICATION \<equiv> 26"
abbreviation (input) GTPU_MSG_END_MARKER :: u8 where "GTPU_MSG_END_MARKER \<equiv> 254"
abbreviation (input) GTPU_MSG_GPDU :: u8 where "GTPU_MSG_GPDU \<equiv> 255"
abbreviation (input) GTPU_MAX_EXT_HEADERS :: cuint where "GTPU_MAX_EXT_HEADERS \<equiv> 16"

abbreviation (input) ETH_HDR_LEN :: size_t where "ETH_HDR_LEN \<equiv> 14"
abbreviation (input) VLAN_TAG_LEN :: size_t where "VLAN_TAG_LEN \<equiv> 4"
abbreviation (input) IPV4_MIN_HDR :: size_t where "IPV4_MIN_HDR \<equiv> 20"
abbreviation (input) IPV6_HDR_LEN :: size_t where "IPV6_HDR_LEN \<equiv> 40"
abbreviation (input) IPV6_FRAG_LEN :: size_t where "IPV6_FRAG_LEN \<equiv> 8"
abbreviation (input) TCP_MIN_HDR :: size_t where "TCP_MIN_HDR \<equiv> 20"
abbreviation (input) UDP_HDR_LEN :: size_t where "UDP_HDR_LEN \<equiv> 8"
abbreviation (input) ICMP_MIN_HDR :: size_t where "ICMP_MIN_HDR \<equiv> 4"
abbreviation (input) GTPU_HDR_LEN :: size_t where "GTPU_HDR_LEN \<equiv> 8"
abbreviation (input) GTPU_OPT_LEN :: size_t where "GTPU_OPT_LEN \<equiv> 4"

abbreviation (input) IP6_EXT_HOPOPTS :: cuint where "IP6_EXT_HOPOPTS \<equiv> 0"
abbreviation (input) IP6_EXT_ROUTING :: cuint where "IP6_EXT_ROUTING \<equiv> 43"
abbreviation (input) IP6_EXT_FRAGMENT :: cuint where "IP6_EXT_FRAGMENT \<equiv> 44"
abbreviation (input) IP6_EXT_DSTOPTS :: cuint where "IP6_EXT_DSTOPTS \<equiv> 60"
abbreviation (input) IPV6_MAX_EXT_HEADERS :: cuint where "IPV6_MAX_EXT_HEADERS \<equiv> 8"

section \<open>Data\<close>

datatype decode_status =
    DEC_OK
  | DEC_TRUNC_ETHERNET
  | DEC_TRUNC_VLAN
  | DEC_TRUNC_IPV4
  | DEC_TRUNC_IPV6
  | DEC_TRUNC_IPV6_EXT
  | DEC_TRUNC_TCP
  | DEC_TRUNC_UDP
  | DEC_TRUNC_ICMP
  | DEC_TRUNC_GTPU
  | DEC_TRUNC_GTPU_EXT
  | DEC_TRUNC_GTPU_INNER
  | DEC_BAD_SHORT_FRAME
  | DEC_BAD_VLAN_DEPTH
  | DEC_BAD_IPV4_VERSION
  | DEC_BAD_IPV4_IHL
  | DEC_BAD_IPV4_TOTAL_LEN
  | DEC_BAD_IPV6_VERSION
  | DEC_BAD_IPV6_PAYLOAD_LEN
  | DEC_BAD_IPV6_EXT
  | DEC_BAD_L4_LEN
  | DEC_BAD_TCP_DOFF
  | DEC_BAD_UDP_LEN
  | DEC_BAD_GTPU_LEN
  | DEC_BAD_GTPU_EXT_LEN
  | DEC_BAD_GTPU_EXT
  | DEC_BAD_GTPU_INNER
  | DEC_BAD_GTPU_INNER_SHORT
  | DEC_STATUS_COUNT

text \<open>The enumerators' values, in declaration order from 0. \<open>DEC_STATUS_COUNT\<close> is the
  last enumerator, so it is both a value of the type and the number of reasons.\<close>

primrec status_num :: "decode_status \<Rightarrow> nat" where
  "status_num DEC_OK = 0"
| "status_num DEC_TRUNC_ETHERNET = 1"
| "status_num DEC_TRUNC_VLAN = 2"
| "status_num DEC_TRUNC_IPV4 = 3"
| "status_num DEC_TRUNC_IPV6 = 4"
| "status_num DEC_TRUNC_IPV6_EXT = 5"
| "status_num DEC_TRUNC_TCP = 6"
| "status_num DEC_TRUNC_UDP = 7"
| "status_num DEC_TRUNC_ICMP = 8"
| "status_num DEC_TRUNC_GTPU = 9"
| "status_num DEC_TRUNC_GTPU_EXT = 10"
| "status_num DEC_TRUNC_GTPU_INNER = 11"
| "status_num DEC_BAD_SHORT_FRAME = 12"
| "status_num DEC_BAD_VLAN_DEPTH = 13"
| "status_num DEC_BAD_IPV4_VERSION = 14"
| "status_num DEC_BAD_IPV4_IHL = 15"
| "status_num DEC_BAD_IPV4_TOTAL_LEN = 16"
| "status_num DEC_BAD_IPV6_VERSION = 17"
| "status_num DEC_BAD_IPV6_PAYLOAD_LEN = 18"
| "status_num DEC_BAD_IPV6_EXT = 19"
| "status_num DEC_BAD_L4_LEN = 20"
| "status_num DEC_BAD_TCP_DOFF = 21"
| "status_num DEC_BAD_UDP_LEN = 22"
| "status_num DEC_BAD_GTPU_LEN = 23"
| "status_num DEC_BAD_GTPU_EXT_LEN = 24"
| "status_num DEC_BAD_GTPU_EXT = 25"
| "status_num DEC_BAD_GTPU_INNER = 26"
| "status_num DEC_BAD_GTPU_INNER_SHORT = 27"
| "status_num DEC_STATUS_COUNT = 28"

definition all_status :: "decode_status list" where
  "all_status = [
     DEC_OK, DEC_TRUNC_ETHERNET, DEC_TRUNC_VLAN, DEC_TRUNC_IPV4,
     DEC_TRUNC_IPV6, DEC_TRUNC_IPV6_EXT, DEC_TRUNC_TCP, DEC_TRUNC_UDP,
     DEC_TRUNC_ICMP, DEC_TRUNC_GTPU, DEC_TRUNC_GTPU_EXT, DEC_TRUNC_GTPU_INNER,
     DEC_BAD_SHORT_FRAME, DEC_BAD_VLAN_DEPTH, DEC_BAD_IPV4_VERSION, DEC_BAD_IPV4_IHL,
     DEC_BAD_IPV4_TOTAL_LEN, DEC_BAD_IPV6_VERSION, DEC_BAD_IPV6_PAYLOAD_LEN, DEC_BAD_IPV6_EXT,
     DEC_BAD_L4_LEN, DEC_BAD_TCP_DOFF, DEC_BAD_UDP_LEN, DEC_BAD_GTPU_LEN,
     DEC_BAD_GTPU_EXT_LEN, DEC_BAD_GTPU_EXT, DEC_BAD_GTPU_INNER, DEC_BAD_GTPU_INNER_SHORT,
     DEC_STATUS_COUNT]"

datatype frag_kind = FRAG_NONE | FRAG_FIRST | FRAG_LATER

text \<open>\<open>uint8_t\<close> members that only hold 0 or 1 are booleans; arrays are lists of the
  declared length.\<close>

record packet_info =
  pi_status :: decode_status
  pi_has_l2 :: bool
  pi_has_l3 :: bool
  pi_has_l4 :: bool
  pi_ethertype :: u16
  pi_vlan_count :: u8
  pi_vlan_ids :: "u16 list"
  pi_ip_version :: u8
  pi_ip_proto :: u8
  pi_src_addr :: "u8 list"
  pi_dst_addr :: "u8 list"
  pi_frag :: frag_kind
  pi_frag_id :: u32
  pi_src_port :: u16
  pi_dst_port :: u16
  pi_tcp_flags :: u8
  pi_icmp_type :: u8
  pi_icmp_code :: u8
  pi_is_gtpu :: bool
  pi_gtp_status :: decode_status
  pi_gtp_v1u :: bool
  pi_gtp_flags :: u8
  pi_gtp_msg_type :: u8
  pi_gtp_msg_ok :: bool
  pi_gtp_seq :: u16
  pi_teid :: u32
  pi_gtp_ext_count :: u8
  pi_has_inner :: bool
  pi_inner_has_l4 :: bool
  pi_gtp_nested :: bool
  pi_inner_version :: u8
  pi_inner_proto :: u8
  pi_inner_src :: "u8 list"
  pi_inner_dst :: "u8 list"
  pi_inner_src_port :: u16
  pi_inner_dst_port :: u16

text \<open>\<open>memset(pi, 0, sizeof *pi)\<close>: every member 0, every enumeration its first value.\<close>

definition packet_info0 :: packet_info where
  "packet_info0 = \<lparr>
     pi_status = DEC_OK, pi_has_l2 = False, pi_has_l3 = False, pi_has_l4 = False,
     pi_ethertype = 0, pi_vlan_count = 0, pi_vlan_ids = replicate 2 0,
     pi_ip_version = 0, pi_ip_proto = 0, pi_src_addr = replicate 16 0,
     pi_dst_addr = replicate 16 0, pi_frag = FRAG_NONE, pi_frag_id = 0,
     pi_src_port = 0, pi_dst_port = 0, pi_tcp_flags = 0, pi_icmp_type = 0, pi_icmp_code = 0,
     pi_is_gtpu = False, pi_gtp_status = DEC_OK, pi_gtp_v1u = False, pi_gtp_flags = 0,
     pi_gtp_msg_type = 0, pi_gtp_msg_ok = False, pi_gtp_seq = 0, pi_teid = 0,
     pi_gtp_ext_count = 0, pi_has_inner = False, pi_inner_has_l4 = False,
     pi_gtp_nested = False, pi_inner_version = 0, pi_inner_proto = 0,
     pi_inner_src = replicate 16 0, pi_inner_dst = replicate 16 0,
     pi_inner_src_port = 0, pi_inner_dst_port = 0\<rparr>"

record span =
  sp_p :: nat
  sp_cap :: size_t
  sp_wire :: size_t

type_synonym decoded = "(decode_status \<times> span \<times> packet_info) option"

section \<open>Spans\<close>

definition need :: "span \<Rightarrow> size_t \<Rightarrow> decode_status \<Rightarrow> decode_status \<Rightarrow> decode_status" where
  "need s n truncated malformed =
     (if n \<le> sp_cap s then DEC_OK
      else if n \<le> sp_wire s then truncated else malformed)"

definition advance :: "span \<Rightarrow> size_t \<Rightarrow> span" where
  "advance s n = \<lparr>sp_p = sp_p s + unat n, sp_cap = sp_cap s - n, sp_wire = sp_wire s - n\<rparr>"

definition clip :: "span \<Rightarrow> size_t \<Rightarrow> span" where
  "clip s len = s\<lparr>sp_cap := (if sp_cap s > len then len else sp_cap s), sp_wire := len\<rparr>"

section \<open>Transport layer\<close>

definition decode_l4_tcp :: "u8 list \<Rightarrow> span \<Rightarrow> packet_info \<Rightarrow> decoded" where
  "decode_l4_tcp b s pi =
     (let st = need s TCP_MIN_HDR DEC_TRUNC_TCP DEC_BAD_L4_LEN in
      if st \<noteq> DEC_OK then Some (st, s, pi)
      else do {
        sport \<leftarrow> load_be16 b (sp_p s);
        dport \<leftarrow> load_be16 b (sp_p s + 2);
        flags \<leftarrow> rd8 b (sp_p s + 13);
        doff \<leftarrow> rd8 b (sp_p s + 12);
        let pi = pi\<lparr>pi_src_port := sport, pi_dst_port := dport, pi_tcp_flags := flags\<rparr>;
        let hlen = ucast (drop_bit 4 doff) * 4;
        if hlen < TCP_MIN_HDR \<or> hlen > sp_wire s then Some (DEC_BAD_TCP_DOFF, s, pi)
        else if hlen > sp_cap s then Some (DEC_TRUNC_TCP, s, pi)
        else Some (DEC_OK, s, pi\<lparr>pi_has_l4 := True\<rparr>) })"

definition decode_l4_udp :: "u8 list \<Rightarrow> span \<Rightarrow> packet_info \<Rightarrow> decoded" where
  "decode_l4_udp b s pi =
     (let st = need s UDP_HDR_LEN DEC_TRUNC_UDP DEC_BAD_L4_LEN in
      if st \<noteq> DEC_OK then Some (st, s, pi)
      else do {
        sport \<leftarrow> load_be16 b (sp_p s);
        dport \<leftarrow> load_be16 b (sp_p s + 2);
        let pi = pi\<lparr>pi_src_port := sport, pi_dst_port := dport\<rparr>;
        ulen16 \<leftarrow> load_be16 b (sp_p s + 4);
        let ulen = ucast ulen16;
        if ulen < UDP_HDR_LEN \<or> (pi_frag pi = FRAG_NONE \<and> ulen > sp_wire s)
        then Some (DEC_BAD_UDP_LEN, s, pi)
        else Some (DEC_OK, (if pi_frag pi = FRAG_NONE then clip s ulen else s), pi\<lparr>pi_has_l4 := True\<rparr>) })"

definition decode_l4_icmp :: "u8 list \<Rightarrow> span \<Rightarrow> packet_info \<Rightarrow> decoded" where
  "decode_l4_icmp b s pi =
     (let st = need s ICMP_MIN_HDR DEC_TRUNC_ICMP DEC_BAD_L4_LEN in
      if st \<noteq> DEC_OK then Some (st, s, pi)
      else do {
        ty \<leftarrow> rd8 b (sp_p s);
        code \<leftarrow> rd8 b (sp_p s + 1);
        Some (DEC_OK, s, pi\<lparr>pi_icmp_type := ty, pi_icmp_code := code, pi_has_l4 := True\<rparr>) })"

definition decode_l4 :: "u8 list \<Rightarrow> span \<Rightarrow> packet_info \<Rightarrow> decoded" where
  "decode_l4 b s pi =
     (if pi_ip_proto pi = IPPROTO_NUM_TCP then decode_l4_tcp b s pi
      else if pi_ip_proto pi = IPPROTO_NUM_UDP then decode_l4_udp b s pi
      else if pi_ip_proto pi = IPPROTO_NUM_ICMP \<or> pi_ip_proto pi = IPPROTO_NUM_ICMPV6
      then decode_l4_icmp b s pi
      else Some (DEC_OK, s, pi))"

section \<open>IPv4\<close>

definition decode_ipv4 :: "u8 list \<Rightarrow> span \<Rightarrow> packet_info \<Rightarrow> decoded" where
  "decode_ipv4 b s pi =
     (let st = need s IPV4_MIN_HDR DEC_TRUNC_IPV4 DEC_BAD_SHORT_FRAME in
      if st \<noteq> DEC_OK then Some (st, s, pi)
      else do {
        let ip = sp_p s;
        ip0 \<leftarrow> rd8 b ip;
        if drop_bit 4 ip0 \<noteq> 4 then Some (DEC_BAD_IPV4_VERSION, s, pi) else do {
        let hlen = ucast (ip0 AND 0x0F) * 4;
        if hlen < IPV4_MIN_HDR then Some (DEC_BAD_IPV4_IHL, s, pi) else do {
        total16 \<leftarrow> load_be16 b (ip + 2);
        let total = (if total16 = 0 then sp_wire s else ucast total16);
        if total < hlen \<or> total > sp_wire s then Some (DEC_BAD_IPV4_TOTAL_LEN, s, pi)
        else if hlen > sp_cap s then Some (DEC_TRUNC_IPV4, s, pi) else do {
        proto \<leftarrow> rd8 b (ip + 9);
        src \<leftarrow> rdn b (ip + 12) 4;
        dst \<leftarrow> rdn b (ip + 16) 4;
        fid \<leftarrow> load_be16 b (ip + 4);
        off \<leftarrow> load_be16 b (ip + 6);
        let frag_offset = (ucast off :: cuint) AND 0x1FFF;
        let more_frags = (ucast off :: cuint) AND 0x2000;
        let pi = pi\<lparr>pi_ip_version := 4, pi_ip_proto := proto,
                    pi_src_addr := set_prefix (pi_src_addr pi) src,
                    pi_dst_addr := set_prefix (pi_dst_addr pi) dst,
                    pi_frag_id := ucast fid,
                    pi_frag := (if frag_offset \<noteq> 0 then FRAG_LATER
                                else if more_frags \<noteq> 0 then FRAG_FIRST else pi_frag pi),
                    pi_has_l3 := True\<rparr>;
        let s = advance (clip s total) hlen;
        if pi_frag pi = FRAG_LATER then Some (DEC_OK, s, pi)
        else decode_l4 b s pi }}}})"

section \<open>IPv6\<close>

definition is_ipv6_ext :: "cuint \<Rightarrow> bool" where
  "is_ipv6_ext nxt \<longleftrightarrow> nxt = IP6_EXT_HOPOPTS \<or> nxt = IP6_EXT_ROUTING \<or>
     nxt = IP6_EXT_FRAGMENT \<or> nxt = IP6_EXT_DSTOPTS"

text \<open>
  The walk over the extension headers, with the code after the loop as its last step. The
  header counter is compared with the limit before each increment, so the walk ends
  whatever the headers say.
\<close>

function ipv6_chain :: "u8 list \<Rightarrow> cuint \<Rightarrow> cuint \<Rightarrow> span \<Rightarrow> packet_info \<Rightarrow> decoded" where
  "ipv6_chain b hops nxt s pi =
     (if \<not> is_ipv6_ext nxt then decode_l4 b s (pi\<lparr>pi_ip_proto := ucast nxt\<rparr>)
      else if hops = IPV6_MAX_EXT_HEADERS then Some (DEC_BAD_IPV6_EXT, s, pi)
      else if nxt = IP6_EXT_FRAGMENT then
        (let st = need s IPV6_FRAG_LEN DEC_TRUNC_IPV6_EXT DEC_BAD_IPV6_EXT in
         if st \<noteq> DEC_OK then Some (st, s, pi)
         else do {
           off16 \<leftarrow> load_be16 b (sp_p s + 2);
           let off_flags = (ucast off16 :: cuint);
           fid \<leftarrow> load_be32 b (sp_p s + 4);
           let pi = pi\<lparr>pi_frag_id := fid,
                       pi_frag := (if drop_bit 3 off_flags \<noteq> 0 then FRAG_LATER
                                   else if off_flags AND 1 \<noteq> 0 then FRAG_FIRST else pi_frag pi)\<rparr>;
           nxt' \<leftarrow> rd8 b (sp_p s);
           let s = advance s IPV6_FRAG_LEN;
           if pi_frag pi = FRAG_LATER then Some (DEC_OK, s, pi\<lparr>pi_ip_proto := nxt'\<rparr>)
           else ipv6_chain b (hops + 1) (ucast nxt') s pi })
      else
        (let st = need s 2 DEC_TRUNC_IPV6_EXT DEC_BAD_IPV6_EXT in
         if st \<noteq> DEC_OK then Some (st, s, pi)
         else do {
           l \<leftarrow> rd8 b (sp_p s + 1);
           let len = (ucast l + 1) * 8;
           let st = need s len DEC_TRUNC_IPV6_EXT DEC_BAD_IPV6_EXT;
           if st \<noteq> DEC_OK then Some (st, s, pi)
           else do {
             nxt' \<leftarrow> rd8 b (sp_p s);
             ipv6_chain b (hops + 1) (ucast nxt') (advance s len) pi }}))"
  by pat_completeness auto
termination
  by (relation "measure (\<lambda>(b, hops, nxt, s, pi). unat (IPV6_MAX_EXT_HEADERS - hops))")
    (auto dest: counter_measure)

definition decode_ipv6 :: "u8 list \<Rightarrow> span \<Rightarrow> packet_info \<Rightarrow> decoded" where
  "decode_ipv6 b s pi =
     (let st = need s IPV6_HDR_LEN DEC_TRUNC_IPV6 DEC_BAD_SHORT_FRAME in
      if st \<noteq> DEC_OK then Some (st, s, pi)
      else do {
        let ip = sp_p s;
        ip0 \<leftarrow> rd8 b ip;
        if drop_bit 4 ip0 \<noteq> 6 then Some (DEC_BAD_IPV6_VERSION, s, pi) else do {
        payload16 \<leftarrow> load_be16 b (ip + 4);
        let payload = ucast payload16;
        if payload > sp_wire s - IPV6_HDR_LEN then Some (DEC_BAD_IPV6_PAYLOAD_LEN, s, pi) else do {
        nxt \<leftarrow> rd8 b (ip + 6);
        src \<leftarrow> rdn b (ip + 8) 16;
        dst \<leftarrow> rdn b (ip + 24) 16;
        let pi = pi\<lparr>pi_ip_version := 6,
                    pi_src_addr := set_prefix (pi_src_addr pi) src,
                    pi_dst_addr := set_prefix (pi_dst_addr pi) dst,
                    pi_has_l3 := True\<rparr>;
        ipv6_chain b 0 (ucast nxt) (clip (advance s IPV6_HDR_LEN) payload) pi }}})"

section \<open>GTP-U\<close>

definition decode_is_gtpu_port :: "packet_info \<Rightarrow> bool" where
  "decode_is_gtpu_port pi \<longleftrightarrow> pi_has_l4 pi \<and> pi_ip_proto pi = IPPROTO_NUM_UDP \<and>
     (pi_src_port pi = GTPU_PORT \<or> pi_dst_port pi = GTPU_PORT)"

definition copy_inner :: "packet_info \<Rightarrow> packet_info \<Rightarrow> packet_info" where
  "copy_inner inn pi =
     (let pi = (if pi_has_l3 inn
                then pi\<lparr>pi_has_inner := True, pi_inner_version := pi_ip_version inn,
                        pi_inner_proto := pi_ip_proto inn, pi_inner_src := pi_src_addr inn,
                        pi_inner_dst := pi_dst_addr inn\<rparr>
                else pi)
      in if pi_has_l4 inn
         then pi\<lparr>pi_inner_has_l4 := True, pi_inner_src_port := pi_src_port inn,
                 pi_inner_dst_port := pi_dst_port inn, pi_gtp_nested := decode_is_gtpu_port inn\<rparr>
         else pi)"

definition decode_gtpu_inner :: "u8 list \<Rightarrow> span \<Rightarrow> packet_info \<Rightarrow> decoded" where
  "decode_gtpu_inner b s pi =
     (let st = need s 1 DEC_TRUNC_GTPU_INNER DEC_BAD_GTPU_INNER in
      if st \<noteq> DEC_OK then Some (st, s, pi)
      else do {
        p0 \<leftarrow> rd8 b (sp_p s);
        let v = drop_bit 4 p0;
        if v \<noteq> 4 \<and> v \<noteq> 6 then Some (DEC_BAD_GTPU_INNER, s, pi)
        else do {
          (st, s, inn) \<leftarrow> (if v = 4 then decode_ipv4 b s packet_info0 else decode_ipv6 b s packet_info0);
          Some ((if st = DEC_BAD_SHORT_FRAME then DEC_BAD_GTPU_INNER_SHORT else st), s,
                copy_inner inn pi) }})"

text \<open>The walk over the GTP-U extension headers; \<open>DEC_OK\<close> when the chain ended.\<close>

function gtpu_chain :: "u8 list \<Rightarrow> cuint \<Rightarrow> cuint \<Rightarrow> span \<Rightarrow> packet_info \<Rightarrow> decoded" where
  "gtpu_chain b hops nxt s pi =
     (if nxt = 0 then Some (DEC_OK, s, pi)
      else if hops = GTPU_MAX_EXT_HEADERS then Some (DEC_BAD_GTPU_EXT, s, pi)
      else
        (let st = need s 1 DEC_TRUNC_GTPU_EXT DEC_BAD_GTPU_EXT in
         if st \<noteq> DEC_OK then Some (st, s, pi)
         else do {
           l \<leftarrow> rd8 b (sp_p s);
           let elen = (ucast l :: size_t) * 4;
           if elen = 0 then Some (DEC_BAD_GTPU_EXT_LEN, s, pi)
           else (let st = need s elen DEC_TRUNC_GTPU_EXT DEC_BAD_GTPU_EXT in
             if st \<noteq> DEC_OK then Some (st, s, pi)
             else do {
               nxt' \<leftarrow> rd8 b (sp_p s + unat (elen - 1));
               gtpu_chain b (hops + 1) (ucast nxt') (advance s elen)
                 (pi\<lparr>pi_gtp_ext_count := ucast (hops + 1)\<rparr>) }) }))"
  by pat_completeness auto
termination
  by (relation "measure (\<lambda>(b, hops, nxt, s, pi). unat (GTPU_MAX_EXT_HEADERS - hops))")
    (auto dest: counter_measure)

text \<open>The optional fields: the type of the first extension header (0 for none), or the
  status that ends the decoding.\<close>

definition gtpu_options ::
    "u8 list \<Rightarrow> cuint \<Rightarrow> span \<Rightarrow> packet_info \<Rightarrow> (decode_status \<times> cuint \<times> span \<times> packet_info) option" where
  "gtpu_options b flags s pi =
     (if flags AND (GTPU_FLAG_E OR GTPU_FLAG_S OR GTPU_FLAG_PN) = 0 then Some (DEC_OK, 0, s, pi)
      else (let st = need s GTPU_OPT_LEN DEC_TRUNC_GTPU DEC_BAD_GTPU_LEN in
        if st \<noteq> DEC_OK then Some (st, 0, s, pi)
        else do {
          pi \<leftarrow> (if flags AND GTPU_FLAG_S \<noteq> 0
                 then do { sq \<leftarrow> load_be16 b (sp_p s); Some (pi\<lparr>pi_gtp_seq := sq\<rparr>) }
                 else Some pi);
          nxt \<leftarrow> (if flags AND GTPU_FLAG_E \<noteq> 0 then map_option ucast (rd8 b (sp_p s + 3)) else Some 0);
          Some (DEC_OK, nxt, advance s GTPU_OPT_LEN, pi) }))"

text \<open>What follows the 8 fixed bytes: optional fields, extension headers, user packet.\<close>

definition decode_gtpu_body :: "u8 list \<Rightarrow> cuint \<Rightarrow> span \<Rightarrow> packet_info \<Rightarrow> decoded" where
  "decode_gtpu_body b flags s pi = do {
     (st, nxt, s, pi) \<leftarrow> gtpu_options b flags s pi;
     if st \<noteq> DEC_OK then Some (st, s, pi) else do {
     (st, s, pi) \<leftarrow> gtpu_chain b 0 nxt s pi;
     if st \<noteq> DEC_OK then Some (st, s, pi) else do {
     let pi = pi\<lparr>pi_gtp_msg_ok := True\<rparr>;
     if pi_gtp_msg_type pi \<noteq> GTPU_MSG_GPDU then Some (DEC_OK, s, pi)
     else decode_gtpu_inner b s pi }}}"

definition decode_gtpu :: "u8 list \<Rightarrow> span \<Rightarrow> packet_info \<Rightarrow> decoded" where
  "decode_gtpu b s pi =
     (let st = need s GTPU_HDR_LEN DEC_TRUNC_GTPU DEC_BAD_GTPU_LEN in
      if st \<noteq> DEC_OK then Some (st, s, pi)
      else do {
        p0 \<leftarrow> rd8 b (sp_p s);
        let flags = (ucast p0 :: cuint);
        if drop_bit 5 flags \<noteq> 1 \<or> flags AND GTPU_FLAG_PT = 0 then Some (DEC_OK, s, pi) else do {
        ty \<leftarrow> rd8 b (sp_p s + 1);
        len16 \<leftarrow> load_be16 b (sp_p s + 2);
        let len = ucast len16;
        tid \<leftarrow> load_be32 b (sp_p s + 4);
        let pi = pi\<lparr>pi_gtp_v1u := True, pi_gtp_flags := ucast flags, pi_gtp_msg_type := ty,
                    pi_teid := tid\<rparr>;
        if len > sp_wire s - GTPU_HDR_LEN then Some (DEC_BAD_GTPU_LEN, s, pi)
        else decode_gtpu_body b flags (clip (advance s GTPU_HDR_LEN) len) pi }})"

section \<open>Ethernet\<close>

definition is_vlan_type :: "cuint \<Rightarrow> bool" where
  "is_vlan_type ty \<longleftrightarrow> ty = ETHERTYPE_VLAN \<or> ty = ETHERTYPE_QINQ \<or> ty = ETHERTYPE_QINQ_LEGACY"

text \<open>The loop over the VLAN tags: the ethertype behind the tags, or no ethertype when
  the frame ends the decoding here, with the reason in \<open>pi_status\<close>.\<close>

function vlan_tags ::
    "u8 list \<Rightarrow> cuint \<Rightarrow> span \<Rightarrow> packet_info \<Rightarrow> (cuint option \<times> span \<times> packet_info) option" where
  "vlan_tags b ty s pi =
     (if \<not> is_vlan_type ty then Some (Some ty, s, pi)
      else if pi_vlan_count pi = DECODE_MAX_VLANS
      then Some (None, s, pi\<lparr>pi_status := DEC_BAD_VLAN_DEPTH\<rparr>)
      else
        (let st = need s VLAN_TAG_LEN DEC_TRUNC_VLAN DEC_BAD_SHORT_FRAME;
             pi = pi\<lparr>pi_status := st\<rparr> in
         if st \<noteq> DEC_OK then Some (None, s, pi)
         else do {
           tci \<leftarrow> load_be16 b (sp_p s);
           ty' \<leftarrow> load_be16 b (sp_p s + 2);
           ids \<leftarrow> wr (pi_vlan_ids pi) (unat (pi_vlan_count pi)) (tci AND 0x0FFF);
           vlan_tags b (ucast ty') (advance s VLAN_TAG_LEN)
             (pi\<lparr>pi_vlan_ids := ids, pi_vlan_count := pi_vlan_count pi + 1\<rparr>) }))"
  by pat_completeness auto
termination
  by (relation "measure (\<lambda>(b, ty, s, pi). unat (DECODE_MAX_VLANS - pi_vlan_count pi))")
    (auto dest: counter_measure)

definition decode_network :: "u8 list \<Rightarrow> cuint \<Rightarrow> span \<Rightarrow> packet_info \<Rightarrow> decoded" where
  "decode_network b ty s pi =
     (if ty = ETHERTYPE_IPV4 then decode_ipv4 b s pi
      else if ty = ETHERTYPE_IPV6 then decode_ipv6 b s pi
      else Some (DEC_OK, s, pi))"

text \<open>What follows the Ethernet header and the tags: the IP packet, and GTP-U on top of it.\<close>

definition decode_payload :: "u8 list \<Rightarrow> cuint \<Rightarrow> span \<Rightarrow> packet_info \<Rightarrow> packet_info option" where
  "decode_payload b ty s pi = do {
     (st, s, pi) \<leftarrow> decode_network b ty s (pi\<lparr>pi_ethertype := ucast ty, pi_has_l2 := True\<rparr>);
     let pi = pi\<lparr>pi_status := st\<rparr>;
     if pi_status pi = DEC_OK \<and> pi_frag pi = FRAG_NONE \<and> decode_is_gtpu_port pi
        \<and> sp_wire s \<ge> UDP_HDR_LEN + GTPU_HDR_LEN
     then do {
       (gst, s, pi) \<leftarrow> decode_gtpu b (advance s UDP_HDR_LEN) (pi\<lparr>pi_is_gtpu := True\<rparr>);
       Some (pi\<lparr>pi_gtp_status := gst\<rparr>) }
     else Some pi }"

definition decode_frame :: "u8 list \<Rightarrow> size_t \<Rightarrow> size_t \<Rightarrow> packet_info option" where
  "decode_frame b caplen wirelen =
     (let s = \<lparr>sp_p = 0, sp_cap = caplen,
               sp_wire = (if wirelen > caplen then wirelen else caplen)\<rparr>;
          st = need s ETH_HDR_LEN DEC_TRUNC_ETHERNET DEC_BAD_SHORT_FRAME;
          pi = packet_info0\<lparr>pi_status := st\<rparr> in
      if st \<noteq> DEC_OK then Some pi
      else do {
        ty0 \<leftarrow> load_be16 b (sp_p s + 12);
        (tyo, s, pi) \<leftarrow> vlan_tags b (ucast ty0) (advance s ETH_HDR_LEN) pi;
        case tyo of None \<Rightarrow> Some pi | Some ty \<Rightarrow> decode_payload b ty s pi })"

section \<open>Statuses\<close>

text \<open>\<open>s >= DEC_TRUNC_ETHERNET && s <= DEC_TRUNC_GTPU_INNER\<close>, on the enumerators' values.\<close>

definition decode_status_is_truncation :: "decode_status \<Rightarrow> bool" where
  "decode_status_is_truncation s \<longleftrightarrow>
     status_num DEC_TRUNC_ETHERNET \<le> status_num s \<and> status_num s \<le> status_num DEC_TRUNC_GTPU_INNER"

primrec decode_status_str :: "decode_status \<Rightarrow> string" where
  "decode_status_str DEC_OK = ''ok''"
| "decode_status_str DEC_TRUNC_ETHERNET = ''truncated Ethernet header''"
| "decode_status_str DEC_TRUNC_VLAN = ''truncated VLAN tag''"
| "decode_status_str DEC_TRUNC_IPV4 = ''truncated IPv4 header''"
| "decode_status_str DEC_TRUNC_IPV6 = ''truncated IPv6 header''"
| "decode_status_str DEC_TRUNC_IPV6_EXT = ''truncated IPv6 extension header''"
| "decode_status_str DEC_TRUNC_TCP = ''truncated TCP header''"
| "decode_status_str DEC_TRUNC_UDP = ''truncated UDP header''"
| "decode_status_str DEC_TRUNC_ICMP = ''truncated ICMP header''"
| "decode_status_str DEC_TRUNC_GTPU = ''truncated GTP-U header''"
| "decode_status_str DEC_TRUNC_GTPU_EXT = ''truncated GTP-U extension header''"
| "decode_status_str DEC_TRUNC_GTPU_INNER = ''G-PDU truncated before its IP packet''"
| "decode_status_str DEC_BAD_SHORT_FRAME = ''frame too short for its headers''"
| "decode_status_str DEC_BAD_VLAN_DEPTH = ''more than 2 VLAN tags''"
| "decode_status_str DEC_BAD_IPV4_VERSION = ''IPv4 ethertype with wrong IP version''"
| "decode_status_str DEC_BAD_IPV4_IHL = ''IPv4 header length < 20''"
| "decode_status_str DEC_BAD_IPV4_TOTAL_LEN = ''IPv4 total length invalid''"
| "decode_status_str DEC_BAD_IPV6_VERSION = ''IPv6 ethertype with wrong IP version''"
| "decode_status_str DEC_BAD_IPV6_PAYLOAD_LEN = ''IPv6 payload length exceeds frame''"
| "decode_status_str DEC_BAD_IPV6_EXT = ''IPv6 extension header invalid''"
| "decode_status_str DEC_BAD_L4_LEN = ''IP payload too short for L4 header''"
| "decode_status_str DEC_BAD_TCP_DOFF = ''TCP data offset invalid''"
| "decode_status_str DEC_BAD_UDP_LEN = ''UDP length invalid''"
| "decode_status_str DEC_BAD_GTPU_LEN = ''GTP-U length invalid''"
| "decode_status_str DEC_BAD_GTPU_EXT_LEN = ''GTP-U extension header length 0''"
| "decode_status_str DEC_BAD_GTPU_EXT = ''GTP-U extension header invalid''"
| "decode_status_str DEC_BAD_GTPU_INNER = ''G-PDU payload not IPv4 or IPv6''"
| "decode_status_str DEC_BAD_GTPU_INNER_SHORT = ''G-PDU payload too short for IP header''"
| "decode_status_str DEC_STATUS_COUNT = ''unknown''"

declare ipv6_chain.simps [simp del] gtpu_chain.simps [simp del] vlan_tags.simps [simp del]

end
