(* ===== verification/Decode_Safety.thy ===== *)
theory Decode_Safety
  imports Decode
begin

text \<open>
  Bounds of the decoder. The contract every protocol layer keeps is the locale
  \<open>bounded_layer\<close>: started on a span inside its buffer, a layer reads only that span,
  leaves a span inside the buffer, reports a reason of its own list, never blames the capture
  when the whole packet is there, and touches only its own members of \<open>packet_info\<close>. The
  locale is interpreted on the transport, IPv4, IPv6, GTP-U and user packet decoders.
\<close>

section \<open>Spans\<close>

definition span_ok :: "u8 list \<Rightarrow> span \<Rightarrow> bool" where
  "span_ok b s \<longleftrightarrow> sp_p s + unat (sp_cap s) \<le> length b \<and> sp_cap s \<le> sp_wire s"

definition span_full :: "span \<Rightarrow> bool" where
  "span_full s \<longleftrightarrow> sp_cap s = sp_wire s"

lemma span_full_iff: "span_full s \<longleftrightarrow> unat (sp_cap s) = unat (sp_wire s)"
  by (simp add: span_full_def word_unat_eq_iff)

lemma span_ok_advance: "span_ok b s \<Longrightarrow> n \<le> sp_cap s \<Longrightarrow> span_ok b (advance s n)"
proof -
  assume ok: "span_ok b s" and n: "n \<le> sp_cap s"
  then have "n \<le> sp_wire s" by (auto simp: span_ok_def)
  with ok n show ?thesis
    by (auto simp: span_ok_def advance_def word_le_nat_alt unat_sub)
qed

lemma span_ok_clip: "span_ok b s \<Longrightarrow> span_ok b (clip s n)"
  by (auto simp: span_ok_def clip_def word_le_nat_alt not_less word_less_nat_alt)

lemma span_full_advance: "span_full s \<Longrightarrow> span_full (advance s n)"
  by (simp add: span_full_def advance_def)

lemma span_full_clip: "span_full s \<Longrightarrow> n \<le> sp_wire s \<Longrightarrow> span_full (clip s n)"
  by (auto simp: span_full_def clip_def)

lemma advance_sel [simp]:
  "sp_p (advance s n) = sp_p s + unat n" "sp_cap (advance s n) = sp_cap s - n"
  "sp_wire (advance s n) = sp_wire s - n"
  by (simp_all add: advance_def)

lemma clip_sel [simp]:
  "sp_p (clip s n) = sp_p s" "sp_cap (clip s n) = min (sp_cap s) n" "sp_wire (clip s n) = n"
  by (auto simp: clip_def min_def)

text \<open>Inside a span there are as many buffer bytes as its \<open>cap\<close> says.\<close>

lemma span_bytes: "span_ok b s \<Longrightarrow> n \<le> sp_cap s \<Longrightarrow> sp_p s + unat n \<le> length b"
  by (auto simp: span_ok_def word_le_nat_alt)

lemma need_OK: "need s n t m = DEC_OK \<Longrightarrow> t \<noteq> DEC_OK \<Longrightarrow> m \<noteq> DEC_OK \<Longrightarrow> n \<le> sp_cap s"
  by (auto simp: need_def split: if_splits)

lemma need_cases:
  assumes "need s n t m \<noteq> DEC_OK"
  obtains "need s n t m = t" "sp_cap s < n" "n \<le> sp_wire s" | "need s n t m = m" "sp_wire s < n"
  using assms by (auto simp: need_def not_le split: if_splits)

abbreviation is_trunc :: "decode_status \<Rightarrow> bool" where
  "is_trunc \<equiv> decode_status_is_truncation"

lemma is_trunc_simps [simp]:
  "is_trunc DEC_OK = False" "is_trunc DEC_TRUNC_ETHERNET" "is_trunc DEC_TRUNC_VLAN"
  "is_trunc DEC_TRUNC_IPV4" "is_trunc DEC_TRUNC_IPV6" "is_trunc DEC_TRUNC_IPV6_EXT"
  "is_trunc DEC_TRUNC_TCP" "is_trunc DEC_TRUNC_UDP" "is_trunc DEC_TRUNC_ICMP"
  "is_trunc DEC_TRUNC_GTPU" "is_trunc DEC_TRUNC_GTPU_EXT" "is_trunc DEC_TRUNC_GTPU_INNER"
  "is_trunc DEC_BAD_SHORT_FRAME = False" "is_trunc DEC_BAD_VLAN_DEPTH = False"
  "is_trunc DEC_BAD_IPV4_VERSION = False" "is_trunc DEC_BAD_IPV4_IHL = False"
  "is_trunc DEC_BAD_IPV4_TOTAL_LEN = False" "is_trunc DEC_BAD_IPV6_VERSION = False"
  "is_trunc DEC_BAD_IPV6_PAYLOAD_LEN = False" "is_trunc DEC_BAD_IPV6_EXT = False"
  "is_trunc DEC_BAD_L4_LEN = False" "is_trunc DEC_BAD_TCP_DOFF = False"
  "is_trunc DEC_BAD_UDP_LEN = False" "is_trunc DEC_BAD_GTPU_LEN = False"
  "is_trunc DEC_BAD_GTPU_EXT_LEN = False" "is_trunc DEC_BAD_GTPU_EXT = False"
  "is_trunc DEC_BAD_GTPU_INNER = False" "is_trunc DEC_BAD_GTPU_INNER_SHORT = False"
  "is_trunc DEC_STATUS_COUNT = False"
  by (simp_all add: decode_status_is_truncation_def)

section \<open>The layer contract\<close>

text \<open>What one run of a layer guarantees: \<open>sts\<close> are the statuses it may report and
  \<open>frame\<close> forgets the members it may write.\<close>

definition layer_post ::
    "decode_status set \<Rightarrow> (packet_info \<Rightarrow> packet_info) \<Rightarrow> u8 list \<Rightarrow> span \<Rightarrow> packet_info \<Rightarrow>
     decode_status \<times> span \<times> packet_info \<Rightarrow> bool" where
  "layer_post sts frame b s pi = (\<lambda>(st, s', pi').
     span_ok b s' \<and> (span_full s \<longrightarrow> \<not> is_trunc st \<and> span_full s') \<and> st \<in> sts \<and>
     frame pi' = frame pi)"

locale bounded_layer =
  fixes dec :: "u8 list \<Rightarrow> span \<Rightarrow> packet_info \<Rightarrow> decoded"
    and sts :: "decode_status set"
    and frame :: "packet_info \<Rightarrow> packet_info"
  assumes run: "span_ok b s \<Longrightarrow> wp (dec b s pi) (layer_post sts frame b s pi)"
    and grow: "ext_le (dec b s pi) (dec (b @ c) s pi)"
begin

lemma returns: "span_ok b s \<Longrightarrow> \<exists>st s' pi'. dec b s pi = Some (st, s', pi')"
  using run [of b s pi] by (auto simp: wp_def)

lemma post: "span_ok b s \<Longrightarrow> dec b s pi = Some r \<Longrightarrow> layer_post sts frame b s pi r"
  by (rule wpD [OF run])

text \<open>Bytes behind the span do not matter.\<close>

lemma local: "span_ok b s \<Longrightarrow> dec (b @ c) s pi = dec b s pi"
  using returns [of b s pi] ext_leD [OF grow] by metis

end

section \<open>Transport layer\<close>

definition l4_statuses :: "decode_status set" where
  "l4_statuses = {DEC_OK, DEC_TRUNC_TCP, DEC_TRUNC_UDP, DEC_TRUNC_ICMP, DEC_BAD_L4_LEN,
     DEC_BAD_TCP_DOFF, DEC_BAD_UDP_LEN}"

definition l4_frame :: "packet_info \<Rightarrow> packet_info" where
  "l4_frame pi = pi\<lparr>pi_has_l4 := False, pi_src_port := 0, pi_dst_port := 0, pi_tcp_flags := 0,
     pi_icmp_type := 0, pi_icmp_code := 0\<rparr>"

lemmas layer_defs = layer_post_def l4_statuses_def

lemmas span_arith = need_def span_ok_def span_full_iff word_le_nat_alt word_less_nat_alt

lemma decode_l4_tcp_run:
  "span_ok b s \<Longrightarrow> wp (decode_l4_tcp b s pi) (layer_post l4_statuses l4_frame b s pi)"
  unfolding decode_l4_tcp_def
  by (intro wp_intro) (auto simp: layer_defs l4_frame_def span_arith split: if_splits)

lemma decode_l4_udp_run:
  "span_ok b s \<Longrightarrow> wp (decode_l4_udp b s pi) (layer_post l4_statuses l4_frame b s pi)"
  unfolding decode_l4_udp_def
  by (intro wp_intro)
    (auto simp: layer_defs l4_frame_def span_arith min_def split: if_splits)

lemma decode_l4_icmp_run:
  "span_ok b s \<Longrightarrow> wp (decode_l4_icmp b s pi) (layer_post l4_statuses l4_frame b s pi)"
  unfolding decode_l4_icmp_def
  by (intro wp_intro) (auto simp: layer_defs l4_frame_def span_arith split: if_splits)

lemma decode_l4_run:
  "span_ok b s \<Longrightarrow> wp (decode_l4 b s pi) (layer_post l4_statuses l4_frame b s pi)"
  unfolding decode_l4_def
  by (intro wp_if wpI decode_l4_tcp_run decode_l4_udp_run decode_l4_icmp_run)
    (auto simp: layer_defs)

lemma decode_l4_grow [ext_intro]: "ext_le (decode_l4 b s pi) (decode_l4 (b @ c) s pi)"
  unfolding decode_l4_def decode_l4_tcp_def decode_l4_udp_def decode_l4_icmp_def
  by (intro ext_intro)

interpretation l4: bounded_layer decode_l4 l4_statuses l4_frame
  by unfold_locales (fact decode_l4_run decode_l4_grow)+

section \<open>Network layer\<close>

definition ip_statuses :: "decode_status set" where
  "ip_statuses = l4_statuses \<union> {DEC_TRUNC_IPV4, DEC_TRUNC_IPV6, DEC_TRUNC_IPV6_EXT,
     DEC_BAD_SHORT_FRAME, DEC_BAD_IPV4_VERSION, DEC_BAD_IPV4_IHL, DEC_BAD_IPV4_TOTAL_LEN,
     DEC_BAD_IPV6_VERSION, DEC_BAD_IPV6_PAYLOAD_LEN, DEC_BAD_IPV6_EXT}"

definition ip_frame :: "packet_info \<Rightarrow> packet_info" where
  "ip_frame pi = l4_frame (pi\<lparr>pi_has_l3 := False, pi_ip_version := 0, pi_ip_proto := 0,
     pi_src_addr := [], pi_dst_addr := [], pi_frag := FRAG_NONE, pi_frag_id := 0\<rparr>)"

text \<open>The transport layer called on the span and \<open>packet_info\<close> an IP layer has prepared.\<close>

lemma ip_frame_l4: "l4_frame pi' = l4_frame pi \<Longrightarrow> ip_frame pi' = ip_frame pi"
  by (cases pi; cases pi') (simp add: ip_frame_def l4_frame_def)

lemma l4_in_ip:
  assumes "span_ok b s'" "span_full s \<Longrightarrow> span_full s'" "ip_frame pi' = ip_frame pi"
  shows "wp (decode_l4 b s' pi') (layer_post ip_statuses ip_frame b s pi)"
  using assms decode_l4_run [of b s' pi']
  by (auto elim!: wp_mono simp: layer_post_def ip_statuses_def dest: ip_frame_l4)

lemma decode_ipv4_run:
  "span_ok b s \<Longrightarrow> wp (decode_ipv4 b s pi) (layer_post ip_statuses ip_frame b s pi)"
  unfolding decode_ipv4_def
  by (intro wp_intro l4_in_ip span_ok_advance span_ok_clip span_full_advance span_full_clip)
    (auto simp: layer_defs ip_statuses_def ip_frame_def l4_frame_def span_arith unat_sub min_def
      split: if_splits)

text \<open>A layer that goes on from a later span with a changed \<open>packet_info\<close>.\<close>

lemma layer_post_from:
  assumes "wp m (layer_post sts frame b s' pi')"
    and "span_full s \<Longrightarrow> span_full s'" "frame pi' = frame pi"
  shows "wp m (layer_post sts frame b s pi)"
  using assms by (auto elim!: wp_mono simp: layer_post_def)

lemma ipv6_chain_run:
  "span_ok b s \<Longrightarrow> wp (ipv6_chain b hops nxt s pi) (layer_post ip_statuses ip_frame b s pi)"
proof (induction hops arbitrary: nxt s pi rule: counter_induct [where m = IPV6_MAX_EXT_HEADERS])
  case (1 hops)
  note IH = layer_post_from [OF "1.IH"]
  from "1.prems" show ?case
    by (subst ipv6_chain.simps, intro wp_intro l4_in_ip IH span_ok_advance span_full_advance)
      (auto simp: layer_defs ip_statuses_def ip_frame_def l4_frame_def span_arith unat_sub
        split: if_splits)
qed

lemma decode_ipv6_run:
  "span_ok b s \<Longrightarrow> wp (decode_ipv6 b s pi) (layer_post ip_statuses ip_frame b s pi)"
  unfolding decode_ipv6_def
  by (intro wp_intro layer_post_from [OF ipv6_chain_run] span_ok_advance span_ok_clip
      span_full_advance span_full_clip)
    (auto simp: layer_defs ip_statuses_def ip_frame_def l4_frame_def span_arith unat_sub
      split: if_splits)

lemma decode_ipv4_grow [ext_intro]: "ext_le (decode_ipv4 b s pi) (decode_ipv4 (b @ c) s pi)"
  unfolding decode_ipv4_def by (intro ext_intro)

lemma ipv6_chain_grow [ext_intro]:
  "ext_le (ipv6_chain b hops nxt s pi) (ipv6_chain (b @ c) hops nxt s pi)"
proof (induction hops arbitrary: nxt s pi rule: counter_induct [where m = IPV6_MAX_EXT_HEADERS])
  case (1 hops)
  show ?case
    unfolding ipv6_chain.simps [of _ hops] by (intro ext_intro "1.IH")
qed

lemma decode_ipv6_grow [ext_intro]: "ext_le (decode_ipv6 b s pi) (decode_ipv6 (b @ c) s pi)"
  unfolding decode_ipv6_def by (intro ext_intro)

interpretation ip4: bounded_layer decode_ipv4 ip_statuses ip_frame
  by unfold_locales (fact decode_ipv4_run decode_ipv4_grow)+

interpretation ip6: bounded_layer decode_ipv6 ip_statuses ip_frame
  by unfold_locales (fact decode_ipv6_run decode_ipv6_grow)+

section \<open>GTP-U\<close>

definition gtp_header_problems :: "decode_status set" where
  "gtp_header_problems = {DEC_TRUNC_GTPU, DEC_TRUNC_GTPU_EXT, DEC_BAD_GTPU_LEN,
     DEC_BAD_GTPU_EXT_LEN, DEC_BAD_GTPU_EXT}"

definition gtp_user_statuses :: "decode_status set" where
  "gtp_user_statuses = (ip_statuses - {DEC_BAD_SHORT_FRAME}) \<union>
     {DEC_TRUNC_GTPU_INNER, DEC_BAD_GTPU_INNER, DEC_BAD_GTPU_INNER_SHORT}"

text \<open>A \<open>packet_info\<close> without the members the GTP-U decoder writes.\<close>

definition gtp_frame :: "packet_info \<Rightarrow> packet_info" where
  "gtp_frame pi = pi\<lparr>pi_gtp_v1u := False,
     pi_gtp_flags := 0, pi_gtp_msg_type := 0, pi_gtp_msg_ok := False, pi_gtp_seq := 0,
     pi_teid := 0, pi_gtp_ext_count := 0, pi_has_inner := False, pi_inner_has_l4 := False,
     pi_gtp_nested := False, pi_inner_version := 0, pi_inner_proto := 0, pi_inner_src := [],
     pi_inner_dst := [], pi_inner_src_port := 0, pi_inner_dst_port := 0\<rparr>"

lemmas gtp_defs = layer_post_def gtp_header_problems_def gtp_user_statuses_def gtp_frame_def

lemma gtp_frame_copy_inner [simp]: "gtp_frame (copy_inner inn pi) = gtp_frame pi"
  by (simp add: copy_inner_def gtp_frame_def Let_def)

lemma user_packet_run:
  assumes "span_ok b s" "wp m (layer_post ip_statuses ip_frame b s packet_info0)"
  shows "wp (Option.bind m (\<lambda>(st, s, inn).
           Some (if st = DEC_BAD_SHORT_FRAME then DEC_BAD_GTPU_INNER_SHORT else st, s, copy_inner inn pi)))
         (layer_post gtp_user_statuses gtp_frame b s pi)"
  by (rule wp_bind, rule wp_mono [OF assms(2)])
    (auto intro!: wpI simp: layer_post_def gtp_user_statuses_def split: if_splits)

lemma decode_gtpu_inner_run:
  "span_ok b s \<Longrightarrow> wp (decode_gtpu_inner b s pi) (layer_post gtp_user_statuses gtp_frame b s pi)"
  unfolding decode_gtpu_inner_def
  by (intro wp_let wp_if wpI wp_bind [where m = "rd8 _ _"] wp_rd8 user_packet_run ip4.run ip6.run)
    (auto simp: gtp_defs ip_statuses_def span_arith l4_statuses_def split: if_splits)

lemma gtpu_chain_run:
  "span_ok b s \<Longrightarrow>
   wp (gtpu_chain b hops nxt s pi) (layer_post (insert DEC_OK gtp_header_problems) gtp_frame b s pi)"
proof (induction hops arbitrary: nxt s pi rule: counter_induct [where m = GTPU_MAX_EXT_HEADERS])
  case (1 hops)
  note IH = layer_post_from [OF "1.IH"]
  from "1.prems" show ?case
    by (subst gtpu_chain.simps, intro wp_intro IH span_ok_advance span_full_advance)
      (auto simp: gtp_defs span_arith unat_sub dest: unat_pred split: if_splits)
qed

text \<open>The optional fields, without the type of the first extension header.\<close>

definition options_post where
  "options_post b s pi = (\<lambda>(st, nxt :: cuint, s', pi').
     layer_post {DEC_OK, DEC_TRUNC_GTPU, DEC_BAD_GTPU_LEN} gtp_frame b s pi (st, s', pi'))"

lemma gtpu_options_run:
  "span_ok b s \<Longrightarrow> wp (gtpu_options b flags s pi) (options_post b s pi)"
  unfolding gtpu_options_def
  by (intro wp_intro) (auto simp: options_post_def gtp_defs span_arith unat_sub split: if_splits)

text \<open>Sequencing: a step that ends the decoding unless it reports \<open>DEC_OK\<close>.\<close>

lemma layer_seq:
  assumes first: "wp m (layer_post A frame b s pi)"
    and rest: "\<And>s' pi'. layer_post A frame b s pi (DEC_OK, s', pi') \<Longrightarrow>
      wp (f s' pi') (layer_post B frame b s pi)"
    and "A \<subseteq> insert DEC_OK B"
  shows "wp (Option.bind m (\<lambda>(st, s', pi'). if st \<noteq> DEC_OK then Some (st, s', pi') else f s' pi'))
    (layer_post B frame b s pi)"
proof (rule wp_bind, rule wp_mono [OF first], clarify)
  fix st s' pi' assume "layer_post A frame b s pi (st, s', pi')"
  then show "wp (if st \<noteq> DEC_OK then Some (st, s', pi') else f s' pi') (layer_post B frame b s pi)"
    using rest [of s' pi'] \<open>A \<subseteq> insert DEC_OK B\<close>
    by (cases "st = DEC_OK") (auto simp: wp_def layer_post_def)
qed

lemma options_seq:
  assumes first: "wp m (options_post b s pi)"
    and rest: "\<And>nxt s' pi'. options_post b s pi (DEC_OK, nxt, s', pi') \<Longrightarrow>
      wp (f nxt s' pi') (layer_post B gtp_frame b s pi)"
    and "{DEC_TRUNC_GTPU, DEC_BAD_GTPU_LEN} \<subseteq> B"
  shows "wp (Option.bind m (\<lambda>(st, nxt, s', pi'). if st \<noteq> DEC_OK then Some (st, s', pi') else f nxt s' pi'))
    (layer_post B gtp_frame b s pi)"
proof (rule wp_bind, rule wp_mono [OF first], clarify)
  fix st nxt s' pi' assume "options_post b s pi (st, nxt, s', pi')"
  then show "wp (if st \<noteq> DEC_OK then Some (st, s', pi') else f nxt s' pi') (layer_post B gtp_frame b s pi)"
    using rest [of nxt s' pi'] \<open>{DEC_TRUNC_GTPU, DEC_BAD_GTPU_LEN} \<subseteq> B\<close>
    by (cases "st = DEC_OK") (auto simp: wp_def options_post_def layer_post_def)
qed

text \<open>After the extension headers: the user packet of a G-PDU, or nothing more.\<close>

lemma gtp_finish_run:
  assumes "span_ok b s"
  shows "wp (let pi' = pi\<lparr>pi_gtp_msg_ok := True\<rparr> in
      if pi_gtp_msg_type pi' \<noteq> GTPU_MSG_GPDU then Some (DEC_OK, s, pi') else decode_gtpu_inner b s pi')
    (layer_post (gtp_user_statuses \<union> gtp_header_problems) gtp_frame b s pi)"
  using assms decode_gtpu_inner_run [OF assms, of "pi\<lparr>pi_gtp_msg_ok := True\<rparr>"]
  by (intro wp_let wp_if wpI)
    (auto elim!: wp_mono simp: gtp_defs ip_statuses_def l4_statuses_def)

lemma decode_gtpu_body_run:
  assumes "span_ok b s"
  shows "wp (decode_gtpu_body b flags s pi)
    (layer_post (gtp_user_statuses \<union> gtp_header_problems) gtp_frame b s pi)"
  unfolding decode_gtpu_body_def
proof (rule options_seq [OF gtpu_options_run [OF assms]], rule layer_post_from [OF layer_seq])
  fix nxt s1 pi1 assume o: "options_post b s pi (DEC_OK, nxt, s1, pi1)"
  then have "span_ok b s1" by (simp add: options_post_def layer_post_def)
  then show "wp (gtpu_chain b 0 nxt s1 pi1) (layer_post (insert DEC_OK gtp_header_problems) gtp_frame b s1 pi1)"
    by (rule gtpu_chain_run)
  show "span_full s \<Longrightarrow> span_full s1" "gtp_frame pi1 = gtp_frame pi"
    using o by (auto simp: options_post_def layer_post_def)
next
  fix nxt s1 pi1 s2 pi2
  assume c: "layer_post (insert DEC_OK gtp_header_problems) gtp_frame b s1 pi1 (DEC_OK, s2, pi2)"
  then have "span_ok b s2" by (simp add: layer_post_def)
  from gtp_finish_run [OF this] show
    "wp (let pi' = pi2\<lparr>pi_gtp_msg_ok := True\<rparr> in
      if pi_gtp_msg_type pi' \<noteq> GTPU_MSG_GPDU then Some (DEC_OK, s2, pi') else decode_gtpu_inner b s2 pi')
     (layer_post (gtp_user_statuses \<union> gtp_header_problems) gtp_frame b s1 pi1)"
    by (rule layer_post_from) (use c in \<open>auto simp: layer_post_def\<close>)
qed (auto simp: gtp_header_problems_def)

lemma decode_gtpu_run:
  "span_ok b s \<Longrightarrow>
   wp (decode_gtpu b s pi) (layer_post (gtp_user_statuses \<union> gtp_header_problems) gtp_frame b s pi)"
  unfolding decode_gtpu_def
  by (intro wp_intro layer_post_from [OF decode_gtpu_body_run] span_ok_advance span_ok_clip
      span_full_advance span_full_clip)
    (auto simp: gtp_defs span_arith ip_statuses_def l4_statuses_def unat_sub split: if_splits)

lemma decode_gtpu_inner_grow [ext_intro]:
  "ext_le (decode_gtpu_inner b s pi) (decode_gtpu_inner (b @ c) s pi)"
  unfolding decode_gtpu_inner_def by (intro ext_intro)

lemma gtpu_chain_grow [ext_intro]:
  "ext_le (gtpu_chain b hops nxt s pi) (gtpu_chain (b @ c) hops nxt s pi)"
proof (induction hops arbitrary: nxt s pi rule: counter_induct [where m = GTPU_MAX_EXT_HEADERS])
  case (1 hops)
  show ?case
    unfolding gtpu_chain.simps [of _ hops] by (intro ext_intro "1.IH")
qed

lemma ext_le_map_option [ext_intro]: "ext_le m m' \<Longrightarrow> ext_le (map_option f m) (map_option f m')"
  by (auto simp: ext_le_def)

lemma decode_gtpu_grow [ext_intro]: "ext_le (decode_gtpu b s pi) (decode_gtpu (b @ c) s pi)"
  unfolding decode_gtpu_def decode_gtpu_body_def gtpu_options_def by (intro ext_intro)

interpretation user: bounded_layer decode_gtpu_inner gtp_user_statuses gtp_frame
  by unfold_locales (fact decode_gtpu_inner_run decode_gtpu_inner_grow)+

interpretation gtp: bounded_layer decode_gtpu "gtp_user_statuses \<union> gtp_header_problems" gtp_frame
  by unfold_locales (fact decode_gtpu_run decode_gtpu_grow)+

end
