(* ===== verification/Decode_Frame.thy ===== *)
theory Decode_Frame
  imports Decode_Safety
begin

text \<open>
  What a decoded \<open>packet_info\<close> says: the relations between its members that the rest of the
  program relies on, first for the IP layers, then for GTP-U, then for a whole frame. They
  are the checks of the fuzzer (\<open>check_invariants\<close> of \<open>fuzz_decode.c\<close>), proved for every
  frame.
\<close>

section \<open>IP layers\<close>

text \<open>A \<open>packet_info\<close> no IP layer has written to yet.\<close>

definition ip_fresh :: "packet_info \<Rightarrow> bool" where
  "ip_fresh pi \<longleftrightarrow> \<not> pi_has_l3 pi \<and> \<not> pi_has_l4 pi \<and> pi_frag pi = FRAG_NONE \<and> pi_ip_proto pi = 0 \<and>
     pi_src_port pi = 0 \<and> pi_dst_port pi = 0 \<and>
     length (pi_src_addr pi) = 16 \<and> length (pi_dst_addr pi) = 16"

definition ip_info :: "decode_status \<times> span \<times> packet_info \<Rightarrow> bool" where
  "ip_info = (\<lambda>(st, s, pi).
     (pi_has_l4 pi \<longrightarrow> pi_has_l3 pi) \<and>
     (pi_has_l3 pi \<longrightarrow> pi_ip_version pi = 4 \<or> pi_ip_version pi = 6) \<and>
     (st = DEC_OK \<or> st = DEC_TRUNC_IPV6_EXT \<or> st = DEC_BAD_IPV6_EXT \<longrightarrow> pi_has_l3 pi) \<and>
     (pi_frag pi = FRAG_LATER \<longrightarrow> \<not> pi_has_l4 pi \<and> pi_src_port pi = 0 \<and> pi_dst_port pi = 0) \<and>
     (pi_has_l4 pi \<and> pi_ip_proto pi = IPPROTO_NUM_UDP \<longrightarrow> UDP_HDR_LEN \<le> sp_cap s) \<and>
     length (pi_src_addr pi) = 16 \<and> length (pi_dst_addr pi) = 16)"

lemma ip_fresh0 [simp]: "ip_fresh packet_info0"
  by (simp add: ip_fresh_def packet_info0_def)

text \<open>The transport layer keeps what the IP layer has established.\<close>

definition l3_done :: "packet_info \<Rightarrow> bool" where
  "l3_done pi \<longleftrightarrow> pi_has_l3 pi \<and> \<not> pi_has_l4 pi \<and> (pi_ip_version pi = 4 \<or> pi_ip_version pi = 6) \<and>
     pi_frag pi \<noteq> FRAG_LATER \<and> length (pi_src_addr pi) = 16 \<and> length (pi_dst_addr pi) = 16"

lemma decode_l4_info:
  assumes "span_ok b s" "l3_done pi"
  shows "wp (decode_l4 b s pi) ip_info"
  using assms unfolding decode_l4_def decode_l4_tcp_def decode_l4_udp_def decode_l4_icmp_def
  by (intro wp_intro)
    (auto simp: l3_done_def ip_info_def span_arith min_def split: if_splits)

lemma decode_ipv4_info:
  assumes "span_ok b s" "ip_fresh pi"
  shows "wp (decode_ipv4 b s pi) ip_info"
  using assms unfolding decode_ipv4_def
  by (intro wp_intro decode_l4_info span_ok_advance span_ok_clip)
    (auto simp: l3_done_def ip_fresh_def ip_info_def span_arith min_def split: if_splits)

lemma ipv6_chain_info:
  assumes "span_ok b s" "l3_done pi" "pi_src_port pi = 0" "pi_dst_port pi = 0"
  shows "wp (ipv6_chain b hops nxt s pi) ip_info"
  using assms
proof (induction hops arbitrary: nxt s pi rule: counter_induct [where m = IPV6_MAX_EXT_HEADERS])
  case (1 hops)
  from "1.prems" show ?case
    by (subst ipv6_chain.simps, intro wp_intro decode_l4_info "1.IH" span_ok_advance)
      (auto simp: l3_done_def ip_info_def span_arith split: if_splits)
qed

lemma decode_ipv6_info:
  assumes "span_ok b s" "ip_fresh pi"
  shows "wp (decode_ipv6 b s pi) ip_info"
  using assms unfolding decode_ipv6_def
  by (intro wp_intro ipv6_chain_info span_ok_advance span_ok_clip)
    (auto simp: l3_done_def ip_fresh_def ip_info_def span_arith min_def split: if_splits)

section \<open>GTP-U\<close>

text \<open>A \<open>packet_info\<close> whose GTP-U members are still as \<open>memset\<close> left them.\<close>

definition gtp_fresh :: "packet_info \<Rightarrow> bool" where
  "gtp_fresh pi \<longleftrightarrow> \<not> pi_gtp_v1u pi \<and> \<not> pi_gtp_msg_ok pi \<and> \<not> pi_has_inner pi \<and> \<not> pi_inner_has_l4 pi \<and>
     \<not> pi_gtp_nested pi \<and> pi_gtp_ext_count pi = 0 \<and>
     length (pi_inner_src pi) = 16 \<and> length (pi_inner_dst pi) = 16"

definition gtp_info :: "decode_status \<Rightarrow> packet_info \<Rightarrow> bool" where
  "gtp_info st pi \<longleftrightarrow>
     (pi_gtp_msg_ok pi \<longrightarrow> pi_gtp_v1u pi) \<and>
     (pi_gtp_v1u pi \<longrightarrow> pi_gtp_msg_ok pi = (st \<notin> gtp_header_problems)) \<and>
     (pi_gtp_msg_ok pi \<and> pi_gtp_msg_type pi \<noteq> GTPU_MSG_GPDU \<longrightarrow> st = DEC_OK) \<and>
     (pi_has_inner pi \<longrightarrow> pi_gtp_msg_ok pi \<and> pi_gtp_msg_type pi = GTPU_MSG_GPDU \<and>
        (pi_inner_version pi = 4 \<or> pi_inner_version pi = 6)) \<and>
     (pi_inner_has_l4 pi \<longrightarrow> pi_has_inner pi) \<and>
     (pi_gtp_nested pi \<longrightarrow> pi_inner_has_l4 pi \<and> pi_inner_proto pi = IPPROTO_NUM_UDP \<and>
        (pi_inner_src_port pi = GTPU_PORT \<or> pi_inner_dst_port pi = GTPU_PORT)) \<and>
     unat (pi_gtp_ext_count pi) \<le> unat GTPU_MAX_EXT_HEADERS \<and>
     (pi_gtp_v1u pi \<and> st = DEC_OK \<and> pi_gtp_msg_type pi = GTPU_MSG_GPDU \<longrightarrow> pi_has_inner pi) \<and>
     (st = DEC_TRUNC_IPV6_EXT \<or> st = DEC_BAD_IPV6_EXT \<longrightarrow> pi_has_inner pi) \<and>
     length (pi_inner_src pi) = 16 \<and> length (pi_inner_dst pi) = 16"

text \<open>Before the user packet: the header members may be set, the inner ones are not.\<close>

definition gtp_headers :: "packet_info \<Rightarrow> bool" where
  "gtp_headers pi \<longleftrightarrow> pi_gtp_v1u pi \<and> \<not> pi_has_inner pi \<and> \<not> pi_inner_has_l4 pi \<and> \<not> pi_gtp_nested pi \<and>
     unat (pi_gtp_ext_count pi) \<le> unat GTPU_MAX_EXT_HEADERS \<and>
     length (pi_inner_src pi) = 16 \<and> length (pi_inner_dst pi) = 16"

definition user_info :: "decode_status \<times> span \<times> packet_info \<Rightarrow> bool" where
  "user_info = (\<lambda>(st, s, pi). gtp_info st pi)"

lemma user_statuses_not_header: "st \<in> gtp_user_statuses \<Longrightarrow> st \<notin> gtp_header_problems"
  by (auto simp: gtp_user_statuses_def gtp_header_problems_def ip_statuses_def l4_statuses_def)

lemma copy_inner_info:
  assumes "gtp_headers pi" "pi_gtp_msg_ok pi" "pi_gtp_msg_type pi = GTPU_MSG_GPDU"
    and "ip_info (st, s, inn)" "st' \<in> gtp_user_statuses"
      "st' \<in> {DEC_OK, DEC_TRUNC_IPV6_EXT, DEC_BAD_IPV6_EXT} \<Longrightarrow> pi_has_l3 inn"
  shows "gtp_info st' (copy_inner inn pi)"
  using assms user_statuses_not_header [of st']
  by (auto simp: gtp_info_def gtp_headers_def ip_info_def copy_inner_def decode_is_gtpu_port_def)

lemma user_packet_info:
  assumes "gtp_headers pi" "pi_gtp_msg_ok pi" "pi_gtp_msg_type pi = GTPU_MSG_GPDU"
    and "wp m ip_info" "wp m (layer_post ip_statuses ip_frame b s packet_info0)"
  shows "wp (Option.bind m (\<lambda>(st, s, inn).
           Some (if st = DEC_BAD_SHORT_FRAME then DEC_BAD_GTPU_INNER_SHORT else st, s, copy_inner inn pi)))
         user_info"
proof (rule wp_bind, rule wp_mono [OF wp_conj [OF assms(4,5)]], clarify, rule wpI)
  fix st s' inn
  assume "ip_info (st, s', inn)" "layer_post ip_statuses ip_frame b s packet_info0 (st, s', inn)"
  then show "user_info (if st = DEC_BAD_SHORT_FRAME then DEC_BAD_GTPU_INNER_SHORT else st, s', copy_inner inn pi)"
    unfolding user_info_def prod.case
    by (intro copy_inner_info [OF assms(1-3), of st s' inn])
      (auto simp: layer_post_def gtp_user_statuses_def ip_info_def split: if_splits)
qed

lemma decode_gtpu_inner_info:
  assumes "span_ok b s" "gtp_headers pi" "pi_gtp_msg_ok pi" "pi_gtp_msg_type pi = GTPU_MSG_GPDU"
  shows "wp (decode_gtpu_inner b s pi) user_info"
proof -
  have inner: "wp (Option.bind (if v = 4 then decode_ipv4 b s packet_info0 else decode_ipv6 b s packet_info0)
      (\<lambda>(st, s, inn). Some (if st = DEC_BAD_SHORT_FRAME then DEC_BAD_GTPU_INNER_SHORT else st, s,
         copy_inner inn pi))) user_info" for v :: u8
    using assms(1)
    by (intro user_packet_info [OF assms(2-4)])
      (auto intro: decode_ipv4_info decode_ipv6_info ip4.run ip6.run)
  show ?thesis
    unfolding decode_gtpu_inner_def
    using assms
    by (intro wp_let wp_if wpI wp_bind [where m = "rd8 _ _"] wp_rd8 inner)
      (auto simp: user_info_def gtp_info_def gtp_headers_def gtp_header_problems_def span_arith
        split: if_splits)
qed

lemma gtpu_chain_info:
  assumes "span_ok b s" "gtp_headers pi" "pi_gtp_msg_ok pi = m" "pi_gtp_msg_type pi = ty"
    and "unat hops \<le> unat GTPU_MAX_EXT_HEADERS"
  shows "wp (gtpu_chain b hops nxt s pi) (\<lambda>(st, s', pi').
    gtp_headers pi' \<and> pi_gtp_msg_ok pi' = m \<and> pi_gtp_msg_type pi' = ty)"
  using assms
proof (induction hops arbitrary: nxt s pi rule: counter_induct [where m = GTPU_MAX_EXT_HEADERS])
  case (1 hops)
  have bound: "unat (hops + 1) \<le> 16 \<and> unat (ucast (hops + 1) :: u8) \<le> 16" if "hops \<noteq> 16"
    using that "1.prems"
    by (auto simp: word_unat_eq_iff unat_word_ariths unsigned_ucast_eq take_bit_eq_mod)
  from "1.prems" show ?case
    by (subst gtpu_chain.simps, intro wp_intro "1.IH" span_ok_advance)
      (auto simp: gtp_headers_def span_arith bound dest: unat_pred split: if_splits)
qed

lemma gtpu_options_info:
  assumes "span_ok b s" "gtp_headers pi" "\<not> pi_gtp_msg_ok pi"
  shows "wp (gtpu_options b flags s pi) (\<lambda>(st, nxt, s', pi').
    gtp_headers pi' \<and> \<not> pi_gtp_msg_ok pi' \<and> pi_gtp_msg_type pi' = pi_gtp_msg_type pi)"
  using assms unfolding gtpu_options_def
  by (intro wp_intro) (auto simp: gtp_headers_def span_arith split: if_splits)

lemma headers_problem_info:
  "gtp_headers pi \<Longrightarrow> \<not> pi_gtp_msg_ok pi \<Longrightarrow> st \<in> gtp_header_problems \<Longrightarrow> gtp_info st pi"
  by (auto simp: gtp_headers_def gtp_info_def gtp_header_problems_def)

lemma decode_gtpu_body_info:
  assumes "span_ok b s" "gtp_headers pi" "\<not> pi_gtp_msg_ok pi"
  shows "wp (decode_gtpu_body b flags s pi) user_info"
  unfolding decode_gtpu_body_def
proof (rule wp_bind, rule wp_mono [OF wp_conj [OF gtpu_options_info [OF assms] gtpu_options_run [OF assms(1)]]],
    clarify, intro wp_if wpI wp_bind)
  fix st nxt s1 pi1
  assume h1: "gtp_headers pi1" "\<not> pi_gtp_msg_ok pi1" and o: "options_post b s pi (st, nxt, s1, pi1)"
  then have ok1: "span_ok b s1" by (simp add: options_post_def layer_post_def)
  show "user_info (st, s1, pi1)" if "st \<noteq> DEC_OK"
    using that h1 o by (auto simp: user_info_def options_post_def layer_post_def gtp_header_problems_def
      intro!: headers_problem_info)
  have "wp (gtpu_chain b 0 nxt s1 pi1) (\<lambda>(st, s', pi').
      gtp_headers pi' \<and> pi_gtp_msg_ok pi' = False \<and> pi_gtp_msg_type pi' = pi_gtp_msg_type pi1)"
    using h1 by (intro gtpu_chain_info ok1) auto
  note chain = wp_conj [OF this gtpu_chain_run [OF ok1]]
  show "wp (gtpu_chain b 0 nxt s1 pi1) (\<lambda>r. wp (case r of (st, s, pi) \<Rightarrow>
      if st \<noteq> DEC_OK then Some (st, s, pi) else
      let pi' = pi\<lparr>pi_gtp_msg_ok := True\<rparr> in
      if pi_gtp_msg_type pi' \<noteq> GTPU_MSG_GPDU then Some (DEC_OK, s, pi') else decode_gtpu_inner b s pi') user_info)"
  proof (rule wp_mono [OF chain], clarify, intro wp_if wp_let wpI)
    fix st s2 pi2
    assume h2: "gtp_headers pi2" "pi_gtp_msg_ok pi2 = False"
      and c: "layer_post (insert DEC_OK gtp_header_problems) gtp_frame b s1 pi1 (st, s2, pi2)"
    then have ok2: "span_ok b s2" by (simp add: layer_post_def)
    show "user_info (st, s2, pi2)" if "st \<noteq> DEC_OK"
      using that h2 c by (auto simp: user_info_def layer_post_def intro!: headers_problem_info)
    show "user_info (DEC_OK, s2, pi2\<lparr>pi_gtp_msg_ok := True\<rparr>)"
      if "pi_gtp_msg_type (pi2\<lparr>pi_gtp_msg_ok := True\<rparr>) \<noteq> GTPU_MSG_GPDU"
      using that h2 by (simp add: user_info_def gtp_info_def gtp_headers_def gtp_header_problems_def)
    show "wp (decode_gtpu_inner b s2 (pi2\<lparr>pi_gtp_msg_ok := True\<rparr>)) user_info"
      if "\<not> pi_gtp_msg_type (pi2\<lparr>pi_gtp_msg_ok := True\<rparr>) \<noteq> GTPU_MSG_GPDU"
      using that h2 ok2 by (intro decode_gtpu_inner_info) (auto simp: gtp_headers_def)
  qed
qed

lemma decode_gtpu_info:
  assumes "span_ok b s" "gtp_fresh pi"
  shows "wp (decode_gtpu b s pi) user_info"
  using assms unfolding decode_gtpu_def
  by (intro wp_intro decode_gtpu_body_info span_ok_advance span_ok_clip)
    (auto simp: user_info_def gtp_info_def gtp_headers_def gtp_fresh_def gtp_header_problems_def span_arith split: if_splits)

section \<open>Ethernet\<close>

text \<open>The members the VLAN loop may write are reset; the rest stays.\<close>

definition vlan_frame :: "packet_info \<Rightarrow> packet_info" where
  "vlan_frame pi = pi\<lparr>pi_status := DEC_OK, pi_vlan_count := 0, pi_vlan_ids := []\<rparr>"

definition vlan_post :: "u8 list \<Rightarrow> span \<Rightarrow> packet_info \<Rightarrow> cuint option \<times> span \<times> packet_info \<Rightarrow> bool" where
  "vlan_post b s pi = (\<lambda>(tyo, s', pi').
     span_ok b s' \<and> (span_full s \<longrightarrow> span_full s' \<and> \<not> is_trunc (pi_status pi')) \<and>
     vlan_frame pi' = vlan_frame pi \<and>
     length (pi_vlan_ids pi') = 2 \<and> unat (pi_vlan_count pi') \<le> 2 \<and>
     (tyo = None \<longrightarrow> pi_status pi' \<in> {DEC_TRUNC_VLAN, DEC_BAD_SHORT_FRAME, DEC_BAD_VLAN_DEPTH}) \<and>
     (tyo \<noteq> None \<longrightarrow> pi_status pi' = DEC_OK))"

lemma vlan_post_from:
  assumes "wp m (vlan_post b s' pi')" "span_full s \<Longrightarrow> span_full s'" "vlan_frame pi' = vlan_frame pi"
  shows "wp m (vlan_post b s pi)"
  using assms by (auto elim!: wp_mono simp: vlan_post_def)

lemma vlan_tags_run:
  assumes "span_ok b s" "pi_status pi = DEC_OK" "length (pi_vlan_ids pi) = 2"
    "unat (pi_vlan_count pi) \<le> 2"
  shows "wp (vlan_tags b ty s pi) (vlan_post b s pi)"
  using assms
proof (induction "pi_vlan_count pi" arbitrary: ty s pi rule: counter_induct [where m = DECODE_MAX_VLANS])
  case 1
  note IH = vlan_post_from [OF "1.hyps"]
  have bound: "unat (pi_vlan_count pi + 1) \<le> 2 \<and> unat (pi_vlan_count pi) < 2" if "pi_vlan_count pi \<noteq> 2"
    using that "1.prems" by (auto simp: word_unat_eq_iff unat_word_ariths)
  from "1.prems" show ?case
    by (subst vlan_tags.simps, intro wp_intro IH span_ok_advance span_full_advance)
      (auto simp: vlan_post_def vlan_frame_def span_arith bound split: if_splits)
qed

lemma decode_network_run:
  "span_ok b s \<Longrightarrow> wp (decode_network b ty s pi) (layer_post ip_statuses ip_frame b s pi)"
  unfolding decode_network_def
  by (intro wp_if wpI ip4.run ip6.run) (auto simp: layer_post_def ip_statuses_def l4_statuses_def)

lemma decode_network_info:
  assumes "span_ok b s" "ip_fresh pi"
  shows "wp (decode_network b ty s pi) (\<lambda>r. (ty = ETHERTYPE_IPV4 \<or> ty = ETHERTYPE_IPV6 \<longrightarrow> ip_info r) \<and>
    (ty \<noteq> ETHERTYPE_IPV4 \<and> ty \<noteq> ETHERTYPE_IPV6 \<longrightarrow> r = (DEC_OK, s, pi)))"
  using assms decode_ipv4_info [OF assms] decode_ipv6_info [OF assms]
  unfolding decode_network_def by (intro wp_if wpI) (auto elim: wp_mono)

lemma decode_network_grow [ext_intro]:
  "ext_le (decode_network b ty s pi) (decode_network (b @ c) ty s pi)"
  unfolding decode_network_def by (intro ext_intro)

interpretation net: bounded_layer "\<lambda>b. decode_network b ty" ip_statuses ip_frame for ty
  by unfold_locales (fact decode_network_run decode_network_grow)+

lemma vlan_tags_grow [ext_intro]: "ext_le (vlan_tags b ty s pi) (vlan_tags (b @ c) ty s pi)"
proof (induction "pi_vlan_count pi" arbitrary: ty s pi rule: counter_induct [where m = DECODE_MAX_VLANS])
  case 1
  show ?case
    unfolding vlan_tags.simps [of _ ty s pi] Let_def by (intro ext_intro "1.hyps") auto
qed

section \<open>Whole frames\<close>

lemma ext_le_case_option [ext_intro]:
  "ext_le n n' \<Longrightarrow> (\<And>x. ext_le (f x) (f' x)) \<Longrightarrow>
   ext_le (case m of None \<Rightarrow> n | Some x \<Rightarrow> f x) (case m of None \<Rightarrow> n' | Some x \<Rightarrow> f' x)"
  by (cases m) auto

lemma decode_frame_grow: "ext_le (decode_frame b cap wire) (decode_frame (b @ c) cap wire)"
  unfolding decode_frame_def decode_payload_def by (intro ext_intro)

text \<open>The buffer holds the captured bytes: what \<open>decode_frame\<close> requires of its caller.\<close>

definition frame_span :: "size_t \<Rightarrow> size_t \<Rightarrow> span" where
  "frame_span cap wire = \<lparr>sp_p = 0, sp_cap = cap, sp_wire = (if wire > cap then wire else cap)\<rparr>"

lemma span_ok_frame: "unat cap \<le> length b \<Longrightarrow> span_ok b (frame_span cap wire)"
  by (auto simp: span_ok_def frame_span_def)

text \<open>What holds of the \<open>packet_info\<close> before the GTP-U step.\<close>

definition outer_info :: "bool \<Rightarrow> decode_status \<times> span \<times> packet_info \<Rightarrow> bool" where
  "outer_info full = (\<lambda>(st, s, pi).
     gtp_fresh pi \<and> \<not> pi_is_gtpu pi \<and> pi_gtp_status pi = DEC_OK \<and> pi_has_l2 pi \<and>
     st \<in> ip_statuses \<and> (full \<longrightarrow> \<not> is_trunc st \<and> span_full s) \<and>
     length (pi_vlan_ids pi) = 2 \<and> unat (pi_vlan_count pi) \<le> 2 \<and>
     (pi_has_l4 pi \<longrightarrow> pi_has_l3 pi) \<and>
     (st = DEC_TRUNC_IPV6_EXT \<or> st = DEC_BAD_IPV6_EXT \<longrightarrow> pi_has_l3 pi) \<and>
     (pi_has_l3 pi \<longrightarrow> pi_ip_version pi = 4 \<or> pi_ip_version pi = 6) \<and>
     (pi_frag pi = FRAG_LATER \<longrightarrow> \<not> pi_has_l4 pi \<and> pi_src_port pi = 0 \<and> pi_dst_port pi = 0) \<and>
     (pi_has_l4 pi \<and> pi_ip_proto pi = IPPROTO_NUM_UDP \<longrightarrow> UDP_HDR_LEN \<le> sp_cap s) \<and>
     length (pi_src_addr pi) = 16 \<and> length (pi_dst_addr pi) = 16)"

lemma ip_frame_sels:
  assumes "ip_frame pi' = ip_frame pi"
  shows "pi_has_l2 pi' = pi_has_l2 pi" "pi_vlan_ids pi' = pi_vlan_ids pi"
    "pi_vlan_count pi' = pi_vlan_count pi" "gtp_fresh pi' = gtp_fresh pi"
    "pi_is_gtpu pi' = pi_is_gtpu pi" "pi_gtp_status pi' = pi_gtp_status pi"
    "pi_ethertype pi' = pi_ethertype pi" "pi_status pi' = pi_status pi"
  using assms by (cases pi; cases pi'; simp add: ip_frame_def l4_frame_def gtp_fresh_def)+

lemma network_outer_info:
  assumes "span_ok b s" "full \<Longrightarrow> span_full s" "ip_fresh pi" "gtp_fresh pi" "\<not> pi_is_gtpu pi"
    "pi_gtp_status pi = DEC_OK" "pi_has_l2 pi" "length (pi_vlan_ids pi) = 2" "unat (pi_vlan_count pi) \<le> 2"
  shows "wp (decode_network b ty s pi) (\<lambda>r. span_ok b (fst (snd r)) \<and> outer_info full r)"
  using wp_conj [OF decode_network_run [OF assms(1), of ty pi] decode_network_info [OF assms(1,3), of ty]]
proof (rule wp_mono, goal_cases)
  case (1 r)
  obtain st s' pi' where r: "r = (st, s', pi')" by (cases r)
  have fr: "ip_frame pi' = ip_frame pi" and "st \<in> ip_statuses" "span_ok b s'"
    "full \<longrightarrow> \<not> is_trunc st \<and> span_full s'"
    using 1 r assms(2) by (auto simp: layer_post_def)
  moreover have "ip_info (st, s', pi') \<or> r = (DEC_OK, s, pi)" using 1 r by auto
  ultimately show ?case
    using assms ip_frame_sels [OF fr] r
    by (auto simp: outer_info_def ip_info_def ip_fresh_def)
qed

text \<open>The GTP-U step of \<open>decode_frame\<close>.\<close>

definition frame_info :: "bool \<Rightarrow> packet_info \<Rightarrow> bool" where
  "frame_info full pi \<longleftrightarrow>
     pi_status pi \<noteq> DEC_STATUS_COUNT \<and> pi_gtp_status pi \<noteq> DEC_STATUS_COUNT \<and>
     (full \<longrightarrow> \<not> is_trunc (pi_status pi) \<and> \<not> is_trunc (pi_gtp_status pi)) \<and>
     length (pi_vlan_ids pi) = 2 \<and> unat (pi_vlan_count pi) \<le> 2 \<and>
     (pi_has_l4 pi \<longrightarrow> pi_has_l3 pi) \<and> (pi_has_l3 pi \<longrightarrow> pi_has_l2 pi) \<and>
     (pi_status pi = DEC_OK \<longrightarrow> pi_has_l2 pi) \<and>
     (pi_status pi = DEC_TRUNC_IPV6_EXT \<or> pi_status pi = DEC_BAD_IPV6_EXT \<longrightarrow> pi_has_l3 pi) \<and>
     (pi_has_l3 pi \<longrightarrow> pi_ip_version pi = 4 \<or> pi_ip_version pi = 6) \<and>
     (pi_frag pi = FRAG_LATER \<longrightarrow> \<not> pi_has_l4 pi \<and> pi_src_port pi = 0 \<and> pi_dst_port pi = 0) \<and>
     length (pi_src_addr pi) = 16 \<and> length (pi_dst_addr pi) = 16 \<and>
     (pi_is_gtpu pi \<longrightarrow> pi_status pi = DEC_OK \<and> pi_frag pi = FRAG_NONE \<and> decode_is_gtpu_port pi) \<and>
     (\<not> pi_is_gtpu pi \<longrightarrow> pi_gtp_status pi = DEC_OK \<and> gtp_fresh pi) \<and>
     gtp_info (pi_gtp_status pi) pi"

lemma gtp_fresh_info: "gtp_fresh pi \<Longrightarrow> gtp_info DEC_OK pi"
  by (simp add: gtp_fresh_def gtp_info_def)

lemma gtp_frame_sels:
  assumes "gtp_frame pi' = gtp_frame pi"
  shows "pi_status pi' = pi_status pi" "pi_has_l2 pi' = pi_has_l2 pi" "pi_has_l3 pi' = pi_has_l3 pi"
    "pi_has_l4 pi' = pi_has_l4 pi" "pi_ethertype pi' = pi_ethertype pi"
    "pi_vlan_count pi' = pi_vlan_count pi" "pi_vlan_ids pi' = pi_vlan_ids pi"
    "pi_ip_version pi' = pi_ip_version pi" "pi_ip_proto pi' = pi_ip_proto pi"
    "pi_src_addr pi' = pi_src_addr pi" "pi_dst_addr pi' = pi_dst_addr pi"
    "pi_frag pi' = pi_frag pi" "pi_frag_id pi' = pi_frag_id pi"
    "pi_src_port pi' = pi_src_port pi" "pi_dst_port pi' = pi_dst_port pi"
    "pi_tcp_flags pi' = pi_tcp_flags pi" "pi_is_gtpu pi' = pi_is_gtpu pi"
    "pi_gtp_status pi' = pi_gtp_status pi"
  using assms by (cases pi; cases pi'; simp add: gtp_frame_def)+

text \<open>The whole frame, up to and including the decision to decode GTP-U.\<close>

lemma ip_statuses_count: "st \<in> ip_statuses \<Longrightarrow> st \<noteq> DEC_STATUS_COUNT"
  by (auto simp: ip_statuses_def l4_statuses_def)

lemma gtp_statuses_count: "st \<in> gtp_user_statuses \<union> gtp_header_problems \<Longrightarrow> st \<noteq> DEC_STATUS_COUNT"
  by (auto simp: gtp_user_statuses_def gtp_header_problems_def ip_statuses_def l4_statuses_def)

lemma outer_frame_info:
  "outer_info full (st, s, pi) \<Longrightarrow> frame_info full (pi\<lparr>pi_status := st\<rparr>)"
  by (auto simp: outer_info_def frame_info_def gtp_fresh_def gtp_info_def dest: ip_statuses_count)

lemma gtp_info_status [simp]:
  "gtp_info st (pi\<lparr>pi_gtp_status := x\<rparr>) = gtp_info st pi"
  "gtp_info st (pi\<lparr>pi_status := x'\<rparr>) = gtp_info st pi"
  by (simp_all add: gtp_info_def)

lemma outer_info_status [simp]: "outer_info full (st, s, pi\<lparr>pi_status := x\<rparr>) = outer_info full (st, s, pi)"
  by (simp add: outer_info_def gtp_fresh_def)

lemma gtp_frame_info:
  assumes out: "outer_info full (DEC_OK, s, pi)"
    and "pi_status pi = DEC_OK" "pi_frag pi = FRAG_NONE" "decode_is_gtpu_port pi"
    and post: "layer_post (gtp_user_statuses \<union> gtp_header_problems) gtp_frame b (advance s UDP_HDR_LEN)
      (pi\<lparr>pi_is_gtpu := True\<rparr>) (gst, s', pi')"
    and "user_info (gst, s', pi')"
  shows "frame_info full (pi'\<lparr>pi_gtp_status := gst\<rparr>)"
proof -
  have fr: "gtp_frame pi' = gtp_frame (pi\<lparr>pi_is_gtpu := True\<rparr>)"
    and st: "gst \<in> gtp_user_statuses \<union> gtp_header_problems"
    and "full \<Longrightarrow> \<not> is_trunc gst"
    using post out span_full_advance [of s] by (auto simp: layer_post_def outer_info_def)
  have "gtp_info gst pi'"
    using assms(6) by (simp add: user_info_def)
  then show ?thesis
    using assms(2-4) out gtp_statuses_count [OF st] \<open>full \<Longrightarrow> \<not> is_trunc gst\<close>
    by (simp add: frame_info_def outer_info_def gtp_frame_sels [OF fr] decode_is_gtpu_port_def)
qed

lemma gtp_step_run:
  assumes "span_ok b s" "outer_info full (DEC_OK, s, pi)" "pi_status pi = DEC_OK"
    "pi_frag pi = FRAG_NONE" "decode_is_gtpu_port pi"
  shows "wp (Option.bind (decode_gtpu b (advance s UDP_HDR_LEN) (pi\<lparr>pi_is_gtpu := True\<rparr>))
    (\<lambda>(gst, s, pi). Some (pi\<lparr>pi_gtp_status := gst\<rparr>))) (frame_info full)"
proof -
  have adv: "span_ok b (advance s UDP_HDR_LEN)"
    using assms by (intro span_ok_advance) (auto simp: outer_info_def decode_is_gtpu_port_def)
  have "gtp_fresh (pi\<lparr>pi_is_gtpu := True\<rparr>)"
    using assms by (simp add: outer_info_def gtp_fresh_def)
  from wp_conj [OF decode_gtpu_run [OF adv, of "pi\<lparr>pi_is_gtpu := True\<rparr>"] decode_gtpu_info [OF adv this]]
  show ?thesis
    by (intro wp_bind) (auto elim!: wp_mono intro!: wpI gtp_frame_info [OF assms(2-5)])
qed

lemma decode_payload_run:
  assumes "span_ok b s" "full \<Longrightarrow> span_full s" "ip_fresh pi" "gtp_fresh pi" "\<not> pi_is_gtpu pi"
    "pi_gtp_status pi = DEC_OK" "length (pi_vlan_ids pi) = 2" "unat (pi_vlan_count pi) \<le> 2"
  shows "wp (decode_payload b ty s pi) (frame_info full)"
proof -
  have "wp (decode_network b ty s (pi\<lparr>pi_ethertype := ucast ty, pi_has_l2 := True\<rparr>))
      (\<lambda>r. span_ok b (fst (snd r)) \<and> outer_info full r)"
    using assms by (intro network_outer_info) (auto simp: ip_fresh_def gtp_fresh_def)
  then show ?thesis
    unfolding decode_payload_def
    by (intro wp_bind, elim wp_mono, clarify, intro wp_let wp_if gtp_step_run wpI)
      (auto intro: outer_frame_info)
qed

lemma vlan_frame_sels:
  assumes "vlan_frame pi' = vlan_frame pi"
  shows "ip_fresh pi' = ip_fresh pi" "gtp_fresh pi' = gtp_fresh pi" "pi_is_gtpu pi' = pi_is_gtpu pi"
    "pi_gtp_status pi' = pi_gtp_status pi" "pi_has_l2 pi' = pi_has_l2 pi"
  using assms by (cases pi; cases pi'; simp add: vlan_frame_def ip_fresh_def gtp_fresh_def)+

text \<open>A frame that ends in its Ethernet header or its tags.\<close>

lemma bare_frame_info:
  assumes "ip_fresh pi" "gtp_fresh pi" "\<not> pi_is_gtpu pi" "pi_gtp_status pi = DEC_OK"
    "length (pi_vlan_ids pi) = 2" "unat (pi_vlan_count pi) \<le> 2"
    "pi_status pi \<in> {DEC_TRUNC_ETHERNET, DEC_TRUNC_VLAN, DEC_BAD_SHORT_FRAME, DEC_BAD_VLAN_DEPTH}" "full \<Longrightarrow> \<not> is_trunc (pi_status pi)"
  shows "frame_info full pi"
  using assms gtp_fresh_info [of pi]
  by (auto simp: frame_info_def ip_fresh_def)

lemma packet_info0_fresh [simp]:
  "ip_fresh (packet_info0\<lparr>pi_status := st\<rparr>)" "gtp_fresh (packet_info0\<lparr>pi_status := st\<rparr>)"
  by (simp_all add: packet_info0_def ip_fresh_def gtp_fresh_def)

lemma packet_info0_sels [simp]:
  "\<not> pi_is_gtpu packet_info0" "pi_gtp_status packet_info0 = DEC_OK"
  "length (pi_vlan_ids packet_info0) = 2" "pi_vlan_count packet_info0 = 0"
  by (simp_all add: packet_info0_def)

lemma after_tags_run:
  assumes "vlan_post b s (packet_info0\<lparr>pi_status := DEC_OK\<rparr>) (tyo, s', pi)" "full \<Longrightarrow> span_full s"
  shows "wp (case tyo of None \<Rightarrow> Some pi | Some ty \<Rightarrow> decode_payload b ty s' pi) (frame_info full)"
proof -
  have fr: "vlan_frame pi = vlan_frame (packet_info0\<lparr>pi_status := DEC_OK\<rparr>)"
    using assms(1) unfolding vlan_post_def by simp
  show ?thesis
  proof (cases tyo)
    case None
    have "frame_info full pi"
      by (rule bare_frame_info)
        (use assms None in \<open>auto simp: vlan_post_def vlan_frame_sels [OF fr]\<close>)
    with None show ?thesis by (simp add: wp_def)
  next
    case (Some ty)
    have "wp (decode_payload b ty s' pi) (frame_info full)"
      by (rule decode_payload_run)
        (use assms Some in \<open>auto simp: vlan_post_def vlan_frame_sels [OF fr]\<close>)
    with Some show ?thesis by simp
  qed
qed

lemma decode_frame_unfold:
  "decode_frame b cap wire =
     (let st = need (frame_span cap wire) ETH_HDR_LEN DEC_TRUNC_ETHERNET DEC_BAD_SHORT_FRAME in
      if st \<noteq> DEC_OK then Some (packet_info0\<lparr>pi_status := st\<rparr>)
      else do {
        ty0 \<leftarrow> load_be16 b 12;
        (tyo, s, pi) \<leftarrow> vlan_tags b (ucast ty0) (advance (frame_span cap wire) ETH_HDR_LEN)
          (packet_info0\<lparr>pi_status := DEC_OK\<rparr>);
        case tyo of None \<Rightarrow> Some pi | Some ty \<Rightarrow> decode_payload b ty s pi })"
  by (auto simp: decode_frame_def frame_span_def Let_def)

lemma after_ethernet_run:
  assumes "unat cap \<le> length b" "ETH_HDR_LEN \<le> cap"
  shows "wp (vlan_tags b ty (advance (frame_span cap wire) ETH_HDR_LEN) (packet_info0\<lparr>pi_status := DEC_OK\<rparr>))
    (vlan_post b (advance (frame_span cap wire) ETH_HDR_LEN) (packet_info0\<lparr>pi_status := DEC_OK\<rparr>))"
  using assms span_ok_frame [OF assms(1), of wire]
  by (intro vlan_tags_run span_ok_advance) (simp_all add: frame_span_def)

lemma decode_frame_run:
  assumes "unat cap \<le> length b"
  shows "wp (decode_frame b cap wire) (frame_info (wire \<le> cap))"
  unfolding decode_frame_unfold
proof (intro wp_let wp_if wpI wp_bind wp_loads)
  let ?s = "frame_span cap wire" and ?pi = "packet_info0\<lparr>pi_status := DEC_OK\<rparr>"
  let ?st = "need ?s ETH_HDR_LEN DEC_TRUNC_ETHERNET DEC_BAD_SHORT_FRAME"
  show "frame_info (wire \<le> cap) (packet_info0\<lparr>pi_status := ?st\<rparr>)" if "?st \<noteq> DEC_OK"
    by (rule bare_frame_info) (use that in \<open>auto simp: need_def frame_span_def split: if_splits\<close>)
  assume "\<not> ?st \<noteq> DEC_OK"
  then have 14: "ETH_HDR_LEN \<le> cap" by (auto simp: need_def frame_span_def split: if_splits)
  then show "12 + 1 < length b" using assms by (simp add: word_le_nat_alt)
  show "wp (vlan_tags b (ucast (be16 (b ! 12) (b ! (12 + 1)))) (advance ?s ETH_HDR_LEN) ?pi)
     (\<lambda>x. wp (case x of (tyo, s, pi) \<Rightarrow> case tyo of None \<Rightarrow> Some pi | Some ty \<Rightarrow> decode_payload b ty s pi)
       (frame_info (wire \<le> cap)))"
    by (rule wp_mono [OF after_ethernet_run [OF assms 14]])
      (auto intro!: after_tags_run span_full_advance simp: span_full_def frame_span_def)
qed

text \<open>The address arrays have their declared size; every decoded packet meets this.\<close>

definition addr_ok :: "packet_info \<Rightarrow> bool" where
  "addr_ok pi \<longleftrightarrow> length (pi_src_addr pi) = 16 \<and> length (pi_dst_addr pi) = 16"

lemma frame_info_addr_ok: "frame_info full pi \<Longrightarrow> addr_ok pi"
  by (simp add: frame_info_def addr_ok_def)

end
