(* ===== verification/Decode_Snap.thy ===== *)
theory Decode_Snap
  imports Decode_Frame
begin

text \<open>
  Snapshot lengths. Two captures of the same frame that differ only in how many bytes were
  kept are decoded side by side: at every layer the two spans have the same position and
  the same \<open>wire\<close> length, and the shorter capture either stops with a truncation or has
  decoded exactly what the longer one has. So cutting a capture short never makes a
  good packet look malformed, and never changes a field that is reported.
\<close>

section \<open>Two runs of a layer\<close>

definition span_rel :: "span \<Rightarrow> span \<Rightarrow> bool" where
  "span_rel s1 s2 \<longleftrightarrow> sp_p s1 = sp_p s2 \<and> sp_wire s1 = sp_wire s2 \<and> sp_cap s1 \<le> sp_cap s2 \<and>
     sp_cap s2 \<le> sp_wire s2"

definition snap_le :: "decoded \<Rightarrow> decoded \<Rightarrow> bool" where
  "snap_le m1 m2 \<longleftrightarrow> (\<forall>st1 s1 pi1 st2 s2 pi2.
     m1 = Some (st1, s1, pi1) \<longrightarrow> m2 = Some (st2, s2, pi2) \<longrightarrow>
     is_trunc st1 \<or> (st1 = st2 \<and> pi1 = pi2 \<and> span_rel s1 s2))"

named_theorems snap_intro "rules for two runs of a decoder on related spans"

lemma snap_leaf [snap_intro]: "span_rel s1 s2 \<Longrightarrow> snap_le (Some (st, s1, pi)) (Some (st, s2, pi))"
  by (simp add: snap_le_def)

lemma snap_trunc [snap_intro]: "is_trunc st \<Longrightarrow> snap_le (Some (st, s1, pi)) m"
  by (simp add: snap_le_def)

lemma snap_bind [snap_intro]:
  "(\<And>x. m = Some x \<Longrightarrow> snap_le (f x) (g x)) \<Longrightarrow> snap_le (Option.bind m f) (Option.bind m g)"
  by (cases m) (auto simp: snap_le_def)

lemma snap_if [snap_intro]:
  "(c \<Longrightarrow> snap_le t1 t2) \<Longrightarrow> (\<not> c \<Longrightarrow> snap_le e1 e2) \<Longrightarrow>
   snap_le (if c then t1 else e1) (if c then t2 else e2)"
  by simp

text \<open>A length compared with the captured bytes.\<close>

lemma snap_cap [snap_intro]:
  assumes "span_rel s1 s2" "is_trunc st" "n \<le> sp_cap s1 \<Longrightarrow> snap_le e1 e2"
  shows "snap_le (if n > sp_cap s1 then Some (st, s1, pi) else e1)
    (if n > sp_cap s2 then Some (st, s2, pi) else e2)"
proof (cases "n > sp_cap s1")
  case True
  then show ?thesis using assms(2) by (simp add: snap_trunc)
next
  case False
  then have "\<not> n > sp_cap s2" using assms(1) by (auto simp: span_rel_def)
  with False assms(3) show ?thesis by simp
qed

lemma snap_need [snap_intro]:
  assumes "span_rel s1 s2" "is_trunc t" "m \<noteq> DEC_OK" "n \<le> sp_cap s1 \<Longrightarrow> snap_le f1 f2"
  shows "snap_le (if need s1 n t m \<noteq> DEC_OK then Some (need s1 n t m, s1, pi) else f1)
    (if need s2 n t m \<noteq> DEC_OK then Some (need s2 n t m, s2, pi) else f2)"
proof -
  have "t \<noteq> DEC_OK" using assms(2) by auto
  moreover have "n \<le> sp_cap s2" if "n \<le> sp_cap s1" using that assms(1) by (auto simp: span_rel_def)
  moreover have "need s2 n t m = m" if "\<not> n \<le> sp_wire s1"
    using that assms(1) by (auto simp: need_def span_rel_def)
  ultimately show ?thesis
    using assms by (auto simp: need_def intro: snap_trunc snap_leaf)
qed

lemma span_rel_clip [snap_intro]: "span_rel s1 s2 \<Longrightarrow> span_rel (clip s1 n) (clip s2 n)"
  by (auto simp: span_rel_def min_def)

lemma span_rel_advance [snap_intro]:
  "span_rel s1 s2 \<Longrightarrow> n \<le> sp_cap s1 \<Longrightarrow> span_rel (advance s1 n) (advance s2 n)"
proof -
  assume rel: "span_rel s1 s2" and n: "n \<le> sp_cap s1"
  then have "n \<le> sp_cap s2" "n \<le> sp_wire s2" by (auto simp: span_rel_def)
  with rel n show ?thesis by (auto simp: span_rel_def word_le_nat_alt unat_sub)
qed

lemma span_rel_if [snap_intro]:
  "(c \<Longrightarrow> span_rel t1 t2) \<Longrightarrow> (\<not> c \<Longrightarrow> span_rel e1 e2) \<Longrightarrow>
   span_rel (if c then t1 else e1) (if c then t2 else e2)"
  by simp

lemma span_rel_eqs: assumes "span_rel s1 s2" shows "sp_p s1 = sp_p s2" "sp_wire s1 = sp_wire s2"
  using assms by (simp_all add: span_rel_def)

section \<open>The layers\<close>

lemma decode_l4_snap [snap_intro]:
  assumes "span_rel s1 s2"
  shows "snap_le (decode_l4 b s1 pi) (decode_l4 b s2 pi)"
  unfolding decode_l4_def decode_l4_tcp_def decode_l4_udp_def decode_l4_icmp_def Let_def
    span_rel_eqs [OF assms]
  by (intro snap_intro assms) simp_all

lemma decode_ipv4_snap [snap_intro]:
  assumes "span_rel s1 s2"
  shows "snap_le (decode_ipv4 b s1 pi) (decode_ipv4 b s2 pi)"
  unfolding decode_ipv4_def Let_def span_rel_eqs [OF assms]
  by (intro snap_intro assms) (auto simp: not_less)

lemma ipv6_chain_snap [snap_intro]:
  "span_rel s1 s2 \<Longrightarrow> snap_le (ipv6_chain b hops nxt s1 pi) (ipv6_chain b hops nxt s2 pi)"
proof (induction hops arbitrary: nxt s1 s2 pi rule: counter_induct [where m = IPV6_MAX_EXT_HEADERS])
  case (1 hops)
  show ?case
    unfolding ipv6_chain.simps [of _ hops] Let_def span_rel_eqs [OF "1.prems"]
    by (intro snap_intro "1.IH" "1.prems") auto
qed

lemma decode_ipv6_snap [snap_intro]:
  assumes "span_rel s1 s2"
  shows "snap_le (decode_ipv6 b s1 pi) (decode_ipv6 b s2 pi)"
  unfolding decode_ipv6_def Let_def span_rel_eqs [OF assms]
  by (intro snap_intro assms) auto

lemma decode_network_snap [snap_intro]:
  "span_rel s1 s2 \<Longrightarrow> snap_le (decode_network b ty s1 pi) (decode_network b ty s2 pi)"
  unfolding decode_network_def by (intro snap_intro) auto

lemma snap_user [snap_intro]:
  assumes "snap_le m1 m2"
  shows "snap_le
    (Option.bind m1 (\<lambda>(st, s, inn).
       Some (if st = DEC_BAD_SHORT_FRAME then DEC_BAD_GTPU_INNER_SHORT else st, s, copy_inner inn pi)))
    (Option.bind m2 (\<lambda>(st, s, inn).
       Some (if st = DEC_BAD_SHORT_FRAME then DEC_BAD_GTPU_INNER_SHORT else st, s, copy_inner inn pi)))"
  using assms by (cases m1; cases m2) (auto simp: snap_le_def split: if_splits)

lemma decode_gtpu_inner_snap [snap_intro]:
  assumes "span_rel s1 s2"
  shows "snap_le (decode_gtpu_inner b s1 pi) (decode_gtpu_inner b s2 pi)"
  unfolding decode_gtpu_inner_def Let_def span_rel_eqs [OF assms]
  by (intro snap_need snap_bind [where m = "rd8 _ _"] snap_if snap_leaf snap_user
      decode_ipv4_snap decode_ipv6_snap assms) simp_all

lemma gtpu_chain_snap [snap_intro]:
  "span_rel s1 s2 \<Longrightarrow> snap_le (gtpu_chain b hops nxt s1 pi) (gtpu_chain b hops nxt s2 pi)"
proof (induction hops arbitrary: nxt s1 s2 pi rule: counter_induct [where m = GTPU_MAX_EXT_HEADERS])
  case (1 hops)
  show ?case
    unfolding gtpu_chain.simps [of _ hops] Let_def span_rel_eqs [OF "1.prems"]
    by (intro snap_intro "1.IH" "1.prems") auto
qed

text \<open>Sequencing two steps that end the decoding unless they report \<open>DEC_OK\<close>.\<close>

lemma snap_seq:
  assumes "snap_le m1 m2"
    and "\<And>s1 s2 pi. span_rel s1 s2 \<Longrightarrow> snap_le (f s1 pi) (f s2 pi)"
  shows "snap_le
    (Option.bind m1 (\<lambda>(st, s, pi). if st \<noteq> DEC_OK then Some (st, s, pi) else f s pi))
    (Option.bind m2 (\<lambda>(st, s, pi). if st \<noteq> DEC_OK then Some (st, s, pi) else f s pi))"
proof (cases m1; cases m2)
  fix r1 r2 assume m: "m1 = Some r1" "m2 = Some r2"
  obtain st1 s1 pi1 st2 s2 pi2 where r: "r1 = (st1, s1, pi1)" "r2 = (st2, s2, pi2)"
    by (cases r1; cases r2)
  with assms(1) m consider "is_trunc st1" | "st1 = st2" "pi1 = pi2" "span_rel s1 s2"
    by (auto simp: snap_le_def)
  then show ?thesis
    using m r assms(2) by cases (auto intro: snap_intro)
qed (simp_all add: snap_le_def)

lemma options_snap:
  assumes "span_rel s1 s2" "gtpu_options b flags s1 pi = Some (st1, n1, s1', pi1)"
    "gtpu_options b flags s2 pi = Some (st2, n2, s2', pi2)"
  shows "is_trunc st1 \<or> (st1 = st2 \<and> n1 = n2 \<and> pi1 = pi2 \<and> span_rel s1' s2')"
proof -
  have "GTPU_OPT_LEN \<le> sp_cap s1 \<Longrightarrow> span_rel (advance s1 GTPU_OPT_LEN) (advance s2 GTPU_OPT_LEN)"
    using assms(1) by (rule span_rel_advance)
  moreover have "GTPU_OPT_LEN \<le> sp_cap s1 \<Longrightarrow> GTPU_OPT_LEN \<le> sp_cap s2"
    "GTPU_OPT_LEN \<le> sp_cap s2 \<Longrightarrow> GTPU_OPT_LEN \<le> sp_wire s2"
    using assms(1) by (auto simp: span_rel_def)
  ultimately show ?thesis
    using assms span_rel_eqs [OF assms(1)]
    by (auto simp: gtpu_options_def need_def some_iff split: if_splits)
qed

lemma decode_gtpu_body_snap [snap_intro]:
  assumes "span_rel s1 s2"
  shows "snap_le (decode_gtpu_body b flags s1 pi) (decode_gtpu_body b flags s2 pi)"
proof (cases "gtpu_options b flags s1 pi"; cases "gtpu_options b flags s2 pi")
  fix r1 r2 assume m: "gtpu_options b flags s1 pi = Some r1" "gtpu_options b flags s2 pi = Some r2"
  obtain st1 n1 s1' pi1 st2 n2 s2' pi2 where r: "r1 = (st1, n1, s1', pi1)" "r2 = (st2, n2, s2', pi2)"
    by (cases r1; cases r2)
  from options_snap [OF assms] m r
  consider "is_trunc st1" | "st1 = st2" "n1 = n2" "pi1 = pi2" "span_rel s1' s2'" by blast
  then show ?thesis
  proof cases
    case 1
    then show ?thesis using m r by (auto simp: decode_gtpu_body_def intro: snap_intro)
  next
    case 2
    then show ?thesis
      unfolding decode_gtpu_body_def Let_def m r
      by (simp add: snap_leaf)
        (intro impI snap_seq gtpu_chain_snap snap_if snap_leaf decode_gtpu_inner_snap; simp)
  qed
qed (auto simp: decode_gtpu_body_def snap_le_def)

lemma decode_gtpu_snap [snap_intro]:
  assumes "span_rel s1 s2"
  shows "snap_le (decode_gtpu b s1 pi) (decode_gtpu b s2 pi)"
  unfolding decode_gtpu_def Let_def span_rel_eqs [OF assms]
  by (intro snap_need snap_bind snap_if snap_leaf decode_gtpu_body_snap span_rel_clip span_rel_advance assms) auto

section \<open>Whole frames\<close>

text \<open>The outer packet: a \<open>packet_info\<close> without its GTP-U members.\<close>

definition outer :: "packet_info \<Rightarrow> packet_info" where
  "outer pi = gtp_frame (pi\<lparr>pi_is_gtpu := False, pi_gtp_status := DEC_OK\<rparr>)"

definition frame_snap :: "packet_info option \<Rightarrow> packet_info option \<Rightarrow> bool" where
  "frame_snap m1 m2 \<longleftrightarrow> (\<forall>pi1 pi2. m1 = Some pi1 \<longrightarrow> m2 = Some pi2 \<longrightarrow>
     is_trunc (pi_status pi1) \<or>
     (outer pi1 = outer pi2 \<and> pi_is_gtpu pi1 = pi_is_gtpu pi2 \<and>
      (is_trunc (pi_gtp_status pi1) \<or> pi1 = pi2)))"

lemma frame_snap_refl: "frame_snap (Some pi) (Some pi)"
  by (simp add: frame_snap_def)

lemma frame_snap_trunc: "is_trunc (pi_status pi) \<Longrightarrow> frame_snap (Some pi) m"
  by (simp add: frame_snap_def)

lemma outer_gtp:
  "layer_post sts gtp_frame b s (pi\<lparr>pi_is_gtpu := True\<rparr>) (gst, s', pi') \<Longrightarrow>
   outer (pi'\<lparr>pi_gtp_status := gst\<rparr>) = outer pi \<and> pi_is_gtpu pi'"
  by (cases pi; cases pi') (simp add: layer_post_def outer_def gtp_frame_def)

lemma gtp_step_snap:
  assumes rel: "span_rel s1 s2" and ok: "span_ok b s1" "span_ok b s2"
  shows "frame_snap
    (Option.bind (decode_gtpu b s1 (pi\<lparr>pi_is_gtpu := True\<rparr>)) (\<lambda>(gst, s, pi). Some (pi\<lparr>pi_gtp_status := gst\<rparr>)))
    (Option.bind (decode_gtpu b s2 (pi\<lparr>pi_is_gtpu := True\<rparr>)) (\<lambda>(gst, s, pi). Some (pi\<lparr>pi_gtp_status := gst\<rparr>)))"
proof -
  obtain g1 t1 p1 where r1: "decode_gtpu b s1 (pi\<lparr>pi_is_gtpu := True\<rparr>) = Some (g1, t1, p1)"
    using gtp.returns [OF ok(1)] by blast
  obtain g2 t2 p2 where r2: "decode_gtpu b s2 (pi\<lparr>pi_is_gtpu := True\<rparr>) = Some (g2, t2, p2)"
    using gtp.returns [OF ok(2)] by blast
  have "is_trunc g1 \<or> (g1 = g2 \<and> p1 = p2)"
    using decode_gtpu_snap [OF rel, of b "pi\<lparr>pi_is_gtpu := True\<rparr>"] r1 r2 by (auto simp: snap_le_def)
  with outer_gtp [OF gtp.post [OF ok(1) r1]] outer_gtp [OF gtp.post [OF ok(2) r2]] r1 r2 show ?thesis
    by (auto simp: frame_snap_def)
qed

lemma decode_payload_snap:
  assumes rel: "span_rel s1 s2" and ok: "span_ok b s1" "span_ok b s2"
    and fresh: "ip_fresh pi" "gtp_fresh pi" "\<not> pi_is_gtpu pi" "pi_gtp_status pi = DEC_OK"
      "length (pi_vlan_ids pi) = 2" "unat (pi_vlan_count pi) \<le> 2"
  shows "frame_snap (decode_payload b ty s1 pi) (decode_payload b ty s2 pi)"
proof -
  let ?pi = "pi\<lparr>pi_ethertype := ucast ty, pi_has_l2 := True\<rparr>"
  have net: "wp (decode_network b ty s ?pi) (\<lambda>r. span_ok b (fst (snd r)) \<and> outer_info False r)"
    if "span_ok b s" for s
    using that fresh by (intro network_outer_info) (auto simp: ip_fresh_def gtp_fresh_def)
  obtain st1 t1 p1 where r1: "decode_network b ty s1 ?pi = Some (st1, t1, p1)"
      and ok1: "span_ok b t1" and o1: "outer_info False (st1, t1, p1)"
    using net [OF ok(1)] by (auto simp: wp_def)
  obtain st2 t2 p2 where r2: "decode_network b ty s2 ?pi = Some (st2, t2, p2)" and ok2: "span_ok b t2"
    using net [OF ok(2)] by (auto simp: wp_def)
  consider "is_trunc st1" | "st1 = st2" "p1 = p2" "span_rel t1 t2"
    using decode_network_snap [OF rel, of b ty ?pi] r1 r2 by (auto simp: snap_le_def)
  then show ?thesis
  proof cases
    case 1
    then have "st1 \<noteq> DEC_OK" by auto
    with 1 show ?thesis by (simp add: decode_payload_def r1 frame_snap_trunc)
  next
    case 2
    have "frame_snap
        (Option.bind (decode_gtpu b (advance t1 UDP_HDR_LEN) (p\<lparr>pi_is_gtpu := True\<rparr>)) (\<lambda>(gst, s, pi). Some (pi\<lparr>pi_gtp_status := gst\<rparr>)))
        (Option.bind (decode_gtpu b (advance t2 UDP_HDR_LEN) (p\<lparr>pi_is_gtpu := True\<rparr>)) (\<lambda>(gst, s, pi). Some (pi\<lparr>pi_gtp_status := gst\<rparr>)))"
      if "pi_has_l4 p1" "pi_ip_proto p1 = IPPROTO_NUM_UDP" for p
    proof -
      have "UDP_HDR_LEN \<le> sp_cap t1" using that o1 by (simp add: outer_info_def)
      moreover from this have "UDP_HDR_LEN \<le> sp_cap t2" using 2 by (auto simp: span_rel_def)
      ultimately show ?thesis
        using 2 ok1 ok2 by (intro gtp_step_snap span_rel_advance span_ok_advance)
    qed
    with 2 span_rel_eqs [of t1 t2] show ?thesis
      by (auto simp: decode_payload_def r1 r2 Let_def decode_is_gtpu_port_def frame_snap_refl)
  qed
qed

definition vlan_snap where
  "vlan_snap m1 m2 \<longleftrightarrow> (\<forall>ty1 s1 pi1 ty2 s2 pi2.
     m1 = Some (ty1 :: cuint option, s1, pi1) \<longrightarrow> m2 = Some (ty2, s2, pi2) \<longrightarrow>
     (ty1 = None \<and> is_trunc (pi_status pi1)) \<or> (ty1 = ty2 \<and> pi1 = pi2 \<and> span_rel s1 s2))"

lemma vlan_snap_bind:
  "(\<And>x. m = Some x \<Longrightarrow> vlan_snap (f x) (g x)) \<Longrightarrow> vlan_snap (Option.bind m f) (Option.bind m g)"
  by (cases m) (auto simp: vlan_snap_def)

lemma vlan_tags_snap:
  "span_rel s1 s2 \<Longrightarrow> vlan_snap (vlan_tags b ty s1 pi) (vlan_tags b ty s2 pi)"
proof (induction "pi_vlan_count pi" arbitrary: ty s1 s2 pi rule: counter_induct [where m = DECODE_MAX_VLANS])
  case 1
  have leaf: "vlan_snap (Some (t, s1, pi')) (Some (t, s2, pi'))" for t pi'
    using "1.prems" by (simp add: vlan_snap_def)
  have step: "vlan_snap (vlan_tags b t (advance s1 VLAN_TAG_LEN) (pi\<lparr>pi_status := st, pi_vlan_ids := ids, pi_vlan_count := pi_vlan_count pi + 1\<rparr>))
      (vlan_tags b t (advance s2 VLAN_TAG_LEN) (pi\<lparr>pi_status := st, pi_vlan_ids := ids, pi_vlan_count := pi_vlan_count pi + 1\<rparr>))"
    if "pi_vlan_count pi \<noteq> DECODE_MAX_VLANS" "VLAN_TAG_LEN \<le> sp_cap s1" for t st ids
    using that "1.prems" by (intro "1.hyps" span_rel_advance) simp_all
  let ?need = "\<lambda>s. need s VLAN_TAG_LEN DEC_TRUNC_VLAN DEC_BAD_SHORT_FRAME"
  have le: "VLAN_TAG_LEN \<le> sp_cap s1 \<Longrightarrow> VLAN_TAG_LEN \<le> sp_cap s2"
    "VLAN_TAG_LEN \<le> sp_cap s2 \<Longrightarrow> VLAN_TAG_LEN \<le> sp_wire s2"
    using "1.prems" by (auto simp: span_rel_def)
  consider (stop) "\<not> is_vlan_type ty \<or> pi_vlan_count pi = DECODE_MAX_VLANS"
    | (more) "is_vlan_type ty" "pi_vlan_count pi \<noteq> DECODE_MAX_VLANS" "VLAN_TAG_LEN \<le> sp_cap s1"
    | (short) "is_vlan_type ty" "pi_vlan_count pi \<noteq> DECODE_MAX_VLANS" "\<not> VLAN_TAG_LEN \<le> sp_cap s1"
    by blast
  then show ?case
  proof cases
    case stop
    then show ?thesis by (auto simp: vlan_tags.simps [of _ ty] leaf)
  next
    case more
    then have "?need s1 = DEC_OK" "?need s2 = DEC_OK" using le by (auto simp: need_def)
    with more show ?thesis
      by (simp add: vlan_tags.simps [of _ ty _ pi] span_rel_eqs [OF "1.prems"])
        (intro vlan_snap_bind step; simp)
  next
    case short
    with le span_rel_eqs [OF "1.prems"] "1.prems" show ?thesis
      by (auto simp: vlan_tags.simps [of _ ty _ pi] need_def vlan_snap_def)
  qed
qed

lemma after_tags_snap:
  assumes "vlan_snap (Some r1) (Some r2)"
    "vlan_post b s1 (packet_info0\<lparr>pi_status := DEC_OK\<rparr>) r1" "vlan_post b s2 (packet_info0\<lparr>pi_status := DEC_OK\<rparr>) r2"
  shows "frame_snap
    (case r1 of (tyo, s, pi) \<Rightarrow> case tyo of None \<Rightarrow> Some pi | Some ty \<Rightarrow> decode_payload b ty s pi)
    (case r2 of (tyo, s, pi) \<Rightarrow> case tyo of None \<Rightarrow> Some pi | Some ty \<Rightarrow> decode_payload b ty s pi)"
proof -
  obtain ty1 t1 p1 ty2 t2 p2 where r: "r1 = (ty1, t1, p1)" "r2 = (ty2, t2, p2)"
    by (cases r1; cases r2)
  have fr: "vlan_frame p1 = vlan_frame (packet_info0\<lparr>pi_status := DEC_OK\<rparr>)"
    and p1: "span_ok b t1" "length (pi_vlan_ids p1) = 2" "unat (pi_vlan_count p1) \<le> 2" and ok2: "span_ok b t2"
    using assms(2,3) r by (auto simp: vlan_post_def)
  consider "ty1 = None" "is_trunc (pi_status p1)" | "ty1 = ty2" "p1 = p2" "span_rel t1 t2"
    using assms(1) r by (auto simp: vlan_snap_def)
  then show ?thesis
  proof cases
    case 1
    then show ?thesis by (simp add: r frame_snap_trunc)
  next
    case 2
    have "frame_snap (decode_payload b ty t1 p1) (decode_payload b ty t2 p1)" for ty
      by (rule decode_payload_snap) (use 2(3) p1 ok2 in \<open>simp_all add: vlan_frame_sels [OF fr]\<close>)
    with 2 show ?thesis by (auto simp: r frame_snap_refl split: option.split)
  qed
qed

lemma decode_frame_snap:
  assumes le: "cap1 \<le> cap2" "cap2 \<le> wire" and len: "unat cap2 \<le> length b"
  shows "frame_snap (decode_frame b cap1 wire) (decode_frame b cap2 wire)"
proof (cases "ETH_HDR_LEN \<le> cap1")
  case True
  let ?s1 = "advance (frame_span cap1 wire) ETH_HDR_LEN" and ?s2 = "advance (frame_span cap2 wire) ETH_HDR_LEN"
  let ?pi = "packet_info0\<lparr>pi_status := DEC_OK\<rparr>"
  have 2: "ETH_HDR_LEN \<le> cap2" and len1: "unat cap1 \<le> length b"
    using True le len by (auto simp: word_le_nat_alt)
  have "span_rel (frame_span cap1 wire) (frame_span cap2 wire)"
    using le by (auto simp: span_rel_def frame_span_def)
  then have rel: "span_rel ?s1 ?s2" by (rule span_rel_advance) (simp add: frame_span_def True)
  have "frame_snap
      (Option.bind (vlan_tags b ty ?s1 ?pi) (\<lambda>(tyo, s, pi). case tyo of None \<Rightarrow> Some pi | Some ty \<Rightarrow> decode_payload b ty s pi))
      (Option.bind (vlan_tags b ty ?s2 ?pi) (\<lambda>(tyo, s, pi). case tyo of None \<Rightarrow> Some pi | Some ty \<Rightarrow> decode_payload b ty s pi))" for ty
    using after_ethernet_run [OF len1 True, of ty wire] after_ethernet_run [OF len 2, of ty wire]
      vlan_tags_snap [OF rel, of b ty ?pi]
    by (elim wpE) (simp add: after_tags_snap)
  then show ?thesis
    using True 2 len len1
    by (auto simp: decode_frame_unfold need_def frame_span_def word_le_nat_alt load_be16_in)
next
  case False
  then show ?thesis
    using le by (auto simp: decode_frame_unfold need_def frame_span_def Let_def intro: frame_snap_trunc frame_snap_refl)
qed

end
