(* ===== verification/Cmp.thy ===== *)
theory Cmp
  imports Prelude
begin

text \<open>
  Comparison functions in the style of C: a negative, zero or positive result. The theory
  holds \<open>memcmp\<close>, the contract every comparison function handed to \<open>qsort\<close> must meet
  (locale \<open>cmp_order\<close>), its closure under field-by-field comparison, and \<open>qsort\<close>
  itself: for a comparison that separates distinct elements the C standard leaves \<open>qsort\<close>
  no freedom, the sorted permutation is unique.
\<close>

section \<open>\<open>memcmp\<close>\<close>

text \<open>
  The first \<open>n\<close> bytes of two arrays. The standard fixes only the sign of the result;
  no caller looks at more than that. Both arrays have at least \<open>n\<close> bytes wherever the
  program calls it.
\<close>

fun memcmp :: "nat \<Rightarrow> u8 list \<Rightarrow> u8 list \<Rightarrow> int" where
  "memcmp (Suc n) (x # a) (y # b) = (if x = y then memcmp n a b else if x < y then -1 else 1)"
| "memcmp _ _ _ = 0"

lemma memcmp_self [simp]: "memcmp n a a = 0"
proof (induction n arbitrary: a)
  case (Suc n)
  then show ?case by (cases a) auto
qed simp

lemma memcmp_swap: "memcmp n b a = - memcmp n a b"
  by (induction n a b rule: memcmp.induct) auto

lemma memcmp_0_iff [simp]: "length a = n \<Longrightarrow> length b = n \<Longrightarrow> memcmp n a b = 0 \<longleftrightarrow> a = b"
proof (induction n arbitrary: a b)
  case (Suc n)
  then show ?case by (cases a; cases b) auto
qed simp

lemma memcmp_le_Cons:
  "memcmp (Suc n) (x # a) (y # b) \<le> 0 \<longleftrightarrow> x < y \<or> (x = y \<and> memcmp n a b \<le> 0)"
  by auto

lemma memcmp_trans:
  "memcmp n a b \<le> 0 \<Longrightarrow> memcmp n b c \<le> 0 \<Longrightarrow> length a = n \<Longrightarrow> length b = n \<Longrightarrow> length c = n \<Longrightarrow>
   memcmp n a c \<le> 0"
proof (induction n arbitrary: a b c)
  case (Suc n)
  then obtain x a' y b' z c' where "a = x # a'" "b = y # b'" "c = z # c'"
    by (metis length_Suc_conv)
  with Suc.prems Suc.IH [of a' b' c'] show ?case
    by (auto simp: memcmp_le_Cons simp del: memcmp.simps dest: less_trans)
qed simp

section \<open>The contract of a comparison function\<close>

text \<open>On the elements of \<open>D\<close> the comparison is a total preorder, and swapping the
  arguments swaps the sign.\<close>

locale cmp_order =
  fixes D :: "'a set" and cmp :: "'a \<Rightarrow> 'a \<Rightarrow> int"
  assumes self: "a \<in> D \<Longrightarrow> cmp a a = 0"
    and swap: "a \<in> D \<Longrightarrow> b \<in> D \<Longrightarrow> cmp a b > 0 \<longleftrightarrow> cmp b a < 0"
    and trans: "a \<in> D \<Longrightarrow> b \<in> D \<Longrightarrow> c \<in> D \<Longrightarrow> cmp a b \<le> 0 \<Longrightarrow> cmp b c \<le> 0 \<Longrightarrow> cmp a c \<le> 0"
begin

lemma total: "a \<in> D \<Longrightarrow> b \<in> D \<Longrightarrow> cmp a b \<le> 0 \<or> cmp b a \<le> 0"
  using swap [of a b] by linarith

lemma zero_swap: "a \<in> D \<Longrightarrow> b \<in> D \<Longrightarrow> cmp a b = 0 \<longleftrightarrow> cmp b a = 0"
  using swap [of a b] swap [of b a] by linarith

lemma le_less: "a \<in> D \<Longrightarrow> b \<in> D \<Longrightarrow> c \<in> D \<Longrightarrow> cmp a b \<le> 0 \<Longrightarrow> cmp b c < 0 \<Longrightarrow> cmp a c < 0"
  using swap [of a c] swap [of c a] swap [of c b] trans [of a b c] trans [of c a b]
  by (smt (verit) swap)

lemma less_le: "a \<in> D \<Longrightarrow> b \<in> D \<Longrightarrow> c \<in> D \<Longrightarrow> cmp a b < 0 \<Longrightarrow> cmp b c \<le> 0 \<Longrightarrow> cmp a c < 0"
  using trans [of a b c] trans [of b c a] swap [of a c] swap [of c a] swap [of b a]
  by (smt (verit) swap)

end

text \<open>A linear comparison: only equal elements compare equal.\<close>

locale cmp_linear = cmp_order +
  assumes zero_eq: "a \<in> D \<Longrightarrow> b \<in> D \<Longrightarrow> cmp a b = 0 \<Longrightarrow> a = b"
begin

lemma antisym: "a \<in> D \<Longrightarrow> b \<in> D \<Longrightarrow> cmp a b \<le> 0 \<Longrightarrow> cmp b a \<le> 0 \<Longrightarrow> a = b"
  using swap [of a b] swap [of b a] zero_eq [of a b] by linarith

lemma neq_less: "a \<in> D \<Longrightarrow> b \<in> D \<Longrightarrow> a \<noteq> b \<Longrightarrow> cmp a b < 0 \<or> cmp b a < 0"
  using swap [of a b] zero_eq [of a b] by linarith

end

text \<open>Comparison by a key, and field after field.\<close>

definition cmp_num :: "'a::linorder \<Rightarrow> 'a \<Rightarrow> int" where
  "cmp_num a b = (if a = b then 0 else if a < b then -1 else 1)"

definition cmp_then :: "int \<Rightarrow> int \<Rightarrow> int" where
  "cmp_then c d = (if c \<noteq> 0 then c else d)"

lemma cmp_num_0_iff [simp]: "cmp_num a b = 0 \<longleftrightarrow> a = b"
  by (simp add: cmp_num_def)

lemma cmp_then_0_iff [simp]: "cmp_then c d = 0 \<longleftrightarrow> c = 0 \<and> d = 0"
  by (simp add: cmp_then_def)

lemma cmp_order_num: "cmp_order D cmp_num"
proof
  show "cmp_num a b > 0 \<longleftrightarrow> cmp_num b a < 0" for a b :: 'a
    by (cases a b rule: linorder_cases) (auto simp: cmp_num_def)
  have "cmp_num a b \<le> 0 \<longleftrightarrow> a \<le> b" for a b :: 'a
    by (cases a b rule: linorder_cases) (auto simp: cmp_num_def)
  then show "cmp_num a b \<le> 0 \<Longrightarrow> cmp_num b c \<le> 0 \<Longrightarrow> cmp_num a c \<le> 0" for a b c :: 'a
    by simp
qed (simp add: cmp_num_def)

lemma cmp_order_memcmp: "cmp_order {a. length a = n} (memcmp n)"
proof
  show "memcmp n a b > 0 \<longleftrightarrow> memcmp n b a < 0" for a b
    using memcmp_swap [of n b a] by linarith
  show "memcmp n a c \<le> 0" if "a \<in> {a. length a = n}" "b \<in> {a. length a = n}" "c \<in> {a. length a = n}"
    "memcmp n a b \<le> 0" "memcmp n b c \<le> 0" for a b c
    using that memcmp_trans [of n a b c] by simp
qed simp

lemma cmp_order_by: "cmp_order E cmp \<Longrightarrow> f ` D \<subseteq> E \<Longrightarrow> cmp_order D (\<lambda>a b. cmp (f a) (f b))"
  unfolding cmp_order_def image_subset_iff by simp metis

lemma cmp_order_flip: "cmp_order D cmp \<Longrightarrow> cmp_order D (\<lambda>a b. cmp b a)"
  unfolding cmp_order_def by metis

lemma cmp_order_then:
  assumes "cmp_order D c" "cmp_order D d"
  shows "cmp_order D (\<lambda>a b. cmp_then (c a b) (d a b))"
proof
  fix x y z
  note c = assms(1) and d = assms(2)
  show "x \<in> D \<Longrightarrow> cmp_then (c x x) (d x x) = 0"
    using cmp_order.self [OF c] cmp_order.self [OF d] by (simp add: cmp_then_def)
  show "cmp_then (c x y) (d x y) > 0 \<longleftrightarrow> cmp_then (c y x) (d y x) < 0" if "x \<in> D" "y \<in> D"
    using that cmp_order.swap [OF c, of x y] cmp_order.swap [OF d, of x y] cmp_order.zero_swap [OF c, of x y]
    by (auto simp: cmp_then_def)
  show "cmp_then (c x z) (d x z) \<le> 0" if xyz: "x \<in> D" "y \<in> D" "z \<in> D"
    and le: "cmp_then (c x y) (d x y) \<le> 0" "cmp_then (c y z) (d y z) \<le> 0"
  proof -
    have c_le: "c x y \<le> 0" "c y z \<le> 0" using le by (auto simp: cmp_then_def split: if_splits)
    consider "c x y < 0" | "c y z < 0" | "c x y = 0" "c y z = 0" using c_le by linarith
    then show ?thesis
    proof cases
      case 1
      then have "c x z < 0" using cmp_order.less_le [OF c xyz] c_le by blast
      then show ?thesis by (simp add: cmp_then_def)
    next
      case 2
      then have "c x z < 0" using cmp_order.le_less [OF c xyz] c_le by blast
      then show ?thesis by (simp add: cmp_then_def)
    next
      case 3
      then have "d x z \<le> 0" using le cmp_order.trans [OF d xyz] by (simp add: cmp_then_def)
      moreover have "c x z \<le> 0" using c_le cmp_order.trans [OF c xyz] by blast
      ultimately show ?thesis by (simp add: cmp_then_def)
    qed
  qed
qed

section \<open>\<open>qsort\<close>\<close>

text \<open>
  The array after \<open>qsort\<close>. The standard asks for a permutation in which no element
  comes after one it compares below; insertion gives one. The order of elements that
  compare equal is unspecified, so the program may not depend on it:
  \<open>qsort_unique\<close> says that for its comparisons there is nothing to depend on.
\<close>

fun ins_by :: "('a \<Rightarrow> 'a \<Rightarrow> int) \<Rightarrow> 'a \<Rightarrow> 'a list \<Rightarrow> 'a list" where
  "ins_by cmp x [] = [x]"
| "ins_by cmp x (y # ys) = (if cmp x y \<le> 0 then x # y # ys else y # ins_by cmp x ys)"

fun qsort :: "('a \<Rightarrow> 'a \<Rightarrow> int) \<Rightarrow> 'a list \<Rightarrow> 'a list" where
  "qsort cmp [] = []"
| "qsort cmp (x # xs) = ins_by cmp x (qsort cmp xs)"

definition sorted_by :: "('a \<Rightarrow> 'a \<Rightarrow> int) \<Rightarrow> 'a list \<Rightarrow> bool" where
  "sorted_by cmp = sorted_wrt (\<lambda>x y. cmp x y \<le> 0)"

lemma mset_ins_by [simp]: "mset (ins_by cmp x ys) = add_mset x (mset ys)"
  by (induction ys) auto

lemma length_ins_by [simp]: "length (ins_by cmp x ys) = Suc (length ys)"
  by (induction ys) auto

lemma mset_qsort [simp]: "mset (qsort cmp xs) = mset xs"
  by (induction xs) auto

lemma set_qsort [simp]: "set (qsort cmp xs) = set xs"
  by (metis mset_qsort set_mset_mset)

lemma length_qsort [simp]: "length (qsort cmp xs) = length xs"
  by (metis mset_qsort size_mset)

lemma sorted_by_simps [simp]:
  "sorted_by cmp []" "sorted_by cmp (x # xs) \<longleftrightarrow> (\<forall>y\<in>set xs. cmp x y \<le> 0) \<and> sorted_by cmp xs"
  by (simp_all add: sorted_by_def)

context cmp_order
begin

lemma ins_by_sorted:
  "sorted_by cmp ys \<Longrightarrow> x \<in> D \<Longrightarrow> set ys \<subseteq> D \<Longrightarrow> sorted_by cmp (ins_by cmp x ys)"
proof (induction ys)
  case (Cons y ys)
  have "set (ins_by cmp x ys) = insert x (set ys)"
    by (metis mset_ins_by set_mset_add_mset_insert set_mset_mset)
  moreover have "cmp x y \<le> 0 \<Longrightarrow> z \<in> set ys \<Longrightarrow> cmp x z \<le> 0" for z
    using Cons.prems by (auto intro: trans [of x y z])
  ultimately show ?case
    using Cons total [of x y] by auto
qed simp

lemma qsort_sorted: "set xs \<subseteq> D \<Longrightarrow> sorted_by cmp (qsort cmp xs)"
  by (induction xs) (auto intro!: ins_by_sorted)

end

context cmp_linear
begin

lemma sorted_unique:
  "sorted_by cmp xs \<Longrightarrow> sorted_by cmp ys \<Longrightarrow> mset xs = mset ys \<Longrightarrow> set xs \<subseteq> D \<Longrightarrow> xs = ys"
proof (induction xs arbitrary: ys)
  case (Cons x xs)
  then obtain y ys' where ys: "ys = y # ys'" by (cases ys) auto
  have sets: "set (x # xs) = set ys" by (metis Cons.prems(3) set_mset_mset)
  have "x = y"
  proof (rule antisym)
    show xD: "x \<in> D" "y \<in> D" using Cons.prems(4) sets ys by auto
    show "cmp x y \<le> 0" using Cons.prems(1) sets ys self [OF xD(1)] by (cases "x = y") auto
    show "cmp y x \<le> 0" using Cons.prems(2) sets ys self [OF xD(1)] by (cases "x = y") auto
  qed
  with Cons ys show ?case by simp
qed simp

text \<open>Whatever algorithm \<open>qsort\<close> uses, it computes this list.\<close>

lemma qsort_unique:
  "sorted_by cmp ys \<Longrightarrow> mset ys = mset xs \<Longrightarrow> set xs \<subseteq> D \<Longrightarrow> ys = qsort cmp xs"
  using sorted_unique [of ys "qsort cmp xs"] qsort_sorted [of xs]
  by (metis mset_qsort set_mset_mset)

end

end
