(* ===== verification/Fuzz_Checks.thy ===== *)
theory Fuzz_Checks
  imports Decode_Frame Cmp
begin

text \<open>
  \<open>fuzz/fuzz_decode.c\<close>: the oracles of the project's fuzzer. \<open>check_invariants\<close> and
  \<open>check_no_read_past_cap\<close> end the process with a message when a decoded frame breaks
  an invariant; here they return that message. The theorems on them, in
  \<open>Decode_Props\<close>, say that no input can make the fuzzer fail.
\<close>

definition is_gtpu_header_problem :: "decode_status \<Rightarrow> bool" where
  "is_gtpu_header_problem s \<longleftrightarrow> s = DEC_TRUNC_GTPU \<or> s = DEC_TRUNC_GTPU_EXT \<or>
     s = DEC_BAD_GTPU_LEN \<or> s = DEC_BAD_GTPU_EXT_LEN \<or> s = DEC_BAD_GTPU_EXT"

text \<open>The message of the first failed check, in the order of the code.\<close>

definition check_invariants :: "packet_info \<Rightarrow> decode_status \<Rightarrow> bool \<Rightarrow> string option" where
  "check_invariants pi st complete =
    (if st \<noteq> pi_status pi then Some ''return value != pi->status''
     else if status_num st \<ge> status_num DEC_STATUS_COUNT then Some ''status out of range''
     else if pi_vlan_count pi > DECODE_MAX_VLANS then Some ''too many VLAN tags recorded''
     else if pi_has_l4 pi \<and> \<not> pi_has_l3 pi then Some ''L4 decoded without L3''
     else if pi_has_l3 pi \<and> \<not> pi_has_l2 pi then Some ''L3 decoded without L2''
     else if pi_has_l3 pi \<and> pi_ip_version pi \<noteq> 4 \<and> pi_ip_version pi \<noteq> 6
     then Some ''bad ip_version with has_l3''
     else if pi_frag pi = FRAG_LATER \<and> pi_has_l4 pi then Some ''L4 decoded in a non-first fragment''
     else if st = DEC_OK \<and> \<not> pi_has_l2 pi then Some ''DEC_OK without L2''
     else if complete \<and> decode_status_is_truncation st
     then Some ''complete frame classified as truncated''
     else if status_num (pi_gtp_status pi) \<ge> status_num DEC_STATUS_COUNT
     then Some ''GTP-U status out of range''
     else if pi_is_gtpu pi \<and> (st \<noteq> DEC_OK \<or> pi_frag pi \<noteq> FRAG_NONE \<or> \<not> decode_is_gtpu_port pi)
     then Some ''GTP-U decoded outside a clean UDP port 2152 datagram''
     else if \<not> pi_is_gtpu pi \<and> (pi_gtp_status pi \<noteq> DEC_OK \<or> pi_gtp_v1u pi \<or> pi_gtp_msg_ok pi \<or> pi_has_inner pi)
     then Some ''GTP-U fields set without GTP-U''
     else if pi_gtp_msg_ok pi \<and> \<not> pi_gtp_v1u pi
     then Some ''GTP-U message complete without a GTPv1-U header''
     else if pi_gtp_v1u pi \<and> pi_gtp_msg_ok pi \<noteq> (\<not> is_gtpu_header_problem (pi_gtp_status pi))
     then Some ''gtp_msg_ok disagrees with the GTP-U status''
     else if pi_gtp_msg_ok pi \<and> pi_gtp_msg_type pi \<noteq> GTPU_MSG_GPDU \<and> pi_gtp_status pi \<noteq> DEC_OK
     then Some ''problem reported past the headers of a signalling message''
     else if pi_has_inner pi \<and> \<not> pi_gtp_msg_ok pi
     then Some ''inner packet decoded before the GTP-U headers were''
     else if pi_has_inner pi \<and> (\<not> pi_gtp_v1u pi \<or> pi_gtp_msg_type pi \<noteq> GTPU_MSG_GPDU)
     then Some ''inner packet outside a G-PDU''
     else if pi_has_inner pi \<and> pi_inner_version pi \<noteq> 4 \<and> pi_inner_version pi \<noteq> 6
     then Some ''bad inner IP version''
     else if pi_inner_has_l4 pi \<and> \<not> pi_has_inner pi then Some ''inner L4 decoded without inner L3''
     else if pi_gtp_nested pi \<and> \<not> (pi_inner_has_l4 pi \<and> pi_inner_proto pi = IPPROTO_NUM_UDP \<and>
        (pi_inner_src_port pi = GTPU_PORT \<or> pi_inner_dst_port pi = GTPU_PORT))
     then Some ''nested GTP-U flagged without inner UDP port 2152''
     else if ucast (pi_gtp_ext_count pi) > GTPU_MAX_EXT_HEADERS
     then Some ''extension header chain longer than the limit''
     else if pi_gtp_v1u pi \<and> pi_gtp_status pi = DEC_OK \<and> pi_gtp_msg_type pi = GTPU_MSG_GPDU \<and> \<not> pi_has_inner pi
     then Some ''clean G-PDU without an inner packet''
     else if complete \<and> decode_status_is_truncation (pi_gtp_status pi)
     then Some ''complete frame's GTP-U message classified as truncated''
     else None)"

text \<open>Every field compared one by one. The VLAN identifiers are an array of two 16-bit
  values without padding; comparing its bytes is comparing its elements.\<close>

definition same_info :: "packet_info \<Rightarrow> packet_info \<Rightarrow> bool" where
  "same_info a b \<longleftrightarrow>
     pi_status a = pi_status b \<and> pi_has_l2 a = pi_has_l2 b \<and>
     pi_has_l3 a = pi_has_l3 b \<and> pi_has_l4 a = pi_has_l4 b \<and>
     pi_ethertype a = pi_ethertype b \<and> pi_vlan_count a = pi_vlan_count b \<and>
     pi_vlan_ids a = pi_vlan_ids b \<and>
     pi_ip_version a = pi_ip_version b \<and> pi_ip_proto a = pi_ip_proto b \<and>
     memcmp 16 (pi_src_addr a) (pi_src_addr b) = 0 \<and>
     memcmp 16 (pi_dst_addr a) (pi_dst_addr b) = 0 \<and>
     pi_frag a = pi_frag b \<and> pi_frag_id a = pi_frag_id b \<and>
     pi_src_port a = pi_src_port b \<and> pi_dst_port a = pi_dst_port b \<and>
     pi_tcp_flags a = pi_tcp_flags b \<and> pi_icmp_type a = pi_icmp_type b \<and>
     pi_icmp_code a = pi_icmp_code b \<and>
     pi_is_gtpu a = pi_is_gtpu b \<and> pi_gtp_status a = pi_gtp_status b \<and>
     pi_gtp_v1u a = pi_gtp_v1u b \<and> pi_gtp_flags a = pi_gtp_flags b \<and>
     pi_gtp_msg_type a = pi_gtp_msg_type b \<and>
     pi_gtp_msg_ok a = pi_gtp_msg_ok b \<and> pi_gtp_seq a = pi_gtp_seq b \<and>
     pi_teid a = pi_teid b \<and> pi_gtp_ext_count a = pi_gtp_ext_count b \<and>
     pi_has_inner a = pi_has_inner b \<and>
     pi_inner_has_l4 a = pi_inner_has_l4 b \<and>
     pi_gtp_nested a = pi_gtp_nested b \<and>
     pi_inner_version a = pi_inner_version b \<and>
     pi_inner_proto a = pi_inner_proto b \<and>
     memcmp 16 (pi_inner_src a) (pi_inner_src b) = 0 \<and>
     memcmp 16 (pi_inner_dst a) (pi_inner_dst b) = 0 \<and>
     pi_inner_src_port a = pi_inner_src_port b \<and>
     pi_inner_dst_port a = pi_inner_dst_port b"

text \<open>The same \<open>len\<close> bytes decoded again from a larger buffer, followed by the bytes
  \<open>past\<close> that the fuzzer draws at random.\<close>

definition check_no_read_past_cap ::
    "u8 list \<Rightarrow> size_t \<Rightarrow> size_t \<Rightarrow> packet_info \<Rightarrow> u8 list \<Rightarrow> string option option" where
  "check_no_read_past_cap data len wirelen want past = do {
     exact \<leftarrow> rdn data 0 (unat len);
     got \<leftarrow> decode_frame (exact @ past) len wirelen;
     Some (if \<not> same_info want got then Some ''result depends on bytes past caplen'' else None) }"

text \<open>An exact-size copy of the frame, so that any read past its end is caught.\<close>

definition decode_exact :: "u8 list \<Rightarrow> size_t \<Rightarrow> size_t \<Rightarrow> packet_info option" where
  "decode_exact data len wirelen = do {
     exact \<leftarrow> rdn data 0 (unat len);
     decode_frame exact len wirelen }"

lemma header_problem_iff: "is_gtpu_header_problem st \<longleftrightarrow> st \<in> gtp_header_problems"
  by (auto simp: is_gtpu_header_problem_def gtp_header_problems_def)

lemma status_num_count: "status_num st \<ge> status_num DEC_STATUS_COUNT \<longleftrightarrow> st = DEC_STATUS_COUNT"
  by (cases st) simp_all

lemma vlan_limit: "unat (x :: u8) \<le> 2 \<Longrightarrow> \<not> x > DECODE_MAX_VLANS"
  by (simp add: word_less_nat_alt)

lemma ext_limit: "unat (x :: u8) \<le> unat GTPU_MAX_EXT_HEADERS \<Longrightarrow> \<not> ucast x > GTPU_MAX_EXT_HEADERS"
  by (simp add: word_less_nat_alt)

lemma if_NoneI: "\<not> c \<Longrightarrow> e = None \<Longrightarrow> (if c then t else e) = None"
  by simp

lemma check_invariants_info:
  assumes "frame_info full pi" "complete \<Longrightarrow> full"
  shows "check_invariants pi (pi_status pi) complete = None"
proof -
  note f = assms(1) [unfolded frame_info_def gtp_info_def gtp_fresh_def]
  have trunc: "complete \<Longrightarrow> \<not> is_trunc (pi_status pi)" "complete \<Longrightarrow> \<not> is_trunc (pi_gtp_status pi)"
    using f assms(2) by blast+
  have lim: "\<not> pi_vlan_count pi > DECODE_MAX_VLANS" "\<not> ucast (pi_gtp_ext_count pi) > GTPU_MAX_EXT_HEADERS"
    by (rule vlan_limit ext_limit, use f in blast)+
  show ?thesis
    unfolding check_invariants_def header_problem_iff status_num_count
    by (intro if_NoneI refl) (use f trunc lim in blast)+
qed

lemma same_info_self [simp]: "same_info pi pi"
  by (simp add: same_info_def)

end
