(* ===== verification/Decode_Props.thy ===== *)
theory Decode_Props
  imports Decode_Snap Fuzz_Checks
begin

text \<open>
  The properties of the frame decoder: it stays inside the captured bytes, it depends on
  nothing else, it satisfies every invariant the fuzzer checks, it never blames the capture
  for a frame that was captured in full, and a snapshot length only ever hides information.
  The witnesses decode \<open>sample_frame\<close>, a G-PDU that carries an IPv4/UDP packet.
\<close>

text \<open>Ethernet, IPv4, UDP to port 2152, an 8-byte GTP-U header (a G-PDU with TEID 7), and
  a 28-byte IPv4/UDP user packet.\<close>

definition sample_frame :: "u8 list" where
  "sample_frame =
     [2,0,0,0,0,2, 2,0,0,0,0,1, 8,0,
      0x45,0,0,64, 0,1,0,0, 64,17,0,0, 10,0,0,1, 10,0,0,2,
      8,0x68,8,0x68, 0,44,0,0,
      0x30,255,0,28, 0,0,0,7,
      0x45,0,0,28, 0,2,0,0, 64,17,0,0, 192,168,0,1, 192,168,0,2,
      3,0xE8,0,53, 0,8,0,0]"

text \<open>
  C1. Memory safety. Whatever bytes a frame holds and whatever length it claims to have
  had on the wire, the decoder returns, and every byte it reads is one of the
  \<open>caplen\<close> bytes of the buffer (a read outside would leave it without a result).
\<close>

theorem decode_frame_in_bounds:
  assumes "unat caplen \<le> length frame"
  shows "\<exists>pi. decode_frame (take (unat caplen) frame) caplen wirelen = Some pi"
  using decode_frame_run [of caplen "take (unat caplen) frame" wirelen] assms by (auto simp: wp_def)

theorem decode_frame_in_bounds_witness:
  "\<exists>pi. decode_frame (take (unat (60 :: size_t)) sample_frame) 60 78 = Some pi"
  by (rule decode_frame_in_bounds) (simp add: sample_frame_def)

lemma decode_frame_local:
  assumes "unat cap \<le> length b"
  shows "decode_frame b cap wire = decode_frame (take (unat cap) b) cap wire"
proof -
  have "wp (decode_frame (take (unat cap) b) cap wire) (frame_info (wire \<le> cap))"
    using assms by (intro decode_frame_run) simp
  then obtain pi where pi: "decode_frame (take (unat cap) b) cap wire = Some pi" by (auto simp: wp_def)
  with decode_frame_grow [of "take (unat cap) b" cap wire "drop (unat cap) b"]
  show ?thesis by (simp add: ext_le_def)
qed

text \<open>
  C2. The result is a function of the captured bytes and the two lengths alone: two buffers
  that agree on the first \<open>caplen\<close> bytes decode to the same \<open>packet_info\<close>, whatever
  follows. In particular the fuzzer's check for reads past the capture never fails.
\<close>

theorem decode_frame_reads_only_captured:
  assumes "unat cap \<le> length b"
  shows "\<exists>pi. decode_exact b cap wire = Some pi \<and> decode_frame b cap wire = Some pi \<and>
    check_no_read_past_cap b cap wire pi past = Some None"
proof -
  have "wp (decode_frame (take (unat cap) b) cap wire) (frame_info (wire \<le> cap))"
    using assms by (intro decode_frame_run) simp
  then obtain pi where pi: "decode_frame (take (unat cap) b) cap wire = Some pi" by (auto simp: wp_def)
  with decode_frame_grow [of "take (unat cap) b" cap wire past] assms show ?thesis
    by (simp add: check_no_read_past_cap_def decode_exact_def rdn_in ext_le_def decode_frame_local [of cap b])
qed

theorem decode_frame_reads_only_captured_witness:
  "\<exists>pi. decode_exact sample_frame 60 78 = Some pi \<and> decode_frame sample_frame 60 78 = Some pi \<and>
    check_no_read_past_cap sample_frame 60 78 pi [1, 2, 3] = Some None"
  by (rule decode_frame_reads_only_captured) (simp add: sample_frame_def)

text \<open>
  C3. Every invariant of the fuzzer holds of every frame: layers are nested (L4 within L3
  within L2), a later fragment is never read as a transport header, GTP-U members are set
  only for a clean, unfragmented UDP datagram on port 2152, \<open>gtp_msg_ok\<close> agrees with
  the GTP-U status, an inner packet exists only inside a complete G-PDU, the chains respect
  their limits, and a complete frame is never called truncated, inside a tunnel or outside.
\<close>

theorem decode_frame_invariants:
  assumes "unat cap \<le> length b"
  shows "\<exists>pi. decode_frame b cap wire = Some pi \<and> check_invariants pi (pi_status pi) (cap = wire) = None"
  using decode_frame_run [OF assms, of wire]
  by (elim wpE) (auto intro!: check_invariants_info)

theorem decode_frame_invariants_witness:
  "\<exists>pi. decode_frame sample_frame 60 78 = Some pi \<and>
    check_invariants pi (pi_status pi) ((60 :: size_t) = 78) = None"
  by (rule decode_frame_invariants) (simp add: sample_frame_def)

text \<open>
  C4. Snapshot lengths. Of two captures of one frame, the shorter one is either reported as
  truncated, or its outer packet is decoded to exactly the same values; and then its GTP-U
  message is either reported as truncated or decoded to exactly the same values, user
  packet included. So a short capture never turns a good frame into a malformed one, nor a
  malformed one into a good one.
\<close>

theorem decode_frame_snapshot:
  assumes "cap1 \<le> cap2" "cap2 \<le> wire" "unat cap2 \<le> length b"
  shows "\<exists>pi1 pi2. decode_frame b cap1 wire = Some pi1 \<and> decode_frame b cap2 wire = Some pi2 \<and>
    (decode_status_is_truncation (pi_status pi1) \<or>
     (outer pi1 = outer pi2 \<and> pi_is_gtpu pi1 = pi_is_gtpu pi2 \<and>
      (decode_status_is_truncation (pi_gtp_status pi1) \<or> pi1 = pi2)))"
proof -
  have "unat cap1 \<le> length b" using assms(1,3) unat_le_word [of cap1 cap2] by linarith
  from decode_frame_run [OF this, of wire] decode_frame_run [OF assms(3), of wire]
    decode_frame_snap [OF assms]
  show ?thesis by (elim wpE) (auto simp: frame_snap_def)
qed

theorem decode_frame_snapshot_witness:
  "\<exists>pi1 pi2. decode_frame sample_frame 60 78 = Some pi1 \<and> decode_frame sample_frame 78 78 = Some pi2 \<and>
    (decode_status_is_truncation (pi_status pi1) \<or>
     (outer pi1 = outer pi2 \<and> pi_is_gtpu pi1 = pi_is_gtpu pi2 \<and>
      (decode_status_is_truncation (pi_gtp_status pi1) \<or> pi1 = pi2)))"
  by (rule decode_frame_snapshot) (simp_all add: sample_frame_def)

end
