(* ===== verification/Builder.thy ===== *)
theory Builder
  imports Decode
begin

text \<open>
  \<open>tests/builder.c\<close>: packets and capture files built byte by byte, as the fuzzer starts from
  them. A \<open>struct bytebuf\<close> is the list of the bytes in it; how its capacity grows is not
  visible in them, and running out of memory aborts.
\<close>

section \<open>Buffers\<close>

definition bb_u8 :: "u8 list \<Rightarrow> cuint \<Rightarrow> u8 list" where
  "bb_u8 b v = b @ [ucast v]"

definition bb_be16 :: "u8 list \<Rightarrow> cuint \<Rightarrow> u8 list" where
  "bb_be16 b v = bb_u8 (bb_u8 b (drop_bit 8 v AND 0xFF)) (v AND 0xFF)"

definition bb_be32 :: "u8 list \<Rightarrow> u32 \<Rightarrow> u8 list" where
  "bb_be32 b v = bb_be16 (bb_be16 b (drop_bit 16 v)) (v AND 0xFFFF)"

definition bb_u16 :: "u8 list \<Rightarrow> cuint \<Rightarrow> bool \<Rightarrow> u8 list" where
  "bb_u16 b v big_endian =
     (if big_endian then bb_be16 b v else bb_u8 (bb_u8 b (v AND 0xFF)) (drop_bit 8 v AND 0xFF))"

definition bb_u32 :: "u8 list \<Rightarrow> u32 \<Rightarrow> bool \<Rightarrow> u8 list" where
  "bb_u32 b v big_endian =
     (if big_endian then bb_be32 b v else bb_u16 (bb_u16 b (v AND 0xFFFF) False) (drop_bit 16 v) False)"

text \<open>\<open>p\<close> is the bytes copied.\<close>

definition bb_bytes :: "u8 list \<Rightarrow> u8 list \<Rightarrow> u8 list" where
  "bb_bytes b p = b @ p"

definition bb_fill :: "u8 list \<Rightarrow> cuint \<Rightarrow> size_t \<Rightarrow> u8 list" where
  "bb_fill b v n = b @ replicate (unat n) (ucast (v AND 0xFF))"

section \<open>Headers\<close>

definition TEST_V4_A :: "u8 list" where
  "TEST_V4_A = [10, 0, 0, 1]"

definition TEST_V4_B :: "u8 list" where
  "TEST_V4_B = [192, 168, 1, 20]"

definition TEST_V6_A :: "u8 list" where
  "TEST_V6_A = [0x20, 0x01, 0x0d, 0xb8, 0, 0, 0, 0, 0, 0, 0, 0, 0, 0, 0, 0x01]"

definition TEST_V6_B :: "u8 list" where
  "TEST_V6_B = [0x20, 0x01, 0x0d, 0xb8, 0, 0, 0, 0, 0, 0, 0, 0, 0, 0, 0, 0x02]"

definition put_eth :: "u8 list \<Rightarrow> cuint \<Rightarrow> u8 list" where
  "put_eth b ethertype =
     (let b = bb_bytes b [0x02, 0x00, 0x00, 0x00, 0x00, 0x02];
          b = bb_bytes b [0x02, 0x00, 0x00, 0x00, 0x00, 0x01]
      in bb_be16 b ethertype)"

definition put_vlan :: "u8 list \<Rightarrow> cuint \<Rightarrow> cuint \<Rightarrow> u8 list" where
  "put_vlan b vid next_ethertype = bb_be16 (bb_be16 b (vid AND 0x0FFF)) next_ethertype"

definition put_ipv4 :: "u8 list \<Rightarrow> cuint \<Rightarrow> u8 list \<Rightarrow> u8 list \<Rightarrow> size_t \<Rightarrow> cuint \<Rightarrow> cuint \<Rightarrow> u8 list" where
  "put_ipv4 b proto src dst payload_len opt_words frag =
     (let hlen = 20 + 4 * ucast opt_words :: size_t;
          b = bb_u8 b (0x40 OR ((5 + opt_words) AND 0x0F));
          b = bb_u8 b 0;
          b = bb_be16 b (ucast (hlen + payload_len));
          b = bb_be16 b 0x1234;
          b = bb_be16 b frag;
          b = bb_u8 b 64;
          b = bb_u8 b proto;
          b = bb_be16 b 0;
          b = bb_bytes b src;
          b = bb_bytes b dst
      in bb_fill b 0x01 (4 * ucast opt_words))"

definition put_ipv6 :: "u8 list \<Rightarrow> cuint \<Rightarrow> u8 list \<Rightarrow> u8 list \<Rightarrow> size_t \<Rightarrow> u8 list" where
  "put_ipv6 b nxt src dst payload_len =
     (let b = bb_be32 b 0x60000000;
          b = bb_be16 b (ucast payload_len);
          b = bb_u8 b nxt;
          b = bb_u8 b 64;
          b = bb_bytes b src
      in bb_bytes b dst)"

definition put_tcp :: "u8 list \<Rightarrow> cuint \<Rightarrow> cuint \<Rightarrow> cuint \<Rightarrow> u8 list" where
  "put_tcp b sport dport flags =
     (let b = bb_be16 b sport;
          b = bb_be16 b dport;
          b = bb_be32 b 1000;
          b = bb_be32 b 2000;
          b = bb_u8 b (push_bit 4 5);
          b = bb_u8 b flags;
          b = bb_be16 b 65535;
          b = bb_be16 b 0
      in bb_be16 b 0)"

definition put_udp :: "u8 list \<Rightarrow> cuint \<Rightarrow> cuint \<Rightarrow> size_t \<Rightarrow> u8 list" where
  "put_udp b sport dport payload_len =
     (let b = bb_be16 b sport;
          b = bb_be16 b dport;
          b = bb_be16 b (ucast (8 + payload_len))
      in bb_be16 b 0)"

definition put_icmp :: "u8 list \<Rightarrow> cuint \<Rightarrow> cuint \<Rightarrow> u8 list" where
  "put_icmp b ty code =
     (let b = bb_u8 b ty;
          b = bb_u8 b code;
          b = bb_be16 b 0;
          b = bb_be16 b 0x0042
      in bb_be16 b 1)"

definition put_gtpu :: "u8 list \<Rightarrow> cuint \<Rightarrow> cuint \<Rightarrow> size_t \<Rightarrow> u32 \<Rightarrow> u8 list" where
  "put_gtpu b flags ty len teid =
     (let b = bb_u8 b flags;
          b = bb_u8 b ty;
          b = bb_be16 b (ucast len)
      in bb_be32 b teid)"

definition put_gtpu_opt :: "u8 list \<Rightarrow> cuint \<Rightarrow> cuint \<Rightarrow> cuint \<Rightarrow> u8 list" where
  "put_gtpu_opt b seq npdu next_type = bb_u8 (bb_u8 (bb_be16 b seq) npdu) next_type"

definition put_gtpu_ext :: "u8 list \<Rightarrow> cuint \<Rightarrow> cuint \<Rightarrow> u8 list" where
  "put_gtpu_ext b units next_type = bb_u8 (bb_fill (bb_u8 b units) 0 (4 * ucast units - 2)) next_type"

section \<open>Frames\<close>

definition frame_v4_tcp :: "u8 list \<Rightarrow> u8 list \<Rightarrow> u8 list \<Rightarrow> cuint \<Rightarrow> cuint \<Rightarrow> cuint \<Rightarrow> size_t \<Rightarrow> u8 list" where
  "frame_v4_tcp b src dst sport dport flags payload =
     (let b = put_eth b 0x0800;
          b = put_ipv4 b 6 src dst (20 + payload) 0 0x4000;
          b = put_tcp b sport dport flags
      in bb_fill b 0xAB payload)"

definition frame_v4_udp :: "u8 list \<Rightarrow> u8 list \<Rightarrow> u8 list \<Rightarrow> cuint \<Rightarrow> cuint \<Rightarrow> size_t \<Rightarrow> u8 list" where
  "frame_v4_udp b src dst sport dport payload =
     (let b = put_eth b 0x0800;
          b = put_ipv4 b 17 src dst (8 + payload) 0 0;
          b = put_udp b sport dport payload
      in bb_fill b 0xCD payload)"

definition frame_v6_tcp :: "u8 list \<Rightarrow> u8 list \<Rightarrow> u8 list \<Rightarrow> cuint \<Rightarrow> cuint \<Rightarrow> cuint \<Rightarrow> size_t \<Rightarrow> u8 list" where
  "frame_v6_tcp b src dst sport dport flags payload =
     (let b = put_eth b 0x86DD;
          b = put_ipv6 b 6 src dst (20 + payload);
          b = put_tcp b sport dport flags
      in bb_fill b 0xEF payload)"

section \<open>Capture files\<close>

definition pcap_put_global :: "u8 list \<Rightarrow> bool \<Rightarrow> bool \<Rightarrow> u32 \<Rightarrow> u32 \<Rightarrow> u8 list" where
  "pcap_put_global b big_endian nsec snaplen linktype =
     (let b = bb_u32 b (if nsec then 0xA1B23C4D else 0xA1B2C3D4) big_endian;
          b = bb_u16 b 2 big_endian;
          b = bb_u16 b 4 big_endian;
          b = bb_u32 b 0 big_endian;
          b = bb_u32 b 0 big_endian;
          b = bb_u32 b snaplen big_endian
      in bb_u32 b linktype big_endian)"

text \<open>\<open>data\<close> is the \<open>caplen\<close> bytes copied; fewer have no value.\<close>

definition pcap_put_record :: "u8 list \<Rightarrow> bool \<Rightarrow> u32 \<Rightarrow> u32 \<Rightarrow> u8 list \<Rightarrow> u32 \<Rightarrow> u32 \<Rightarrow> u8 list option" where
  "pcap_put_record b big_endian sec frac data caplen wirelen = do {
     let b = bb_u32 b sec big_endian;
     let b = bb_u32 b frac big_endian;
     let b = bb_u32 b caplen big_endian;
     let b = bb_u32 b wirelen big_endian;
     p \<leftarrow> rdn data 0 (unat caplen);
     Some (bb_bytes b p) }"

lemmas builder_defs = bb_u8_def bb_be16_def bb_be32_def bb_u16_def bb_u32_def bb_bytes_def bb_fill_def

lemma builder_lengths [simp]:
  "length (bb_u8 b v) = length b + 1" "length (bb_be16 b v) = length b + 2" "length (bb_be32 b w) = length b + 4"
  "length (bb_u16 b v e) = length b + 2" "length (bb_u32 b w e) = length b + 4"
  "length (bb_bytes b p) = length b + length p" "length (bb_fill b v n) = length b + unat n"
  by (simp_all add: builder_defs)

lemma pcap_put_global_length [simp]: "length (pcap_put_global b e n s l) = length b + 24"
  by (simp add: pcap_put_global_def Let_def)

lemma pcap_put_record_length:
  "unat caplen \<le> length data \<Longrightarrow> \<exists>b'. pcap_put_record b e sec frac data caplen wirelen = Some b' \<and>
     length b' = length b + 16 + unat caplen"
  by (simp add: pcap_put_record_def rdn_def Let_def)

end
