(* ===== verification/Decode_Build.thy ===== *)
theory Decode_Build
  imports Decode_Safety Builder
begin

text \<open>
  What the decoder finds in a frame that has been built. The bytes of each header are put by the
  functions of \<open>tests/builder.c\<close>. Each layer has a lemma that says what it finds at a place of a buffer where the bytes of its header
  stand (\<open>stands\<close>); the property follows them through a whole frame.
\<close>

section \<open>Bytes at a place\<close>

definition stands :: "u8 list \<Rightarrow> nat \<Rightarrow> u8 list \<Rightarrow> bool" where
  "stands b p xs \<longleftrightarrow> (\<exists>ys zs. b = ys @ xs @ zs \<and> length ys = p)"

lemma stands_append: "stands b p (xs @ ys) \<longleftrightarrow> stands b p xs \<and> stands b (p + length xs) ys"
proof
  assume "stands b p (xs @ ys)"
  then show "stands b p xs \<and> stands b (p + length xs) ys"
    unfolding stands_def by (metis append.assoc length_append)
next
  assume "stands b p xs \<and> stands b (p + length xs) ys"
  then obtain as bs cs ds where b: "b = as @ xs @ bs" "length as = p" "b = cs @ ys @ ds" "length cs = p + length xs"
    unfolding stands_def by blast
  then have "cs = as @ xs" by (metis append.assoc append_eq_append_conv length_append)
  then show "stands b p (xs @ ys)" using b unfolding stands_def by (metis append.assoc)
qed

lemma stands_rd8: "stands b p xs \<Longrightarrow> i < length xs \<Longrightarrow> rd8 b (p + i) = Some (xs ! i)"
  by (auto simp: stands_def rd8_def nth_append)

lemma stands_be16: "stands b p xs \<Longrightarrow> i + 1 < length xs \<Longrightarrow> load_be16 b (p + i) = Some (be16 (xs ! i) (xs ! (i + 1)))"
  using stands_rd8 [of b p xs i] stands_rd8 [of b p xs "i + 1"] by (simp add: load_be16_def)

lemma stands_be32:
  assumes "stands b p xs" "i + 3 < length xs"
  shows "load_be32 b (p + i) = Some (be32 (xs ! i) (xs ! (i + 1)) (xs ! (i + 2)) (xs ! (i + 3)))"
  using stands_rd8 [OF assms(1), of i] stands_rd8 [OF assms(1), of "i + 1"] stands_rd8 [OF assms(1), of "i + 2"]
    stands_rd8 [OF assms(1), of "i + 3"] assms(2)
  by (simp add: load_be32_def add.assoc)

lemma stands_rdn: "stands b p xs \<Longrightarrow> i + n \<le> length xs \<Longrightarrow> rdn b (p + i) n = Some (take n (drop i xs))"
  by (auto simp: stands_def rdn_def)

text \<open>The first bytes are at the place itself.\<close>

lemmas stands_reads = stands_rd8 stands_be16 stands_be32 stands_rdn
lemmas stands_first = stands_reads(1-3) [of _ _ _ 0, unfolded add_0_right add_0] stands_reads(1-3) [of _ _ _ 1, simplified]
  stands_reads(1-3) [of _ _ _ 2, simplified]

section \<open>Headers as lists of bytes\<close>

lemma byte_masks: "(0xFF :: cuint) = mask 8" "(0xFFFF :: cuint) = mask 16" "(0x0FFF :: cuint) = mask 12"
  by (simp_all add: mask_eq_exp_minus_1)

lemma bb_be16_enc: "bb_be16 b v = b @ enc_be16 (ucast v)"
  unfolding bb_be16_def bb_u8_def enc_be16_def byte_masks
  by simp (auto intro!: bit_word_eqI simp: bit_simps)

lemma bb_be32_enc: "bb_be32 b v = b @ enc_be32 v"
  unfolding bb_be32_def bb_be16_enc enc_be16_def enc_be32_def byte_masks
  by simp (auto intro!: bit_word_eqI simp: bit_simps)

lemmas bb_bytes_of = bb_be16_enc bb_be32_enc bb_u8_def bb_bytes_def bb_fill_def enc_be16_def enc_be32_def

lemma put_tcp_append: "put_tcp b sport dport flags = b @ put_tcp [] sport dport flags"
  by (simp add: put_tcp_def Let_def bb_bytes_of)

lemma put_udp_append: "put_udp b sport dport n = b @ put_udp [] sport dport n"
  by (simp add: put_udp_def Let_def bb_bytes_of)

lemma put_gtpu_append: "put_gtpu b flags ty n teid = b @ put_gtpu [] flags ty n teid"
  by (simp add: put_gtpu_def Let_def bb_bytes_of)

lemma put_ipv4_append: "put_ipv4 b proto src dst n 0 frag = b @ put_ipv4 [] proto src dst n 0 frag"
  by (simp add: put_ipv4_def Let_def bb_bytes_of)

lemma put_ipv6_append: "put_ipv6 b nxt src dst n = b @ put_ipv6 [] nxt src dst n"
  by (simp add: put_ipv6_def Let_def bb_bytes_of)

lemma put_vlan_append: "put_vlan b vid ty = b @ put_vlan [] vid ty"
  by (simp add: put_vlan_def Let_def bb_bytes_of)

lemma put_lengths [simp]:
  "length (put_tcp [] sport dport flags) = 20" "length (put_udp [] sport dport n) = 8" "length (put_gtpu [] fl ty n teid) = 8"
  "length src = 4 \<Longrightarrow> length dst = 4 \<Longrightarrow> length (put_ipv4 [] proto src dst n 0 frag) = 20"
  "length src = 16 \<Longrightarrow> length dst = 16 \<Longrightarrow> length (put_ipv6 [] proto src dst n) = 40"
  "length (put_vlan [] vid ty) = 4" "length (put_eth [] ty) = 14"
  by (simp_all add: put_tcp_def put_udp_def put_gtpu_def put_ipv4_def put_ipv6_def put_vlan_def put_eth_def Let_def bb_bytes_of)

section \<open>Layers\<close>

lemma tcp_built:
  assumes "stands b (sp_p s) (put_tcp [] sport dport flags)" "20 \<le> sp_cap s" "sp_cap s \<le> sp_wire s"
  shows "decode_l4_tcp b s pi = Some (DEC_OK, s,
    pi\<lparr>pi_src_port := ucast sport, pi_dst_port := ucast dport, pi_tcp_flags := ucast flags, pi_has_l4 := True\<rparr>)"
proof -
  note r = assms(1) [unfolded put_tcp_def Let_def bb_bytes_of, simplified]
  have "20 \<le> sp_wire s" using assms(2,3) by (rule order_trans)
  then show ?thesis using assms(2) 
    by (simp add: decode_l4_tcp_def need_def stands_first [OF r] stands_reads [OF r] be16_enc not_less Let_def)
qed

lemma clip_all: "sp_cap s \<le> sp_wire s \<Longrightarrow> clip s (sp_wire s) = s"
  by (cases s) (auto simp: clip_def)

lemma length_field:
  fixes m :: size_t
  assumes "unat m < 65536"
  shows "ucast (ucast (ucast m :: cuint) :: u16) = m"
proof -
  have "unat m < 2 ^ 32" "unat m < 2 ^ 16" "unat m < 2 ^ 64" using assms by simp_all
  note small = this [THEN take_bit_nat_eq_self]
  have "unat (ucast m :: cuint) = unat m" using small(1) by (subst unsigned_ucast_eq) simp
  then have "unat (ucast (ucast m :: cuint) :: u16) = unat m" using small(2) by (subst unsigned_ucast_eq) simp
  then have "unat (ucast (ucast (ucast m :: cuint) :: u16) :: size_t) = unat m" using small(3) by (subst unsigned_ucast_eq) simp
  then show ?thesis by (simp only: word_unat_eq_iff)
qed

lemma length_field_add:
  fixes n :: size_t
  assumes "unat n + unat k < 65536"
  shows "ucast (ucast (ucast (k + n) :: cuint) :: u16) = k + n" "k \<le> k + n"
proof -
  have "unat (k + n) = unat k + unat n" using assms by (simp add: unat_word_ariths)
  then show "ucast (ucast (ucast (k + n) :: cuint) :: u16) = k + n" "k \<le> k + n"
    using assms by (simp_all add: length_field word_le_nat_alt)
qed

lemma udp_built:
  assumes "stands b (sp_p s) (put_udp [] sport dport n)" "8 \<le> sp_cap s" "sp_cap s \<le> sp_wire s"
    "unat n < 65528" "sp_wire s = 8 + n" "pi_frag pi = FRAG_NONE"
  shows "decode_l4_udp b s pi = Some (DEC_OK, s, pi\<lparr>pi_src_port := ucast sport, pi_dst_port := ucast dport, pi_has_l4 := True\<rparr>)"
proof -
  note r = assms(1) [unfolded put_udp_def Let_def bb_bytes_of, simplified]
  have len: "ucast (ucast (ucast (8 + n) :: cuint) :: u16) = 8 + n" "8 \<le> 8 + n"
    using length_field_add [of n 8] assms(4) by simp_all
  show ?thesis using assms(2) clip_all [OF assms(3)]
    by (simp add: decode_l4_udp_def need_def stands_first [OF r] stands_reads [OF r] be16_enc not_less Let_def assms(5,6) len)
qed

lemma ipv4_built:
  assumes "stands b (sp_p s) (put_ipv4 [] proto src dst n 0 frag)" "length src = 4" "length dst = 4" "frag = 0 \<or> frag = 0x4000"
    "20 \<le> sp_cap s" "sp_cap s \<le> sp_wire s" "unat n < 65516" "20 + n \<le> sp_wire s" "pi_frag pi = FRAG_NONE"
  shows "decode_ipv4 b s pi = decode_l4 b (advance (clip s (20 + n)) 20) (pi\<lparr>pi_ip_version := 4, pi_ip_proto := ucast proto,
    pi_src_addr := set_prefix (pi_src_addr pi) src, pi_dst_addr := set_prefix (pi_dst_addr pi) dst, pi_frag_id := 0x1234, pi_has_l3 := True\<rparr>)"
proof -
  note r = assms(1) [unfolded put_ipv4_def Let_def bb_bytes_of, simplified]
  have len: "ucast (ucast (ucast (20 + n) :: cuint) :: u16) = 20 + n" "20 \<le> 20 + n"
    using length_field_add [of n 20] assms(7) by simp_all
  have nz: "(ucast (ucast (20 + n) :: cuint) :: u16) \<noteq> 0"
  proof
    assume "(ucast (ucast (20 + n) :: cuint) :: u16) = 0"
    then have "20 + n = 0" using len(1) by simp
    with len(2) show False by (simp only:) simp
  qed
  have in_bounds: "20 \<le> sp_wire s" "\<not> sp_wire s < 20" "\<not> sp_cap s < 20" "\<not> sp_wire s < 20 + n" "\<not> 20 + n < 20"
    using order_trans [OF assms(5,6)] assms(5,8) len(2) by (simp_all add: not_less)
  have fields: "be16 0 0 = 0" "be16 64 0 = 0x4000" "be16 64 0x4000 = 0x4000" "be16 18 4660 = 0x1234" by (simp_all add: be16_def)
  show ?thesis using assms(4)
  proof
    assume "frag = 0"
    then show ?thesis using assms(2,3,5,9) nz in_bounds
      by (cases pi) (simp add: decode_ipv4_def need_def stands_first [OF r] stands_reads [OF r] be16_enc Let_def len fields)
  next
    assume "frag = 0x4000"
    then show ?thesis using assms(2,3,5,9) nz in_bounds
      by (cases pi) (simp add: decode_ipv4_def need_def stands_first [OF r] stands_reads [OF r] be16_enc Let_def len fields)
  qed
qed

lemma ipv6_built:
  assumes "stands b (sp_p s) (put_ipv6 [] nxt src dst n)" "length src = 16" "length dst = 16" "nxt = 6 \<or> nxt = 17"
    "40 \<le> sp_cap s" "sp_cap s \<le> sp_wire s" "unat n < 65496" "n \<le> sp_wire s - 40"
  shows "decode_ipv6 b s pi = decode_l4 b (clip (advance s 40) n) (pi\<lparr>pi_ip_version := 6, pi_ip_proto := ucast nxt,
    pi_src_addr := set_prefix (pi_src_addr pi) src, pi_dst_addr := set_prefix (pi_dst_addr pi) dst, pi_has_l3 := True\<rparr>)"
proof -
  note r = assms(1) [unfolded put_ipv6_def Let_def bb_bytes_of, simplified]
  have len: "ucast (ucast (ucast n :: cuint) :: u16) = n" using length_field [of n] assms(7) by simp
  have in_bounds: "\<not> sp_wire s - 40 < n" using assms(8) by (simp add: not_less)
  have first: "ucast (drop_bit 24 (0x60000000 :: u32)) = (0x60 :: u8)" by simp
  show ?thesis using assms(4)
  proof
    assume "nxt = 6"
    then show ?thesis using assms(2,3,5) in_bounds
      by (cases pi) (simp add: decode_ipv6_def need_def stands_first [OF r] stands_reads [OF r] be16_enc Let_def len
        ipv6_chain.simps is_ipv6_ext_def)
  next
    assume "nxt = 17"
    then show ?thesis using assms(2,3,5) in_bounds
      by (cases pi) (simp add: decode_ipv6_def need_def stands_first [OF r] stands_reads [OF r] be16_enc Let_def len
        ipv6_chain.simps is_ipv6_ext_def)
  qed
qed

text \<open>Both versions of IP at once.\<close>

definition put_ip :: "bool \<Rightarrow> u8 list \<Rightarrow> cuint \<Rightarrow> u8 list \<Rightarrow> u8 list \<Rightarrow> size_t \<Rightarrow> u8 list" where
  "put_ip v6 b proto src dst n = (if v6 then put_ipv6 b proto src dst n else put_ipv4 b proto src dst n 0 0)"

definition ip_hdr :: "bool \<Rightarrow> nat" where
  "ip_hdr v6 = (if v6 then 40 else 20)"

definition addr_len :: "bool \<Rightarrow> nat" where
  "addr_len v6 = (if v6 then 16 else 4)"

definition ip_found :: "bool \<Rightarrow> cuint \<Rightarrow> u8 list \<Rightarrow> u8 list \<Rightarrow> packet_info \<Rightarrow> packet_info" where
  "ip_found v6 proto src dst pi = pi\<lparr>pi_has_l3 := True, pi_ip_version := (if v6 then 6 else 4), pi_ip_proto := ucast proto,
     pi_src_addr := src @ replicate (16 - length src) 0, pi_dst_addr := dst @ replicate (16 - length dst) 0,
     pi_frag_id := (if v6 then pi_frag_id pi else 0x1234)\<rparr>"

lemma put_ip_append: "put_ip v6 b proto src dst n = b @ put_ip v6 [] proto src dst n"
  using put_ipv4_append [of b] put_ipv6_append [of b] by (simp add: put_ip_def)

lemma put_ip_length [simp]:
  "length src = addr_len v6 \<Longrightarrow> length dst = addr_len v6 \<Longrightarrow> length (put_ip v6 [] proto src dst n) = ip_hdr v6"
  by (simp add: put_ip_def ip_hdr_def addr_len_def split: if_splits)

lemma ip_built:
  assumes "stands b (sp_p s) (put_ip v6 [] proto src dst n)" "length src = addr_len v6" "length dst = addr_len v6"
    "proto = 6 \<or> proto = 17" "ip_hdr v6 \<le> unat (sp_cap s)" "unat (sp_cap s) \<le> unat (sp_wire s)"
    "unat n < 65496" "ip_hdr v6 + unat n \<le> unat (sp_wire s)"
    "pi_frag pi = FRAG_NONE" "pi_src_addr pi = replicate 16 0" "pi_dst_addr pi = replicate 16 0"
  shows "\<exists>s'. (if v6 then decode_ipv6 b s pi else decode_ipv4 b s pi) = decode_l4 b s' (ip_found v6 proto src dst pi) \<and>
    sp_p s' = sp_p s + ip_hdr v6 \<and> unat (sp_wire s') = unat n \<and> unat (sp_cap s') = min (unat (sp_cap s) - ip_hdr v6) (unat n)"
proof (cases v6)
  case True
  have "n \<le> sp_wire s - 40" using assms(5-8) True by (simp add: ip_hdr_def word_le_nat_alt unat_sub)
  moreover have "unat (min (sp_cap s - 40) n) = min (unat (sp_cap s) - 40) (unat n)"
    using assms(5) True by (simp add: ip_hdr_def min_def word_le_nat_alt unat_sub)
  ultimately show ?thesis
    using ipv6_built [of b s proto src dst n pi] assms True
    by (intro exI [of _ "clip (advance s 40) n"], cases pi)
      (simp add: put_ip_def ip_hdr_def addr_len_def ip_found_def set_prefix_def word_le_nat_alt)
next
  case False
  have sum: "unat (20 + n) = 20 + unat n" using assms(7) by (simp add: unat_word_ariths)
  have "unat (min (sp_cap s) (20 + n) - 20) = min (unat (sp_cap s) - 20) (unat n)"
    using assms(5) False sum by (simp add: ip_hdr_def min_def word_le_nat_alt unat_sub) arith
  then show ?thesis
    using ipv4_built [of b s proto src dst n 0 pi] assms False sum
    by (intro exI [of _ "advance (clip s (20 + n)) 20"], cases pi)
      (simp add: put_ip_def ip_hdr_def addr_len_def ip_found_def set_prefix_def word_le_nat_alt)
qed

lemma inner_built:
  assumes "stands b (sp_p s) (put_ip v6 [] 6 src dst n @ put_tcp [] sport dport flags)"
    "length src = addr_len v6" "length dst = addr_len v6"
    "ip_hdr v6 + 20 \<le> unat (sp_cap s)" "unat (sp_cap s) \<le> unat (sp_wire s)"
    "unat n < 65496" "20 \<le> unat n" "ip_hdr v6 + unat n \<le> unat (sp_wire s)"
  shows "\<exists>s'. decode_gtpu_inner b s pi = Some (DEC_OK, s', pi\<lparr>pi_has_inner := True,
    pi_inner_version := (if v6 then 6 else 4), pi_inner_proto := 6, pi_inner_src := src @ replicate (16 - length src) 0,
    pi_inner_dst := dst @ replicate (16 - length dst) 0, pi_inner_has_l4 := True,
    pi_inner_src_port := ucast sport, pi_inner_dst_port := ucast dport, pi_gtp_nested := False\<rparr>)"
proof -
  have ip: "stands b (sp_p s) (put_ip v6 [] 6 src dst n)" and tcp: "stands b (sp_p s + ip_hdr v6) (put_tcp [] sport dport flags)"
    using assms(1-3) by (simp_all add: stands_append)
  obtain s' where s': "(if v6 then decode_ipv6 b s packet_info0 else decode_ipv4 b s packet_info0) =
      decode_l4 b s' (ip_found v6 6 src dst packet_info0)"
      "sp_p s' = sp_p s + ip_hdr v6" "unat (sp_wire s') = unat n" "unat (sp_cap s') = min (unat (sp_cap s) - ip_hdr v6) (unat n)"
    using ip_built [OF ip assms(2,3), of packet_info0] assms(4-8) by (auto simp: packet_info0_def)
  have "decode_l4 b s' (ip_found v6 6 src dst packet_info0) = Some (DEC_OK, s', (ip_found v6 6 src dst packet_info0)
      \<lparr>pi_src_port := ucast sport, pi_dst_port := ucast dport, pi_tcp_flags := ucast flags, pi_has_l4 := True\<rparr>)"
    using tcp_built [of b s' sport dport flags] tcp s'(2-4) assms(4,7)
    by (simp add: decode_l4_def ip_found_def word_le_nat_alt)
  moreover have "rd8 b (sp_p s) = Some (if v6 then 0x60 else 0x45)"
  proof -
    have first: "ucast (drop_bit 24 (0x60000000 :: u32)) = (0x60 :: u8)" by simp
    show ?thesis using stands_first(1) [OF ip] assms(2,3)
      by (simp add: put_ip_def put_ipv4_def put_ipv6_def Let_def bb_bytes_of first)
  qed
  moreover have "1 \<le> sp_cap s" using assms(4) by (simp add: word_le_nat_alt)
  ultimately show ?thesis using s'(1)
    by (cases v6) (simp_all add: decode_gtpu_inner_def need_def copy_inner_def ip_found_def decode_is_gtpu_port_def)
qed

lemma gtpu_built:
  assumes "stands b (sp_p s) (put_gtpu [] 0x30 255 n teid)" "8 \<le> sp_cap s" "sp_cap s \<le> sp_wire s"
    "unat n < 65536" "n \<le> sp_wire s - 8"
  shows "decode_gtpu b s pi = decode_gtpu_inner b (clip (advance s 8) n)
    (pi\<lparr>pi_gtp_v1u := True, pi_gtp_flags := 0x30, pi_gtp_msg_type := 255, pi_teid := teid, pi_gtp_msg_ok := True\<rparr>)"
proof -
  note r = assms(1) [unfolded put_gtpu_def Let_def bb_bytes_of, simplified]
  have len: "ucast (ucast (ucast n :: cuint) :: u16) = n" using length_field [of n] assms(4) by simp
  have "\<not> sp_wire s - 8 < n" using assms(5) by (simp add: not_less)
  then show ?thesis using assms(2)
    by (simp add: decode_gtpu_def decode_gtpu_body_def gtpu_options_def gtpu_chain.simps need_def stands_first [OF r] stands_reads [OF r]
      be16_enc be32_enc Let_def len)
qed

section \<open>Tags\<close>

text \<open>Each tag is its ethertype and its VLAN id.\<close>

fun outer_type :: "(cuint \<times> cuint) list \<Rightarrow> cuint \<Rightarrow> cuint" where
  "outer_type [] ty = ty"
| "outer_type ((tpid, vid) # tags) ty = tpid"

fun put_tags :: "u8 list \<Rightarrow> (cuint \<times> cuint) list \<Rightarrow> cuint \<Rightarrow> u8 list" where
  "put_tags b [] ty = b"
| "put_tags b ((tpid, vid) # tags) ty = put_tags (put_vlan b vid (outer_type tags ty)) tags ty"

lemma put_tags_append: "put_tags b tags ty = b @ put_tags [] tags ty"
proof (induction tags arbitrary: b)
  case (Cons tag tags)
  obtain tpid vid where tag: "tag = (tpid, vid)" by (cases tag)
  let ?v = "put_vlan [] vid (outer_type tags ty)"
  have "put_tags (put_vlan b vid (outer_type tags ty)) tags ty = (b @ ?v) @ put_tags [] tags ty"
    using Cons.IH [of "put_vlan b vid (outer_type tags ty)"] put_vlan_append [of b] by simp
  moreover have "put_tags ?v tags ty = ?v @ put_tags [] tags ty" by (rule Cons.IH)
  ultimately show ?case by (simp add: tag)
qed simp

lemma put_tags_length [simp]: "length (put_tags [] tags ty) = 4 * length tags"
proof (induction tags)
  case (Cons tag tags)
  then show ?case using put_tags_append [of "put_vlan [] (snd tag) (outer_type tags ty)" tags ty] by (cases tag) simp
qed simp

definition frame_types :: "cuint set" where
  "frame_types = {0x8100, 0x88A8, 0x9100, 0x0800, 0x86DD}"

lemma frame_type_field: "ty \<in> frame_types \<Longrightarrow> ucast (ucast ty :: u16) = ty"
  by (auto simp: frame_types_def)

lemma tag_built:
  assumes "stands b (sp_p s) (put_vlan [] vid ty')" "is_vlan_type ty" "ty' \<in> frame_types"
    "4 \<le> sp_cap s" "unat (pi_vlan_count pi) < 2" "length (pi_vlan_ids pi) = 2" "pi_status pi = DEC_OK"
  shows "vlan_tags b ty s pi = vlan_tags b ty' (advance s 4)
    (pi\<lparr>pi_vlan_ids := (pi_vlan_ids pi)[unat (pi_vlan_count pi) := ucast vid AND 0x0FFF], pi_vlan_count := pi_vlan_count pi + 1\<rparr>)"
proof -
  note r = assms(1) [unfolded put_vlan_def Let_def bb_bytes_of, simplified]
  have mask: "(0xFFF :: u16) = mask 12" by (simp add: mask_eq_exp_minus_1)
  have vid: "ucast (vid AND 0xFFF) AND 0xFFF = ucast vid AND (0xFFF :: u16)"
    unfolding byte_masks(3) mask by (rule bit_word_eqI) (auto simp: bit_simps)
  have "pi_vlan_count pi \<noteq> 2" using assms(5) by auto
  then show ?thesis using assms(2,4-7) frame_type_field [OF assms(3)]
    by (subst vlan_tags.simps, cases pi) (simp add: need_def stands_first [OF r] stands_reads [OF r] vid be16_enc Let_def wr_def)
qed

lemma tags_built:
  assumes "stands b (sp_p s) (put_tags [] tags ty)" "length tags \<le> 2" "\<forall>tag\<in>set tags. is_vlan_type (fst tag)"
    "ty = 0x0800 \<or> ty = 0x86DD" "4 * length tags \<le> unat (sp_cap s)" "unat (sp_cap s) \<le> unat (sp_wire s)"
    "pi_vlan_count pi = 0" "pi_vlan_ids pi = replicate 2 0" "pi_status pi = DEC_OK"
  shows "\<exists>s'. vlan_tags b (outer_type tags ty) s pi = Some (Some ty, s', pi\<lparr>pi_vlan_count := of_nat (length tags),
      pi_vlan_ids := map (\<lambda>tag. ucast (snd tag) AND 0x0FFF) tags @ replicate (2 - length tags) 0\<rparr>) \<and>
    sp_p s' = sp_p s + 4 * length tags \<and> unat (sp_wire s') = unat (sp_wire s) - 4 * length tags \<and>
    unat (sp_cap s') = unat (sp_cap s) - 4 * length tags"
proof -
  have last: "vlan_tags b ty s pi = Some (Some ty, s, pi)" for s pi
    using assms(4) by (subst vlan_tags.simps) (auto simp: is_vlan_type_def)
  have two: "replicate 2 (0 :: u16) = [0, 0]" by (simp add: numeral_2_eq_2)
  have types: "ty \<in> frame_types" "\<And>tpid. is_vlan_type tpid \<Longrightarrow> tpid \<in> frame_types"
    using assms(4) by (auto simp: frame_types_def is_vlan_type_def)
  consider "tags = []" | t v where "tags = [(t, v)]" | t v t' v' where "tags = [(t, v), (t', v')]"
    using assms(2) by (force simp: le_Suc_eq numeral_2_eq_2 length_Suc_conv)
  then show ?thesis
  proof cases
    case 1
    then show ?thesis using last assms(7,8) by (intro exI [of _ s], cases pi) simp
  next
    case (2 t v)
    then have "4 \<le> unat (sp_cap s)" "4 \<le> unat (sp_wire s)" using assms(5,6) by simp_all
    then show ?thesis using assms(1,3,7,8,9) last types tag_built [of b s v ty t pi]
      by (intro exI [of _ "advance s 4"], cases pi) (simp add: 2 word_le_nat_alt unat_sub two)
  next
    case (3 t v t' v')
    let ?s = "advance s 4"
    let ?pi = "pi\<lparr>pi_vlan_ids := [ucast v AND 0x0FFF, 0], pi_vlan_count := 1\<rparr>"
    have st: "stands b (sp_p s) (put_vlan [] v t')" "stands b (sp_p s + 4) (put_vlan [] v' ty)"
      using assms(1) put_vlan_append [of "put_vlan [] v t'" v' ty] by (simp_all add: 3 stands_append)
    have cap: "4 \<le> sp_cap s" "4 \<le> sp_cap ?s" using assms(5) by (simp_all add: 3 word_le_nat_alt unat_sub)
    have 1: "vlan_tags b t s pi = vlan_tags b t' ?s ?pi"
      using tag_built [OF st(1) _ _ cap(1), of t pi] assms(3,7,8,9) types by (simp add: 3 two)
    have 2: "vlan_tags b t' ?s ?pi = vlan_tags b ty (advance ?s 4)
        (pi\<lparr>pi_vlan_ids := [ucast v AND 0x0FFF, ucast v' AND 0x0FFF], pi_vlan_count := 2\<rparr>)"
      using tag_built [of b ?s v' ty t' ?pi] st(2) cap(2) assms(3,9) types by (simp add: 3)
    have "8 \<le> unat (sp_cap s)" "8 \<le> unat (sp_wire s)" using assms(5,6) by (simp_all add: 3)
    then show ?thesis using 1 2 last
      by (intro exI [of _ "advance ?s 4"], cases pi) (simp add: 3 word_le_nat_alt unat_sub)
  qed
qed

section \<open>A G-PDU in UDP\<close>

definition gpdu_found :: "cuint \<Rightarrow> cuint \<Rightarrow> u32 \<Rightarrow> bool \<Rightarrow> u8 list \<Rightarrow> u8 list \<Rightarrow> cuint \<Rightarrow> cuint \<Rightarrow> packet_info \<Rightarrow> packet_info" where
  "gpdu_found sport dport teid iv6 isrc idst isport idport pi = pi\<lparr>pi_status := DEC_OK, pi_has_l4 := True,
     pi_src_port := ucast sport, pi_dst_port := ucast dport,
     pi_is_gtpu := True, pi_gtp_status := DEC_OK, pi_gtp_v1u := True, pi_gtp_flags := 0x30, pi_gtp_msg_type := 255,
     pi_gtp_msg_ok := True, pi_teid := teid, pi_has_inner := True, pi_inner_has_l4 := True, pi_gtp_nested := False,
     pi_inner_version := (if iv6 then 6 else 4), pi_inner_proto := 6,
     pi_inner_src := isrc @ replicate (16 - length isrc) 0, pi_inner_dst := idst @ replicate (16 - length idst) 0,
     pi_inner_src_port := ucast isport, pi_inner_dst_port := ucast idport\<rparr>"

lemma gpdu_built:
  assumes "stands b (sp_p s) (put_ip v6 [] 17 src dst (16 + n))" "stands b q (put_udp [] sport dport (8 + n))"
    "stands b (q + 8) (put_gtpu [] 0x30 255 n teid)" "stands b (q + 16) (put_ip iv6 [] 6 isrc idst m @ put_tcp [] isport idport flags)"
    "q = sp_p s + ip_hdr v6"
    "length src = addr_len v6" "length dst = addr_len v6" "length isrc = addr_len iv6" "length idst = addr_len iv6"
    "ucast sport = GTPU_PORT \<or> ucast dport = GTPU_PORT"
    "unat n = ip_hdr iv6 + unat m" "20 \<le> unat m" "unat n < 65400"
    "ip_hdr v6 + 16 + ip_hdr iv6 + 20 \<le> unat (sp_cap s)" "unat (sp_cap s) \<le> unat (sp_wire s)" "ip_hdr v6 + 16 + unat n \<le> unat (sp_wire s)"
    "pi_frag pi = FRAG_NONE" "pi_src_addr pi = replicate 16 0" "pi_dst_addr pi = replicate 16 0"
  shows "decode_payload b (if v6 then 0x86DD else 0x0800) s pi = Some (gpdu_found sport dport teid iv6 isrc idst isport idport
    (ip_found v6 17 src dst (pi\<lparr>pi_ethertype := (if v6 then 0x86DD else 0x0800), pi_has_l2 := True\<rparr>)))"
proof -
  let ?ty = "if v6 then 0x86DD else 0x0800 :: cuint"
  let ?pi1 = "pi\<lparr>pi_ethertype := ucast ?ty, pi_has_l2 := True\<rparr>"
  let ?pi2 = "ip_found v6 17 src dst ?pi1"
  let ?pi3 = "?pi2\<lparr>pi_src_port := ucast sport, pi_dst_port := ucast dport, pi_has_l4 := True\<rparr>"
  have num: "unat (8 + n) = 8 + unat n" "unat (16 + n) = 16 + unat n" using assms(13) by (simp_all add: unat_word_ariths)
  obtain s2 where s2: "(if v6 then decode_ipv6 b s ?pi1 else decode_ipv4 b s ?pi1) = decode_l4 b s2 ?pi2"
      "sp_p s2 = q" "unat (sp_wire s2) = 16 + unat n" "unat (sp_cap s2) = min (unat (sp_cap s) - ip_hdr v6) (16 + unat n)"
    using ip_built [OF assms(1,6,7), of ?pi1] assms(5,13-19) num by auto
  have wire: "sp_wire s2 = 8 + (8 + n)" using s2(3) num by (simp add: word_unat_eq_iff)
  have cap: "16 + ip_hdr iv6 + 20 \<le> unat (sp_cap s2)" "unat (sp_cap s2) \<le> unat (sp_wire s2)"
    using s2(3,4) assms(11,12,14) by simp_all
  have "decode_l4_udp b s2 ?pi2 = Some (DEC_OK, s2, ?pi3)"
    using assms(2,13,17) s2(2) num wire cap by (intro udp_built) (simp_all add: ip_found_def word_le_nat_alt)
  then have net: "decode_network b ?ty s ?pi1 = Some (DEC_OK, s2, ?pi3)"
    using s2(1) by (cases v6) (simp_all add: decode_network_def decode_l4_def ip_found_def)
  let ?s3 = "advance s2 8"
  let ?s4 = "clip (advance ?s3 8) n"
  let ?pi4 = "?pi3\<lparr>pi_status := DEC_OK, pi_is_gtpu := True\<rparr>"
  let ?pi5 = "?pi4\<lparr>pi_gtp_v1u := True, pi_gtp_flags := 0x30, pi_gtp_msg_type := 255, pi_teid := teid, pi_gtp_msg_ok := True\<rparr>"
  have s3: "unat (sp_cap ?s3) = unat (sp_cap s2) - 8" "unat (sp_wire ?s3) = 8 + unat n"
    using cap s2(3) by (simp_all add: unat_sub word_le_nat_alt)
  have gtpu: "decode_gtpu b ?s3 ?pi4 = decode_gtpu_inner b ?s4 ?pi5"
    using assms(3,13) s2(2) s3 cap by (intro gtpu_built) (simp_all add: word_le_nat_alt unat_sub)
  have s4: "unat (sp_wire ?s4) = unat n" "unat (sp_cap ?s4) = min (unat (sp_cap s2) - 16) (unat n)"
    using s3 cap s2(3) by (simp_all add: min_def word_le_nat_alt unat_sub)
  have inner: "stands b (sp_p ?s4) (put_ip iv6 [] 6 isrc idst m @ put_tcp [] isport idport flags)"
    using assms(4) s2(2) by (simp add: add.assoc)
  have fits: "ip_hdr iv6 + 20 \<le> unat (sp_cap ?s4)" "unat (sp_cap ?s4) \<le> unat (sp_wire ?s4)" "unat m < 65496" "20 \<le> unat m"
      "ip_hdr iv6 + unat m \<le> unat (sp_wire ?s4)"
    unfolding s4 using cap(1) assms(11-13) by simp_all
  obtain s5 where "decode_gtpu_inner b ?s4 ?pi5 = Some (DEC_OK, s5, ?pi5\<lparr>pi_has_inner := True,
      pi_inner_version := (if iv6 then 6 else 4), pi_inner_proto := 6, pi_inner_src := isrc @ replicate (16 - length isrc) 0,
      pi_inner_dst := idst @ replicate (16 - length idst) 0, pi_inner_has_l4 := True,
      pi_inner_src_port := ucast isport, pi_inner_dst_port := ucast idport, pi_gtp_nested := False\<rparr>)"
    using inner_built [OF inner assms(8,9) fits, of ?pi5] by blast
  note found = this
  have "16 \<le> sp_wire s2" using s2(3) by (simp add: word_le_nat_alt)
  then have payload: "decode_payload b ?ty s pi = do { (gst, s, pi) \<leftarrow> decode_gtpu b ?s3 ?pi4; Some (pi\<lparr>pi_gtp_status := gst\<rparr>) }"
    unfolding decode_payload_def net using assms(10,17) by (simp add: ip_found_def decode_is_gtpu_port_def)
  show ?thesis unfolding payload gtpu found
    by (cases pi; cases v6) (simp_all add: ip_found_def gpdu_found_def)
qed

section \<open>Whole frames\<close>

text \<open>A G-PDU with a TCP packet, on Ethernet with any tags and either version of IP, inside and outside; and the
  number of bytes up to the end of the last header.\<close>

definition gpdu_frame ::
    "(cuint \<times> cuint) list \<Rightarrow> bool \<Rightarrow> u8 list \<Rightarrow> u8 list \<Rightarrow> cuint \<Rightarrow> cuint \<Rightarrow> u32 \<Rightarrow>
     bool \<Rightarrow> u8 list \<Rightarrow> u8 list \<Rightarrow> cuint \<Rightarrow> cuint \<Rightarrow> cuint \<Rightarrow> u8 list \<Rightarrow> u8 list" where
  "gpdu_frame tags v6 src dst sport dport teid iv6 isrc idst isport idport flags data =
     (let user = put_tcp (put_ip iv6 [] 6 isrc idst (20 + of_nat (length data))) isport idport flags @ data;
          n = of_nat (length user);
          ty = (if v6 then 0x86DD else 0x0800);
          b = put_tags (put_eth [] (outer_type tags ty)) tags ty;
          b = put_ip v6 b 17 src dst (16 + n);
          b = put_udp b sport dport (8 + n);
          b = put_gtpu b 0x30 255 n teid
      in b @ user)"

definition gpdu_headers :: "(cuint \<times> cuint) list \<Rightarrow> bool \<Rightarrow> bool \<Rightarrow> nat" where
  "gpdu_headers tags v6 iv6 = 14 + 4 * length tags + ip_hdr v6 + 16 + ip_hdr iv6 + 20"

lemma gpdu_frame_parts:
  fixes data :: "u8 list" and iv6 :: bool
  defines "m \<equiv> 20 + of_nat (length data)" and "n \<equiv> of_nat (ip_hdr iv6 + 20 + length data)"
  assumes "length src = addr_len v6" "length dst = addr_len v6" "length isrc = addr_len iv6" "length idst = addr_len iv6"
    "frame = gpdu_frame tags v6 src dst sport dport teid iv6 isrc idst isport idport flags data"
    "ty = (if v6 then 0x86DD else 0x0800)" "p = 14 + 4 * length tags" "q = p + ip_hdr v6"
  shows "stands frame 0 (put_eth [] (outer_type tags ty))" "stands frame 14 (put_tags [] tags ty)"
    "stands frame p (put_ip v6 [] 17 src dst (16 + n))" "stands frame q (put_udp [] sport dport (8 + n))"
    "stands frame (q + 8) (put_gtpu [] 0x30 255 n teid)"
    "stands frame (q + 16) (put_ip iv6 [] 6 isrc idst m @ put_tcp [] isport idport flags)"
    "length frame = q + 16 + ip_hdr iv6 + 20 + length data"
proof -
  let ?eth = "put_eth [] (outer_type tags ty)" and ?tags = "put_tags [] tags ty" and ?ip = "put_ip v6 [] 17 src dst (16 + n)"
    and ?udp = "put_udp [] sport dport (8 + n)" and ?gtpu = "put_gtpu [] 0x30 255 n teid"
    and ?user = "put_ip iv6 [] 6 isrc idst m @ put_tcp [] isport idport flags"
  have user: "put_tcp (put_ip iv6 [] 6 isrc idst m) isport idport flags = ?user" by (rule put_tcp_append)
  have n: "n = of_nat (length (?user @ data))" using assms(5,6) by (simp add: n_def)
  have frame: "frame = ?eth @ ?tags @ ?ip @ ?udp @ ?gtpu @ ?user @ data"
    unfolding assms(7) gpdu_frame_def Let_def m_def [symmetric] user n [symmetric] assms(8) [symmetric]
      put_gtpu_append [of "put_udp _ _ _ _"] put_udp_append [of "put_ip _ _ _ _ _ _"] put_ip_append [of _ "put_eth _ _ @ put_tags _ _ _"]
      put_tags_append [of "put_eth _ _"]
    by (simp only: append.assoc)
  have "stands frame 0 frame" unfolding stands_def by (intro exI [of _ "[]"]) simp
  then have "stands frame 0 (?eth @ ?tags @ ?ip @ ?udp @ ?gtpu @ ?user @ data)" unfolding frame .
  then show "stands frame 0 ?eth" "stands frame 14 ?tags" "stands frame p ?ip" "stands frame q ?udp" "stands frame (q + 8) ?gtpu"
      "stands frame (q + 16) ?user"
    unfolding stands_append [of _ _ _ "_ @ data"] using assms(3-6,9,10) by (simp_all add: stands_append ac_simps)
  show "length frame = q + 16 + ip_hdr iv6 + 20 + length data"
    unfolding frame using assms(3-6,9,10) by simp
qed

definition with_tags :: "(cuint \<times> cuint) list \<Rightarrow> packet_info \<Rightarrow> packet_info" where
  "with_tags tags pi = pi\<lparr>pi_vlan_count := of_nat (length tags),
     pi_vlan_ids := map (\<lambda>tag. ucast (snd tag) AND 0x0FFF) tags @ replicate (2 - length tags) 0\<rparr>"

text \<open>From the Ethernet header to the IP header.\<close>

lemma ethernet_built:
  assumes "stands b 0 (put_eth [] (outer_type tags ty))" "stands b 14 (put_tags [] tags ty)"
    "length tags \<le> 2" "\<forall>tag\<in>set tags. is_vlan_type (fst tag)" "ty = 0x0800 \<or> ty = 0x86DD"
    "14 + 4 * length tags \<le> unat caplen" "unat caplen \<le> unat wirelen"
  shows "\<exists>s. decode_frame b caplen wirelen = decode_payload b ty s (with_tags tags packet_info0) \<and> sp_p s = 14 + 4 * length tags \<and>
    unat (sp_wire s) = unat wirelen - 14 - 4 * length tags \<and> unat (sp_cap s) = unat caplen - 14 - 4 * length tags"
proof -
  let ?s0 = "\<lparr>sp_p = 0, sp_cap = caplen, sp_wire = wirelen\<rparr>"
  have wire: "(if wirelen > caplen then wirelen else caplen) = wirelen"
    using assms(7) by (auto simp: word_less_nat_alt word_unat_eq_iff)
  have s1: "unat (sp_cap (advance ?s0 14)) = unat caplen - 14" "unat (sp_wire (advance ?s0 14)) = unat wirelen - 14"
    using assms(6,7) by (simp_all add: unat_sub word_le_nat_alt)
  have start: "stands b (sp_p (advance ?s0 14)) (put_tags [] tags ty)"
    and bounds: "4 * length tags \<le> unat (sp_cap (advance ?s0 14))" "unat (sp_cap (advance ?s0 14)) \<le> unat (sp_wire (advance ?s0 14))"
    and fresh: "pi_vlan_count packet_info0 = 0" "pi_vlan_ids packet_info0 = replicate 2 0" "pi_status packet_info0 = DEC_OK"
    unfolding s1 using assms(2,6,7) by (simp_all add: packet_info0_def)
  obtain s where s: "vlan_tags b (outer_type tags ty) (advance ?s0 14) packet_info0 = Some (Some ty, s, with_tags tags packet_info0)"
      "sp_p s = 14 + 4 * length tags" "unat (sp_wire s) = unat wirelen - 14 - 4 * length tags" "unat (sp_cap s) = unat caplen - 14 - 4 * length tags"
    using tags_built [OF start assms(3-5) bounds fresh] unfolding s1 with_tags_def by auto
  have "load_be16 b 12 = Some (ucast (outer_type tags ty))"
    using stands_be16 [OF assms(1), of 12] by (simp add: put_eth_def Let_def bb_bytes_of be16_enc)
  moreover have "outer_type tags ty \<in> frame_types"
    using assms(4,5) by (cases tags) (auto simp: frame_types_def is_vlan_type_def)
  moreover have "14 \<le> caplen" using assms(6) by (simp add: word_le_nat_alt)
  moreover have "packet_info0\<lparr>pi_status := DEC_OK\<rparr> = packet_info0" by (simp add: packet_info0_def)
  ultimately have "decode_frame b caplen wirelen = decode_payload b ty s (with_tags tags packet_info0)"
    unfolding decode_frame_def wire Let_def using s(1) frame_type_field [of "outer_type tags ty"] by (simp add: need_def)
  then show ?thesis using s(2-4) by blast
qed

lemma gpdu_frame_decoded:
  assumes "length tags \<le> 2" "\<forall>tag\<in>set tags. is_vlan_type (fst tag)"
    "length src = addr_len v6" "length dst = addr_len v6" "length isrc = addr_len iv6" "length idst = addr_len iv6"
    "ucast sport = GTPU_PORT \<or> ucast dport = GTPU_PORT" "length data \<le> 65000"
    "frame = gpdu_frame tags v6 src dst sport dport teid iv6 isrc idst isport idport flags data"
    "gpdu_headers tags v6 iv6 \<le> unat caplen" "unat caplen \<le> length frame"
  shows "decode_frame frame caplen (of_nat (length frame)) = Some (gpdu_found sport dport teid iv6 isrc idst isport idport
    (ip_found v6 17 src dst ((with_tags tags packet_info0)\<lparr>pi_ethertype := (if v6 then 0x86DD else 0x0800), pi_has_l2 := True\<rparr>)))"
proof -
  let ?ty = "if v6 then 0x86DD else 0x0800 :: cuint" and ?L = "length frame"
  let ?m = "20 + of_nat (length data) :: size_t" and ?n = "of_nat (ip_hdr iv6 + 20 + length data) :: size_t"
  note part = gpdu_frame_parts [OF assms(3-6,9) refl refl refl]
  have hdr: "ip_hdr v6 \<le> 40" "ip_hdr iv6 \<le> 40" by (simp_all add: ip_hdr_def)
  have num: "unat ?m = 20 + length data" "unat ?n = ip_hdr iv6 + 20 + length data" "unat (of_nat ?L :: size_t) = ?L"
    using assms(1,8) hdr part(7) by (simp_all add: unat_of_nat unat_word_ariths)
  have cap: "14 + 4 * length tags + ip_hdr v6 + 16 + ip_hdr iv6 + 20 \<le> unat caplen" "unat caplen \<le> ?L"
    using assms(10,11) by (simp_all add: gpdu_headers_def)
  have eth: "?ty = 0x0800 \<or> ?ty = 0x86DD" "14 + 4 * length tags \<le> unat caplen" "unat caplen \<le> unat (of_nat ?L :: size_t)"
    using cap num(3) by simp_all
  from ethernet_built [OF part(1,2) assms(1,2) eth] obtain s where
    s: "decode_frame frame caplen (of_nat ?L) = decode_payload frame ?ty s (with_tags tags packet_info0)" "sp_p s = 14 + 4 * length tags"
      "unat (sp_wire s) = ?L - 14 - 4 * length tags" "unat (sp_cap s) = unat caplen - 14 - 4 * length tags"
    unfolding num(3) by blast
  have fits: "ip_hdr v6 + 16 + ip_hdr iv6 + 20 \<le> unat (sp_cap s)" "unat (sp_cap s) \<le> unat (sp_wire s)"
      "ip_hdr v6 + 16 + unat ?n \<le> unat (sp_wire s)" "unat ?n < 65400" "unat ?n = ip_hdr iv6 + unat ?m" "20 \<le> unat ?m"
    unfolding s(3,4) num using cap part(7) hdr assms(8) by simp_all
  have at: "stands frame (sp_p s) (put_ip v6 [] 17 src dst (16 + ?n))" and q: "14 + 4 * length tags + ip_hdr v6 = sp_p s + ip_hdr v6"
    using part(3) s(2) by simp_all
  show ?thesis unfolding s(1)
    by (rule gpdu_built [OF at part(4-6) q assms(3-7) fits(5,6,4,1,2,3)]) (simp_all add: with_tags_def packet_info0_def)
qed

text \<open>
  C40. A well-formed frame is understood. Take any G-PDU that carries a TCP packet, put together by the functions of
  \<open>tests/builder.c\<close>: up to two VLAN tags with any ids and any of the three ethertypes of tags, IPv4 or IPv6 outside and inside, any
  addresses, any UDP ports one of which is GTP-U's, any TEID, any TCP ports and flags, and up to 65000 bytes of any data. Capture
  at least its headers. Then \<open>decode_frame\<close> reports no problem and finds exactly what has been put in, each value in
  its member: the tags, the outer packet with addresses and ports, the GTP-U header, and the user packet with its own;
  every other member is zero, so the fields of one layer never show up in another one.
\<close>

theorem decode_gpdu_frame:
  assumes "length tags \<le> 2" "\<forall>tag\<in>set tags. is_vlan_type (fst tag)"
    "length src = addr_len v6" "length dst = addr_len v6" "length isrc = addr_len iv6" "length idst = addr_len iv6"
    "ucast sport = GTPU_PORT \<or> ucast dport = GTPU_PORT" "length data \<le> 65000"
    "frame = gpdu_frame tags v6 src dst sport dport teid iv6 isrc idst isport idport flags data"
    "gpdu_headers tags v6 iv6 \<le> unat caplen" "unat caplen \<le> length frame"
  shows "decode_frame frame caplen (of_nat (length frame)) = Some (packet_info0\<lparr>
     pi_has_l2 := True, pi_has_l3 := True, pi_has_l4 := True, pi_ethertype := (if v6 then 0x86DD else 0x0800),
     pi_vlan_count := of_nat (length tags),
     pi_vlan_ids := map (\<lambda>tag. ucast (snd tag) AND 0x0FFF) tags @ replicate (2 - length tags) 0,
     pi_ip_version := (if v6 then 6 else 4), pi_ip_proto := 17,
     pi_src_addr := src @ replicate (16 - length src) 0, pi_dst_addr := dst @ replicate (16 - length dst) 0,
     pi_frag_id := (if v6 then 0 else 0x1234), pi_src_port := ucast sport, pi_dst_port := ucast dport,
     pi_is_gtpu := True, pi_gtp_v1u := True, pi_gtp_flags := 0x30, pi_gtp_msg_type := 255, pi_gtp_msg_ok := True, pi_teid := teid,
     pi_has_inner := True, pi_inner_has_l4 := True, pi_inner_version := (if iv6 then 6 else 4), pi_inner_proto := 6,
     pi_inner_src := isrc @ replicate (16 - length isrc) 0, pi_inner_dst := idst @ replicate (16 - length idst) 0,
     pi_inner_src_port := ucast isport, pi_inner_dst_port := ucast idport\<rparr>)"
  unfolding gpdu_frame_decoded [OF assms]
  by (simp add: packet_info0_def with_tags_def ip_found_def gpdu_found_def)

theorem decode_gpdu_frame_witness:
  "\<exists>pi. decode_frame (gpdu_frame [(0x8100, 100)] False TEST_V4_A TEST_V4_B 2152 40000 7 True TEST_V6_A TEST_V6_B 443 50000 2 [1, 2, 3]) 114 117
     = Some pi \<and> pi_status pi = DEC_OK \<and> pi_vlan_ids pi = [100, 0] \<and> pi_src_port pi = 2152 \<and> pi_teid pi = 7 \<and>
       pi_inner_src pi = TEST_V6_A \<and> pi_inner_src_port pi = 443"
proof -
  define frame where "frame = gpdu_frame [(0x8100, 100)] False TEST_V4_A TEST_V4_B 2152 40000 7 True TEST_V6_A TEST_V6_B 443 50000 2 [1, 2, 3]"
  have tags: "length [(0x8100 :: cuint, 100 :: cuint)] \<le> 2" "\<forall>tag\<in>set [(0x8100 :: cuint, 100 :: cuint)]. is_vlan_type (fst tag)"
    by (simp_all add: is_vlan_type_def)
  have addrs: "length TEST_V4_A = addr_len False" "length TEST_V4_B = addr_len False"
      "length TEST_V6_A = addr_len True" "length TEST_V6_B = addr_len True"
    by (simp_all add: TEST_V4_A_def TEST_V4_B_def TEST_V6_A_def TEST_V6_B_def addr_len_def)
  have port: "ucast (2152 :: cuint) = (2152 :: u16) \<or> ucast (40000 :: cuint) = (2152 :: u16)" by simp
  have data: "length [1, 2, 3 :: u8] \<le> 65000" by simp
  have len: "length frame = 117" using gpdu_frame_parts(7) [OF addrs frame_def refl refl refl] by (simp add: ip_hdr_def)
  have cap: "gpdu_headers [(0x8100, 100)] False True \<le> unat (114 :: size_t)" "unat (114 :: size_t) \<le> length frame"
    unfolding len by (simp_all add: gpdu_headers_def ip_hdr_def)
  note found = decode_gpdu_frame [OF tags addrs port data frame_def cap, unfolded len of_nat_numeral]
  have addr: "TEST_V6_A @ replicate (16 - length TEST_V6_A) 0 = TEST_V6_A" unfolding addrs by (simp add: addr_len_def)
  show ?thesis unfolding frame_def [symmetric] found addr by (simp add: packet_info0_def)
qed

end
