(* ===== verification/Hash.thy ===== *)
theory Hash
  imports Prelude
begin

text \<open>
  \<open>hash.h\<close>: 64-bit FNV-1a, the hash of the flow table and of the fragment cache. The
  \<open>n\<close> bytes at \<open>p\<close> are given as a list; the multiplication wraps at 64 bits.
\<close>

abbreviation (input) FNV64_OFFSET :: u64 where "FNV64_OFFSET \<equiv> 0xcbf29ce484222325"
abbreviation (input) FNV64_PRIME :: u64 where "FNV64_PRIME \<equiv> 0x100000001b3"

primrec fnv1a :: "u64 \<Rightarrow> u8 list \<Rightarrow> u64" where
  "fnv1a h [] = h"
| "fnv1a h (x # xs) = fnv1a ((h XOR ucast x) * FNV64_PRIME) xs"

text \<open>Hashing field after field is hashing the concatenation of the fields.\<close>

lemma fnv1a_append: "fnv1a h (xs @ ys) = fnv1a (fnv1a h xs) ys"
  by (induction xs arbitrary: h) simp_all

text \<open>A hash masked with \<open>2 ^ k - 1\<close> is an index below \<open>2 ^ k\<close>.\<close>

lemma mask_mod: "unat (h AND (2 ^ k - 1) :: size_t) = unat h mod 2 ^ k" if "k < 64"
proof -
  have "h AND (2 ^ k - 1) = take_bit k h"
    by (simp add: take_bit_eq_mask mask_eq_exp_minus_1)
  then have "unat (h AND (2 ^ k - 1)) = take_bit k (unat h)" by (simp only: unsigned_take_bit_eq)
  then show ?thesis by (simp only: take_bit_eq_mod)
qed

lemma mask_index: "unat (h AND (2 ^ k - 1) :: size_t) < 2 ^ k" if "k < 64"
  by (simp add: mask_mod [OF that])

text \<open>The same with the table's capacity, and the step to the next slot.\<close>

lemma power_of_two_word: "unat c = 2 ^ k \<Longrightarrow> c = 2 ^ k" for c :: size_t
  by (metis of_nat_numeral of_nat_power of_nat_unat ucast_id)

lemma cap_mod: "k < 64 \<Longrightarrow> unat c = 2 ^ k \<Longrightarrow> unat (h AND (c - 1) :: size_t) = unat h mod 2 ^ k"
  using mask_mod [of k h] power_of_two_word [of c k] by simp

lemma cap_step:
  "k < 64 \<Longrightarrow> unat c = 2 ^ k \<Longrightarrow> unat ((i + 1) AND (c - 1) :: size_t) = (unat i + 1) mod 2 ^ k"
proof -
  assume k: "k < 64" "unat c = 2 ^ k"
  then have "(2 :: nat) ^ k dvd 2 ^ 64" by (intro le_imp_power_dvd) simp
  then have "(unat i + 1) mod 2 ^ 64 mod 2 ^ k = (unat i + 1) mod 2 ^ k" by (rule mod_mod_cancel)
  then show ?thesis using k by (simp add: cap_mod unat_word_ariths)
qed

end
