(* ===== verification/Frag.thy ===== *)
theory Frag
  imports Decode_Frame Cmp Hash
begin

text \<open>
  \<open>frag.h\<close> and \<open>frag.c\<close>: the direct-mapped cache that gives later fragments the
  ports of their datagram. \<open>malloc\<close> may fail, so \<open>frag_cache_init\<close> takes whether it
  succeeds. An access outside the slot array has no value.
\<close>

section \<open>The cache\<close>

abbreviation (input) FRAG_CACHE_SLOTS :: size_t where "FRAG_CACHE_SLOTS \<equiv> 4096"

record frag_entry =
  e_in_use :: bool
  e_ip_version :: u8
  e_proto :: u8
  e_id :: u32
  e_src :: "u8 list"
  e_dst :: "u8 list"
  e_src_port :: u16
  e_dst_port :: u16

record frag_cache =
  c_slots :: "frag_entry list option"

text \<open>A slot of zeroed memory, as \<open>calloc\<close> returns it.\<close>

definition frag_entry0 :: frag_entry where
  "frag_entry0 = \<lparr>e_in_use = False, e_ip_version = 0, e_proto = 0, e_id = 0,
     e_src = replicate 16 0, e_dst = replicate 16 0, e_src_port = 0, e_dst_port = 0\<rparr>"

definition frag_cache_init :: "bool \<Rightarrow> int \<times> frag_cache" where
  "frag_cache_init alloc =
     (let c = \<lparr>c_slots = (if alloc then Some (replicate (unat FRAG_CACHE_SLOTS) frag_entry0) else None)\<rparr>
      in (if c_slots c = None then -1 else 0, c))"

definition frag_cache_free :: "frag_cache \<Rightarrow> frag_cache" where
  "frag_cache_free c = c\<lparr>c_slots := None\<rparr>"

definition slot_for :: "packet_info \<Rightarrow> size_t" where
  "slot_for pi =
     (let head = [pi_ip_version pi, pi_ip_proto pi,
                  ucast (drop_bit 24 (pi_frag_id pi)), ucast (drop_bit 16 (pi_frag_id pi)),
                  ucast (drop_bit 8 (pi_frag_id pi)), ucast (pi_frag_id pi)];
          h = fnv1a FNV64_OFFSET head;
          h = fnv1a h (pi_src_addr pi);
          h = fnv1a h (pi_dst_addr pi)
      in h AND (FRAG_CACHE_SLOTS - 1))"

definition same_datagram :: "frag_entry \<Rightarrow> packet_info \<Rightarrow> bool" where
  "same_datagram e pi \<longleftrightarrow> e_in_use e \<and> e_ip_version e = pi_ip_version pi \<and>
     e_proto e = pi_ip_proto pi \<and> e_id e = pi_frag_id pi \<and>
     memcmp 16 (e_src e) (pi_src_addr pi) = 0 \<and>
     memcmp 16 (e_dst e) (pi_dst_addr pi) = 0"

text \<open>The stores of the first branch of \<open>frag_cache_apply\<close>.\<close>

definition frag_record :: "packet_info \<Rightarrow> frag_entry" where
  "frag_record pi = \<lparr>e_in_use = True, e_ip_version = pi_ip_version pi, e_proto = pi_ip_proto pi,
     e_id = pi_frag_id pi, e_src = pi_src_addr pi, e_dst = pi_dst_addr pi,
     e_src_port = pi_src_port pi, e_dst_port = pi_dst_port pi\<rparr>"

definition frag_cache_apply ::
    "frag_cache \<Rightarrow> packet_info \<Rightarrow> (bool \<times> frag_cache \<times> packet_info) option" where
  "frag_cache_apply c pi =
     (case c_slots c of
        None \<Rightarrow> Some (False, c, pi)
      | Some slots \<Rightarrow>
        if pi_status pi \<noteq> DEC_OK \<or> \<not> pi_has_l3 pi then Some (False, c, pi)
        else if pi_frag pi = FRAG_FIRST \<and> pi_has_l4 pi then do {
          slots' \<leftarrow> wr slots (unat (slot_for pi)) (frag_record pi);
          Some (False, c\<lparr>c_slots := Some slots'\<rparr>, pi) }
        else if pi_frag pi = FRAG_LATER then
          if unat (slot_for pi) < length slots then
            let e = slots ! unat (slot_for pi) in
            if \<not> same_datagram e pi then Some (False, c, pi)
            else Some (True, c, pi\<lparr>pi_src_port := e_src_port e, pi_dst_port := e_dst_port e\<rparr>)
          else None
        else Some (False, c, pi))"

section \<open>Direct-mapped caches\<close>

text \<open>
  The abstract cache holds whole packets: a packet goes to the one slot of its key and
  replaces what was there. The laws are that slots are in range and that a key has one
  slot only.
\<close>

definition dm_feed :: "('p \<Rightarrow> nat) \<Rightarrow> nat \<Rightarrow> 'p list \<Rightarrow> 'p option list" where
  "dm_feed slot n ps = foldl (\<lambda>c p. c[slot p := Some p]) (replicate n None) ps"

text \<open>The most recent element with a property.\<close>

definition latest :: "('p \<Rightarrow> bool) \<Rightarrow> 'p list \<Rightarrow> 'p option" where
  "latest P ps = find P (rev ps)"

lemma latest_snoc [simp]: "latest P (ps @ [p]) = (if P p then Some p else latest P ps)"
  by (simp add: latest_def)

lemma latest_Nil [simp]: "latest P [] = None"
  by (simp add: latest_def)

lemma dm_feed_snoc: "dm_feed slot n (ps @ [p]) = (dm_feed slot n ps)[slot p := Some p]"
  by (simp add: dm_feed_def)

lemma length_dm_feed [simp]: "length (dm_feed slot n ps) = n"
  by (induction ps rule: rev_induct) (auto simp: dm_feed_snoc, simp add: dm_feed_def)

locale direct_mapped =
  fixes slot :: "'p \<Rightarrow> nat" and key :: "'p \<Rightarrow> 'k" and n :: nat
  assumes slot_less: "slot p < n"
    and slot_key: "key p = key q \<Longrightarrow> slot p = slot q"
begin

lemma slot_holds: "dm_feed slot n ps ! slot q = latest (\<lambda>p. slot p = slot q) ps"
proof (induction ps rule: rev_induct)
  case (snoc p ps)
  then show ?case using slot_less [of p] by (simp add: dm_feed_snoc nth_list_update)
qed (simp add: dm_feed_def slot_less)

lemma latest_key:
  "latest (\<lambda>p. slot p = slot q) ps = Some p \<Longrightarrow> key p = key q \<Longrightarrow> latest (\<lambda>p. key p = key q) ps = Some p"
  by (induction ps rule: rev_induct) (auto split: if_splits dest: slot_key)

end

section \<open>The fragment cache as a direct-mapped cache\<close>

type_synonym frag_key = "u8 \<times> u8 \<times> u32 \<times> u8 list \<times> u8 list"

definition datagram :: "packet_info \<Rightarrow> frag_key" where
  "datagram pi = (pi_ip_version pi, pi_ip_proto pi, pi_frag_id pi, pi_src_addr pi, pi_dst_addr pi)"

definition records_ports :: "packet_info \<Rightarrow> bool" where
  "records_ports pi \<longleftrightarrow> pi_status pi = DEC_OK \<and> pi_has_l3 pi \<and> pi_frag pi = FRAG_FIRST \<and> pi_has_l4 pi"

lemma slot_for_less: "unat (slot_for pi) < 4096"
  using mask_index [of 12] by (simp add: slot_for_def Let_def)

interpretation frag_dm: direct_mapped "\<lambda>pi. unat (slot_for pi)" datagram 4096
proof
  show "unat (slot_for p) = unat (slot_for q)" if "datagram p = datagram q" for p q
    using that by (simp add: datagram_def slot_for_def Let_def)
qed (rule slot_for_less)

text \<open>The concrete cache represents an abstract one slot by slot.\<close>

definition frag_slot :: "packet_info option \<Rightarrow> frag_entry" where
  "frag_slot p = (case p of None \<Rightarrow> frag_entry0 | Some pi \<Rightarrow> frag_record pi)"

definition frag_rep :: "frag_cache \<Rightarrow> packet_info list \<Rightarrow> bool" where
  "frag_rep c ps \<longleftrightarrow>
     c_slots c = Some (map frag_slot (dm_feed (\<lambda>pi. unat (slot_for pi)) 4096 (filter records_ports ps)))"

lemma frag_rep_init: "frag_rep (snd (frag_cache_init True)) []"
  by (simp add: frag_rep_def frag_cache_init_def dm_feed_def frag_slot_def)

lemma same_datagram_record:
  "addr_ok q \<Longrightarrow> addr_ok pi \<Longrightarrow> same_datagram (frag_record q) pi \<longleftrightarrow> datagram q = datagram pi"
  by (auto simp: same_datagram_def frag_record_def datagram_def addr_ok_def)

lemma not_same_datagram0 [simp]: "\<not> same_datagram frag_entry0 pi"
  by (simp add: same_datagram_def frag_entry0_def)

lemma frag_slot_at:
  "map frag_slot (dm_feed (\<lambda>pi. unat (slot_for pi)) 4096 ps) ! unat (slot_for pi) =
   frag_slot (latest (\<lambda>q. unat (slot_for q) = unat (slot_for pi)) ps)"
  using slot_for_less [of pi] by (simp add: frag_dm.slot_holds)

text \<open>The cache's ports for a later fragment: those of the most recent first fragment in
  its slot, if that one belongs to the same datagram.\<close>

definition borrowed :: "packet_info list \<Rightarrow> packet_info \<Rightarrow> packet_info option" where
  "borrowed ps pi =
     (case latest (\<lambda>q. unat (slot_for q) = unat (slot_for pi)) (filter records_ports ps) of
        Some q \<Rightarrow> if datagram q = datagram pi then Some q else None
      | None \<Rightarrow> None)"

lemma latest_SomeD: "latest P ps = Some q \<Longrightarrow> q \<in> set ps \<and> P q"
  by (induction ps rule: rev_induct) (auto split: if_splits)

lemma borrowed_latest:
  "borrowed ps pi = Some q \<Longrightarrow> latest (\<lambda>q. datagram q = datagram pi) (filter records_ports ps) = Some q"
  by (auto simp: borrowed_def intro!: frag_dm.latest_key split: option.splits if_splits)

lemma frag_apply_record:
  assumes "frag_rep c ps" "records_ports pi"
  shows "\<exists>c'. frag_cache_apply c pi = Some (False, c', pi) \<and> frag_rep c' (ps @ [pi])"
  using assms slot_for_less [of pi]
  by (auto simp: frag_cache_apply_def records_ports_def frag_rep_def wr_def dm_feed_snoc map_update frag_slot_def)

lemma frag_apply_other:
  assumes "frag_rep c ps" "\<not> records_ports pi"
    "\<not> (pi_status pi = DEC_OK \<and> pi_has_l3 pi \<and> pi_frag pi = FRAG_LATER)"
  shows "frag_cache_apply c pi = Some (False, c, pi) \<and> frag_rep c (ps @ [pi])"
  using assms by (auto simp: frag_cache_apply_def frag_rep_def records_ports_def)

lemma frag_apply_later:
  assumes rep: "frag_rep c ps" and ok: "\<forall>p\<in>set ps. addr_ok p" "addr_ok pi"
    and later: "pi_status pi = DEC_OK" "pi_has_l3 pi" "pi_frag pi = FRAG_LATER"
  shows "frag_cache_apply c pi = Some (case borrowed ps pi of
       None \<Rightarrow> (False, c, pi)
     | Some q \<Rightarrow> (True, c, pi\<lparr>pi_src_port := pi_src_port q, pi_dst_port := pi_dst_port q\<rparr>)) \<and>
    frag_rep c (ps @ [pi])"
proof -
  let ?slots = "map frag_slot (dm_feed (\<lambda>pi. unat (slot_for pi)) 4096 (filter records_ports ps))"
  let ?l = "latest (\<lambda>q. unat (slot_for q) = unat (slot_for pi)) (filter records_ports ps)"
  have slots: "c_slots c = Some ?slots" "unat (slot_for pi) < length ?slots" "?slots ! unat (slot_for pi) = frag_slot ?l"
    using rep slot_for_less [of pi] frag_slot_at by (simp_all add: frag_rep_def)
  have run: "frag_cache_apply c pi = Some (if same_datagram (frag_slot ?l) pi
     then (True, c, pi\<lparr>pi_src_port := e_src_port (frag_slot ?l), pi_dst_port := e_dst_port (frag_slot ?l)\<rparr>)
     else (False, c, pi))"
    using later slots(2) unfolding frag_cache_apply_def slots(1) option.case slots(3) by (simp add: Let_def)
  have rep': "frag_rep c (ps @ [pi])"
    using rep later by (simp add: frag_rep_def records_ports_def)
  show ?thesis
  proof (cases ?l)
    case None
    then have "borrowed ps pi = None" by (simp add: borrowed_def)
    with None run rep' show ?thesis by (simp add: frag_slot_def)
  next
    case (Some q)
    then have "addr_ok q" using ok latest_SomeD [OF Some] by simp
    then have "borrowed ps pi = (if same_datagram (frag_slot ?l) pi then Some q else None)"
      using Some ok(2) by (simp add: borrowed_def frag_slot_def same_datagram_record)
    with Some run rep' show ?thesis by (simp add: frag_slot_def frag_record_def)
  qed
qed

text \<open>One packet through the cache, in terms of the packets before it.\<close>

definition later_ok :: "packet_info \<Rightarrow> bool" where
  "later_ok pi \<longleftrightarrow> pi_status pi = DEC_OK \<and> pi_has_l3 pi \<and> pi_frag pi = FRAG_LATER"

definition frag_matches :: "packet_info list \<Rightarrow> packet_info \<Rightarrow> bool" where
  "frag_matches ps pi \<longleftrightarrow> later_ok pi \<and> borrowed ps pi \<noteq> None"

definition attribute :: "packet_info list \<Rightarrow> packet_info \<Rightarrow> packet_info" where
  "attribute ps pi = (if later_ok pi
     then case borrowed ps pi of None \<Rightarrow> pi | Some q \<Rightarrow> pi\<lparr>pi_src_port := pi_src_port q, pi_dst_port := pi_dst_port q\<rparr>
     else pi)"

lemma frag_apply_attribute:
  assumes "frag_rep c ps" "\<forall>p\<in>set ps. addr_ok p" "addr_ok pi"
  shows "\<exists>c'. frag_cache_apply c pi = Some (frag_matches ps pi, c', attribute ps pi) \<and> frag_rep c' (ps @ [pi])"
proof -
  consider "records_ports pi" | "later_ok pi" | "\<not> records_ports pi" "\<not> later_ok pi" by blast
  then show ?thesis
  proof cases
    case 1
    then have "\<not> later_ok pi" by (simp add: records_ports_def later_ok_def)
    with 1 frag_apply_record [OF assms(1) 1] show ?thesis by (simp add: attribute_def frag_matches_def)
  next
    case 2
    with frag_apply_later [OF assms] show ?thesis
      by (auto simp: later_ok_def attribute_def frag_matches_def split: option.split)
  next
    case 3
    then have "frag_cache_apply c pi = Some (False, c, pi) \<and> frag_rep c (ps @ [pi])"
      by (intro frag_apply_other [OF assms(1)]) (simp_all add: later_ok_def)
    with 3 show ?thesis by (simp add: attribute_def frag_matches_def)
  qed
qed

text \<open>The history of packets fed to the cache.\<close>

primrec frag_run :: "frag_cache \<Rightarrow> packet_info list \<Rightarrow> frag_cache option" where
  "frag_run c [] = Some c"
| "frag_run c (p # ps) = do { (m, c', p') \<leftarrow> frag_cache_apply c p; frag_run c' ps }"

lemma frag_apply_step:
  assumes "frag_rep c ps" "\<forall>p\<in>set ps. addr_ok p" "addr_ok pi"
  shows "\<exists>m c' pi'. frag_cache_apply c pi = Some (m, c', pi') \<and> frag_rep c' (ps @ [pi]) \<and>
    (\<exists>sp dp. pi' = pi\<lparr>pi_src_port := sp, pi_dst_port := dp\<rparr>) \<and> (pi_frag pi \<noteq> FRAG_LATER \<longrightarrow> pi' = pi \<and> \<not> m)"
proof -
  have self: "\<exists>sp dp. pi = pi\<lparr>pi_src_port := sp, pi_dst_port := dp\<rparr>"
    by (rule exI [of _ "pi_src_port pi"], rule exI [of _ "pi_dst_port pi"]) simp
  consider "records_ports pi" | "pi_status pi = DEC_OK" "pi_has_l3 pi" "pi_frag pi = FRAG_LATER"
    | "\<not> records_ports pi" "\<not> (pi_status pi = DEC_OK \<and> pi_has_l3 pi \<and> pi_frag pi = FRAG_LATER)"
    by blast
  then show ?thesis
  proof cases
    case 1
    with frag_apply_record [OF assms(1)] self show ?thesis by blast
  next
    case 2
    from frag_apply_later [OF assms 2] 2 self show ?thesis by (auto split: option.splits)
  next
    case 3
    with frag_apply_other [OF assms(1)] self show ?thesis by blast
  qed
qed

lemma frag_run_rep:
  assumes "frag_rep c qs" "\<forall>p\<in>set qs. addr_ok p" "\<forall>p\<in>set ps. addr_ok p"
  shows "\<exists>c'. frag_run c ps = Some c' \<and> frag_rep c' (qs @ ps)"
  using assms
proof (induction ps arbitrary: c qs)
  case (Cons p ps)
  obtain m c1 p1 where step: "frag_cache_apply c p = Some (m, c1, p1)" "frag_rep c1 (qs @ [p])"
    using frag_apply_step [OF Cons.prems(1,2), of p] Cons.prems(3) by auto
  with Cons.IH [OF step(2)] Cons.prems show ?case by auto
qed simp

section \<open>Properties\<close>

text \<open>
  C17. Attribution of fragments. After any sequence of packets through a fresh cache, a
  later fragment is given ports exactly when the most recent first fragment in its slot is
  one of its own datagram, and then it is given the ports of the most recent first fragment
  of that datagram; nothing else of the packet and nothing of the cache changes. It is
  never given the ports of another datagram, whatever collides in the cache.
\<close>

theorem frag_attribution:
  assumes "\<forall>p\<in>set ps. addr_ok p" "addr_ok pi"
    "pi_status pi = DEC_OK" "pi_has_l3 pi" "pi_frag pi = FRAG_LATER"
  shows "\<exists>c. frag_run (snd (frag_cache_init True)) ps = Some c \<and>
    frag_cache_apply c pi = Some (case borrowed ps pi of
       None \<Rightarrow> (False, c, pi)
     | Some q \<Rightarrow> (True, c, pi\<lparr>pi_src_port := pi_src_port q, pi_dst_port := pi_dst_port q\<rparr>)) \<and>
    (\<forall>q. borrowed ps pi = Some q \<longrightarrow>
       latest (\<lambda>q. datagram q = datagram pi) (filter records_ports ps) = Some q)"
proof -
  obtain c where c: "frag_run (snd (frag_cache_init True)) ps = Some c" "frag_rep c ps"
    using frag_run_rep [OF frag_rep_init, of ps] assms(1) by auto
  from c(1) frag_apply_later [OF c(2) assms] borrowed_latest [of ps pi] show ?thesis by blast
qed

definition sample_first :: packet_info where
  "sample_first = packet_info0\<lparr>pi_has_l2 := True, pi_has_l3 := True, pi_has_l4 := True, pi_ip_version := 4,
     pi_ip_proto := 17, pi_frag := FRAG_FIRST, pi_frag_id := 77, pi_src_port := 5000, pi_dst_port := 53\<rparr>"

definition sample_later :: packet_info where
  "sample_later = packet_info0\<lparr>pi_has_l2 := True, pi_has_l3 := True, pi_ip_version := 4,
     pi_ip_proto := 17, pi_frag := FRAG_LATER, pi_frag_id := 77\<rparr>"

theorem frag_attribution_witness:
  "\<exists>c. frag_run (snd (frag_cache_init True)) [sample_first] = Some c \<and>
    frag_cache_apply c sample_later =
      Some (True, c, sample_later\<lparr>pi_src_port := 5000, pi_dst_port := 53\<rparr>)"
proof -
  have "borrowed [sample_first] sample_later = Some sample_first"
    by (simp add: borrowed_def records_ports_def latest_def datagram_def slot_for_def sample_first_def
        sample_later_def packet_info0_def)
  moreover have "\<forall>p\<in>set [sample_first]. addr_ok p" "addr_ok sample_later" "pi_status sample_later = DEC_OK"
    "pi_has_l3 sample_later" "pi_frag sample_later = FRAG_LATER"
    "pi_src_port sample_first = 5000" "pi_dst_port sample_first = 53"
    by (simp_all add: addr_ok_def sample_first_def sample_later_def packet_info0_def)
  ultimately show ?thesis
    using frag_attribution [of "[sample_first]" sample_later] by (simp del: frag_run.simps) blast
qed

end
