(* ===== verification/Flow.thy ===== *)
theory Flow
  imports Decode_Frame Cmp Hash
begin

text \<open>
  \<open>flow.h\<close> and the table part of \<open>flow.c\<close>: keys, the open-addressing table with
  linear probing, and the accounting of packets and tunnels. \<open>NULL\<close> slots are the
  empty list. A pointer to a slot is its index. Reading or writing a slot outside the
  array, and a probe loop that never ends, have no value (\<open>None\<close>); that neither
  happens is proved in \<open>Flow_Table\<close>.

  Whether an allocation succeeds is a parameter: an \<open>alloc\<close> says for which element counts
  the allocator has memory. As \<open>calloc\<close> does, an allocation whose size in bytes does not
  fit \<open>size_t\<close> fails as well.
\<close>

section \<open>Data\<close>

abbreviation (input) MIN_CAPACITY :: size_t where "MIN_CAPACITY \<equiv> 16"
abbreviation (input) LOAD_NUM :: size_t where "LOAD_NUM \<equiv> 7"
abbreviation (input) LOAD_DEN :: size_t where "LOAD_DEN \<equiv> 10"

text \<open>\<open>sizeof(struct flow)\<close>, as the comment on the struct computes it.\<close>

abbreviation (input) SIZEOF_FLOW :: size_t where "SIZEOF_FLOW \<equiv> 88"
abbreviation (input) SIZE_MAX :: size_t where "SIZE_MAX \<equiv> - 1"

record flow_key =
  k_teid :: u32
  k_ip_version :: u8
  k_proto :: u8
  k_port_a :: u16
  k_port_b :: u16
  k_addr_a :: "u8 list"
  k_addr_b :: "u8 list"

record flow =
  f_key :: flow_key
  f_tcp_flags :: u8
  f_first_from_b :: bool
  f_in_use :: bool
  f_hash :: u64
  f_packets :: u64
  f_bytes :: u64
  f_first_ts_ns :: u64
  f_last_ts_ns :: u64

record flow_table =
  t_slots :: "flow list"
  t_capacity :: size_t
  t_count :: size_t

text \<open>Zeroed memory.\<close>

definition flow_key0 :: flow_key where
  "flow_key0 = \<lparr>k_teid = 0, k_ip_version = 0, k_proto = 0, k_port_a = 0, k_port_b = 0,
     k_addr_a = replicate 16 0, k_addr_b = replicate 16 0\<rparr>"

definition flow0 :: flow where
  "flow0 = \<lparr>f_key = flow_key0, f_tcp_flags = 0, f_first_from_b = False, f_in_use = False,
     f_hash = 0, f_packets = 0, f_bytes = 0, f_first_ts_ns = 0, f_last_ts_ns = 0\<rparr>"

section \<open>Keys\<close>

definition key_hash :: "flow_key \<Rightarrow> u64" where
  "key_hash k =
     (let head = [k_ip_version k, k_proto k,
                  ucast (drop_bit 8 (k_port_a k)), ucast (k_port_a k),
                  ucast (drop_bit 8 (k_port_b k)), ucast (k_port_b k),
                  ucast (drop_bit 24 (k_teid k)), ucast (drop_bit 16 (k_teid k)),
                  ucast (drop_bit 8 (k_teid k)), ucast (k_teid k)];
          h = fnv1a FNV64_OFFSET head;
          h = fnv1a h (k_addr_a k)
      in fnv1a h (k_addr_b k))"

definition key_equal :: "flow_key \<Rightarrow> flow_key \<Rightarrow> bool" where
  "key_equal a b \<longleftrightarrow> k_teid a = k_teid b \<and>
     k_ip_version a = k_ip_version b \<and> k_proto a = k_proto b \<and>
     k_port_a a = k_port_a b \<and> k_port_b a = k_port_b b \<and>
     memcmp 16 (k_addr_a a) (k_addr_a b) = 0 \<and>
     memcmp 16 (k_addr_b a) (k_addr_b b) = 0"

definition key_cmp :: "flow_key \<Rightarrow> flow_key \<Rightarrow> int" where
  "key_cmp a b =
     (if k_teid a \<noteq> k_teid b then (if k_teid a < k_teid b then -1 else 1)
      else if k_ip_version a \<noteq> k_ip_version b then (if k_ip_version a < k_ip_version b then -1 else 1)
      else if k_proto a \<noteq> k_proto b then (if k_proto a < k_proto b then -1 else 1)
      else let c = memcmp 16 (k_addr_a a) (k_addr_a b) in if c \<noteq> 0 then c
      else if k_port_a a \<noteq> k_port_a b then (if k_port_a a < k_port_a b then -1 else 1)
      else let c = memcmp 16 (k_addr_b a) (k_addr_b b) in if c \<noteq> 0 then c
      else if k_port_b a \<noteq> k_port_b b then (if k_port_b a < k_port_b b then -1 else 1)
      else 0)"

text \<open>The canonical key and whether the packet travelled from endpoint B to endpoint A;
  no key for a packet without an IP layer.\<close>

definition flow_key_from_packet :: "packet_info \<Rightarrow> (flow_key \<times> bool) option" where
  "flow_key_from_packet pi =
     (if \<not> pi_has_l3 pi then None
      else
        let key = flow_key0\<lparr>k_ip_version := pi_ip_version pi, k_proto := pi_ip_proto pi\<rparr>;
            cmp = memcmp 16 (pi_src_addr pi) (pi_dst_addr pi);
            cmp = (if cmp = 0
                   then (if pi_src_port pi > pi_dst_port pi then 1 else 0) -
                        (if pi_src_port pi < pi_dst_port pi then 1 else 0)
                   else cmp);
            reversed = (cmp > 0)
        in if \<not> reversed
           then Some (key\<lparr>k_addr_a := pi_src_addr pi, k_addr_b := pi_dst_addr pi,
                          k_port_a := pi_src_port pi, k_port_b := pi_dst_port pi\<rparr>, reversed)
           else Some (key\<lparr>k_addr_a := pi_dst_addr pi, k_addr_b := pi_src_addr pi,
                          k_port_a := pi_dst_port pi, k_port_b := pi_src_port pi\<rparr>, reversed))"

definition tunnel_key_from_packet :: "packet_info \<Rightarrow> flow_key option" where
  "tunnel_key_from_packet pi =
     (if \<not> pi_is_gtpu pi \<or> \<not> pi_gtp_v1u pi then None
      else Some (flow_key0\<lparr>k_teid := pi_teid pi, k_ip_version := pi_ip_version pi,
                           k_proto := pi_ip_proto pi, k_addr_a := pi_src_addr pi,
                           k_addr_b := pi_dst_addr pi\<rparr>))"

section \<open>The table\<close>

type_synonym alloc = "size_t \<Rightarrow> bool"

definition calloc_ok :: "alloc \<Rightarrow> size_t \<Rightarrow> size_t \<Rightarrow> bool" where
  "calloc_ok al n sz \<longleftrightarrow> al n \<and> unat n * unat sz \<le> unat SIZE_MAX"

partial_function (option) round_up :: "size_t \<Rightarrow> size_t \<Rightarrow> size_t option" where
  "round_up hint cap =
     (if cap < hint \<and> cap \<le> SIZE_MAX div 2 div SIZEOF_FLOW then round_up hint (cap * 2) else Some cap)"

definition flow_table_init :: "alloc \<Rightarrow> size_t \<Rightarrow> (int \<times> flow_table) option" where
  "flow_table_init al capacity_hint = do {
     cap \<leftarrow> round_up capacity_hint MIN_CAPACITY;
     if calloc_ok al cap SIZEOF_FLOW
     then Some (0, \<lparr>t_slots = replicate (unat cap) flow0, t_capacity = cap, t_count = 0\<rparr>)
     else Some (-1, \<lparr>t_slots = [], t_capacity = 0, t_count = 0\<rparr>) }"

definition flow_table_free :: "flow_table \<Rightarrow> flow_table" where
  "flow_table_free t = t\<lparr>t_slots := [], t_capacity := 0, t_count := 0\<rparr>"

text \<open>The probe loops: the first slot from \<open>i\<close> on, in steps of one around the array,
  where the loop stops.\<close>

partial_function (option) probe :: "(flow \<Rightarrow> bool) \<Rightarrow> flow list \<Rightarrow> size_t \<Rightarrow> size_t \<Rightarrow> size_t option" where
  "probe stop slots msk i =
     (if unat i < length slots
      then if stop (slots ! unat i) then Some i else probe stop slots msk ((i + 1) AND msk)
      else None)"

definition place :: "flow list \<Rightarrow> size_t \<Rightarrow> flow \<Rightarrow> flow list option" where
  "place slots msk f = do {
     i \<leftarrow> probe (\<lambda>s. \<not> f_in_use s) slots msk (f_hash f AND msk);
     wr slots (unat i) f }"

text \<open>The loop of \<open>grow\<close> over the old slots, from slot \<open>i\<close> on.\<close>

function grow_loop :: "flow list \<Rightarrow> size_t \<Rightarrow> size_t \<Rightarrow> size_t \<Rightarrow> flow list \<Rightarrow> flow list option" where
  "grow_loop slots capacity new_cap i bigger =
     (if i < capacity then
        if unat i < length slots then do {
          bigger \<leftarrow> (if f_in_use (slots ! unat i) then place bigger (new_cap - 1) (slots ! unat i)
                     else Some bigger);
          grow_loop slots capacity new_cap (i + 1) bigger }
        else None
      else Some bigger)"
  by pat_completeness auto
termination
  by (relation "measure (\<lambda>(slots, capacity, new_cap, i, bigger). unat (capacity - i))")
    (auto intro: counter_measure)

definition grow :: "alloc \<Rightarrow> flow_table \<Rightarrow> (int \<times> flow_table) option" where
  "grow al t =
     (if t_capacity t > SIZE_MAX div 2 div SIZEOF_FLOW then Some (-1, t)
      else
        let new_cap = t_capacity t * 2 in
        if \<not> calloc_ok al new_cap SIZEOF_FLOW then Some (-1, t)
        else do {
          bigger \<leftarrow> grow_loop (t_slots t) (t_capacity t) new_cap 0 (replicate (unat new_cap) flow0);
          Some (0, t\<lparr>t_slots := bigger, t_capacity := new_cap\<rparr>) })"

text \<open>The flow found, or \<open>Some None\<close> for \<open>NULL\<close>.\<close>

definition flow_table_find :: "flow_table \<Rightarrow> flow_key \<Rightarrow> flow option option" where
  "flow_table_find t key =
     (if t_capacity t = 0 then Some None
      else
        let msk = t_capacity t - 1 in do {
          i \<leftarrow> probe (\<lambda>s. \<not> f_in_use s \<or> key_equal (f_key s) key) (t_slots t) msk (key_hash key AND msk);
          let s = t_slots t ! unat i;
          Some (if f_in_use s then Some s else None) })"

text \<open>The table, and the slot with the flag \<open>*inserted\<close>, or no slot for \<open>NULL\<close>.\<close>

definition flow_table_find_or_insert ::
    "alloc \<Rightarrow> flow_table \<Rightarrow> flow_key \<Rightarrow> (flow_table \<times> (size_t \<times> bool) option) option" where
  "flow_table_find_or_insert al t key =
     (let h = key_hash key in
      if t_capacity t = 0 then Some (t, None)
      else do {
        (r, t) \<leftarrow> (if (t_count t + 1) * LOAD_DEN > t_capacity t * LOAD_NUM then grow al t else Some (0, t));
        if r \<noteq> 0 then Some (t, None)
        else do {
          let msk = t_capacity t - 1;
          i \<leftarrow> probe (\<lambda>s. \<not> f_in_use s \<or> (f_hash s = h \<and> key_equal (f_key s) key)) (t_slots t) msk (h AND msk);
          if f_in_use (t_slots t ! unat i) then Some (t, Some (i, False))
          else do {
            slots \<leftarrow> wr (t_slots t) (unat i) (flow0\<lparr>f_key := key, f_hash := h, f_in_use := True\<rparr>);
            Some (t\<lparr>t_slots := slots, t_count := t_count t + 1\<rparr>, Some (i, True)) }}})"

text \<open>The updates of \<open>account\<close> to the flow it found or inserted.\<close>

definition bump :: "bool \<Rightarrow> bool \<Rightarrow> u8 \<Rightarrow> u32 \<Rightarrow> u64 \<Rightarrow> flow \<Rightarrow> flow" where
  "bump inserted reversed tcp_flags wire_len ts_ns f =
     (let f = (if inserted
               then f\<lparr>f_first_ts_ns := ts_ns, f_last_ts_ns := ts_ns, f_first_from_b := reversed\<rparr> else f);
          f = (if ts_ns < f_first_ts_ns f
               then f\<lparr>f_first_ts_ns := ts_ns, f_first_from_b := reversed\<rparr> else f);
          f = (if ts_ns > f_last_ts_ns f then f\<lparr>f_last_ts_ns := ts_ns\<rparr> else f)
      in f\<lparr>f_packets := f_packets f + 1, f_bytes := f_bytes f + ucast wire_len,
           f_tcp_flags := f_tcp_flags f OR tcp_flags\<rparr>)"

definition account ::
    "alloc \<Rightarrow> flow_table \<Rightarrow> flow_key \<Rightarrow> bool \<Rightarrow> u8 \<Rightarrow> u32 \<Rightarrow> u64 \<Rightarrow> (int \<times> flow_table) option" where
  "account al t key reversed tcp_flags wire_len ts_ns = do {
     (t, r) \<leftarrow> flow_table_find_or_insert al t key;
     case r of
       None \<Rightarrow> Some (-1, t)
     | Some (i, inserted) \<Rightarrow> do {
         slots \<leftarrow> wr (t_slots t) (unat i)
           (bump inserted reversed tcp_flags wire_len ts_ns (t_slots t ! unat i));
         Some (0, t\<lparr>t_slots := slots\<rparr>) }}"

definition flow_table_add_packet ::
    "alloc \<Rightarrow> flow_table \<Rightarrow> packet_info \<Rightarrow> u32 \<Rightarrow> u64 \<Rightarrow> (int \<times> flow_table) option" where
  "flow_table_add_packet al t pi wire_len ts_ns =
     (case flow_key_from_packet pi of
        None \<Rightarrow> Some (0, t)
      | Some (key, reversed) \<Rightarrow>
          let flags = (if pi_ip_proto pi = IPPROTO_NUM_TCP \<and> pi_has_l4 pi then pi_tcp_flags pi else 0)
          in account al t key reversed flags wire_len ts_ns)"

definition flow_table_add_tunnel ::
    "alloc \<Rightarrow> flow_table \<Rightarrow> packet_info \<Rightarrow> u32 \<Rightarrow> u64 \<Rightarrow> (int \<times> flow_table) option" where
  "flow_table_add_tunnel al t pi wire_len ts_ns =
     (case tunnel_key_from_packet pi of
        None \<Rightarrow> Some (0, t)
      | Some key \<Rightarrow> account al t key False 0 wire_len ts_ns)"

section \<open>Iteration\<close>

text \<open>The next flow from \<open>pos\<close> on, and the position behind it.\<close>

function flow_table_next :: "flow_table \<Rightarrow> size_t \<Rightarrow> (flow option \<times> size_t) option" where
  "flow_table_next t pos =
     (if pos < t_capacity t then
        if unat pos < length (t_slots t) then
          let f = t_slots t ! unat pos in
          if f_in_use f then Some (Some f, pos + 1) else flow_table_next t (pos + 1)
        else None
      else Some (None, pos))"
  by pat_completeness auto
termination
  by (relation "measure (\<lambda>(t, pos). unat (t_capacity t - pos))") (auto intro: counter_measure)

declare grow_loop.simps [simp del] flow_table_next.simps [simp del]

declare round_up.simps [code] probe.simps [code]

lemma flow_table_next_pos:
  "flow_table_next t pos = Some (Some f, pos') \<Longrightarrow> pos < pos' \<and> pos' \<le> t_capacity t"
proof (induction t pos rule: flow_table_next.induct)
  case (1 t pos)
  then have lt: "pos < t_capacity t" by (subst (asm) flow_table_next.simps) (auto split: if_splits)
  then have step: "pos < pos + 1" "pos + 1 \<le> t_capacity t"
    using unat_inc [OF lt] by (simp_all add: word_less_nat_alt word_le_nat_alt)
  from 1 lt step show ?case
    by (subst (asm) (2) flow_table_next.simps) (auto simp: Let_def split: if_splits)
qed

text \<open>\<open>while ((f = flow_table_next(t, &pos)) != NULL) body\<close>, with the state of the body
  threaded through.\<close>

function foreach :: "flow_table \<Rightarrow> (flow \<Rightarrow> 's \<Rightarrow> 's option) \<Rightarrow> size_t \<Rightarrow> 's \<Rightarrow> 's option" where
  "foreach t body pos st = do {
     (fo, pos') \<leftarrow> flow_table_next t pos;
     case fo of None \<Rightarrow> Some st | Some f \<Rightarrow> do { st' \<leftarrow> body f st; foreach t body pos' st' }}"
  by pat_completeness auto
termination
proof (relation "measure (\<lambda>(t, body, pos, st). unat (t_capacity t) - unat pos)", goal_cases)
  case (2 t body pos st fp fo pos' f st')
  then have "pos < pos'" "pos' \<le> t_capacity t" using flow_table_next_pos [of t pos f pos'] by auto
  then show ?case by (simp add: word_less_nat_alt word_le_nat_alt)
qed simp

declare foreach.simps [simp del]

definition teid_cmp :: "u32 \<Rightarrow> u32 \<Rightarrow> int" where
  "teid_cmp a b = (if a > b then 1 else 0) - (if a < b then 1 else 0)"

text \<open>The last loop of \<open>flow_table_distinct_teids\<close>: the first of each run.\<close>

fun count_runs :: "u32 list \<Rightarrow> size_t" where
  "count_runs [] = 0"
| "count_runs [x] = 1"
| "count_runs (x # y # xs) = (if y \<noteq> x then 1 else 0) + count_runs (y # xs)"

text \<open>\<open>teids\<close> is the part of the allocated array written so far; a store behind the
  \<open>t->count\<close> elements has no value.\<close>

definition flow_table_distinct_teids :: "alloc \<Rightarrow> flow_table \<Rightarrow> (int \<times> size_t) option" where
  "flow_table_distinct_teids al t =
     (if t_count t = 0 then Some (0, 0)
      else if \<not> al (t_count t) then Some (-1, 0)
      else do {
        teids \<leftarrow> foreach t (\<lambda>f teids.
          if length teids < unat (t_count t) then Some (teids @ [k_teid (f_key f)]) else None) 0 [];
        Some (0, count_runs (qsort teid_cmp teids)) })"

end
