(* ===== verification/Flow_Table.thy ===== *)
theory Flow_Table
  imports Flow
begin

text \<open>
  The open-addressing table as a finite map. \<open>tab\<close> is the invariant of the slot array:
  every used slot caches its key's hash, keys are unique, and the probe path from a key's
  home slot to the slot that holds it has no gap. \<open>flow_inv\<close> adds the sizes: the
  capacity is a power of two, \<open>count\<close> is the number of used slots, and at most seven
  tenths of the slots are used. Under it every probe loop ends, no access leaves the array,
  and the operations implement \<open>lookup\<close>, a partial map from keys to flows.
\<close>

section \<open>Probing\<close>

lemma probe_reaches:
  assumes "length slots = 2 ^ k" "unat c = 2 ^ k" "k < 64"
  shows "stop (slots ! ((unat i + d) mod 2 ^ k)) \<Longrightarrow> \<forall>e<d. \<not> stop (slots ! ((unat i + e) mod 2 ^ k)) \<Longrightarrow>
    unat i < 2 ^ k \<Longrightarrow> \<exists>j. probe stop slots (c - 1) i = Some j \<and> unat j = (unat i + d) mod 2 ^ k"
proof (induction d arbitrary: i)
  case 0
  then show ?case using assms by (subst probe.simps) simp
next
  case (Suc d)
  let ?i = "(i + 1) AND (c - 1)"
  have i': "unat ?i = (unat i + 1) mod 2 ^ k" using assms by (intro cap_step)
  have shift: "(unat ?i + e) mod 2 ^ k = (unat i + Suc e) mod 2 ^ k" for e
    unfolding i' by (simp add: mod_simps)
  have "\<exists>j. probe stop slots (c - 1) ?i = Some j \<and> unat j = (unat ?i + d) mod 2 ^ k"
  proof (rule Suc.IH)
    show "stop (slots ! ((unat ?i + d) mod 2 ^ k))" using Suc.prems(1) by (simp only: shift)
    show "\<forall>e<d. \<not> stop (slots ! ((unat ?i + e) mod 2 ^ k))"
      unfolding shift using Suc.prems(2) by blast
    show "unat ?i < 2 ^ k" by (simp add: i')
  qed
  moreover have "\<not> stop (slots ! unat i)" using Suc.prems(2,3) by (auto dest: spec [of _ 0])
  ultimately show ?case
    using assms(1) Suc.prems(3) by (subst probe.simps) (simp add: shift)
qed

text \<open>When some slot stops it, the probe loop ends at the first such slot on its path.\<close>

lemma probe_first:
  assumes sz: "length slots = 2 ^ k" "unat c = 2 ^ k" "k < 64"
    and stop: "\<exists>f\<in>set slots. stop f"
  shows "\<exists>j d. probe stop slots (c - 1) (h AND (c - 1)) = Some j \<and> unat j = (unat h + d) mod 2 ^ k \<and>
    stop (slots ! unat j) \<and> (\<forall>e<d. \<not> stop (slots ! ((unat h + e) mod 2 ^ k)))"
proof -
  let ?P = "\<lambda>d. stop (slots ! ((unat h + d) mod 2 ^ k))"
  obtain m where m: "m < 2 ^ k" "stop (slots ! m)" using stop sz(1) by (auto simp: in_set_conv_nth)
  define r where "r = unat h mod 2 ^ k"
  have "r < 2 ^ k" by (simp add: r_def)
  then have "r + (m + 2 ^ k - r) = m + 2 ^ k" by linarith
  then have "(unat h + (m + 2 ^ k - r)) mod 2 ^ k = (m + 2 ^ k) mod 2 ^ k"
    using mod_add_left_eq [of "unat h" "2 ^ k" "m + 2 ^ k - r"] by (simp only: r_def [symmetric])
  then have "?P (m + 2 ^ k - r)" using m by simp
  then have "\<exists>d. ?P d \<and> (\<forall>e<d. \<not> ?P e)" by (intro exists_least_iff [THEN iffD1] exI)
  then obtain d where d: "?P d" "\<forall>e<d. \<not> ?P e" by blast
  have h: "unat (h AND (c - 1)) = unat h mod 2 ^ k" using sz by (intro cap_mod)
  then have shift: "(unat (h AND (c - 1)) + e) mod 2 ^ k = (unat h + e) mod 2 ^ k" for e
    by (simp add: mod_simps)
  have "unat (h AND (c - 1)) < 2 ^ k" by (simp add: h)
  with probe_reaches [OF sz, of stop "h AND (c - 1)" d] d
  obtain j where "probe stop slots (c - 1) (h AND (c - 1)) = Some j" "unat j = (unat h + d) mod 2 ^ k"
    unfolding shift by blast
  with d show ?thesis by auto
qed

section \<open>The slot array\<close>

definition live :: "flow list \<Rightarrow> flow list" where
  "live slots = filter f_in_use slots"

definition key_ok :: "flow_key \<Rightarrow> bool" where
  "key_ok k \<longleftrightarrow> length (k_addr_a k) = 16 \<and> length (k_addr_b k) = 16"

text \<open>The slots from the home of hash \<open>h\<close> up to slot \<open>i\<close> are all in use.\<close>

definition chain :: "flow list \<Rightarrow> nat \<Rightarrow> nat \<Rightarrow> bool" where
  "chain slots h i \<longleftrightarrow> (\<exists>d. i = (h + d) mod length slots \<and>
     (\<forall>e<d. f_in_use (slots ! ((h + e) mod length slots))))"

definition slot_ok :: "flow list \<Rightarrow> nat \<Rightarrow> flow \<Rightarrow> bool" where
  "slot_ok slots i f \<longleftrightarrow> f_hash f = key_hash (f_key f) \<and> key_ok (f_key f) \<and> chain slots (unat (f_hash f)) i"

definition tab :: "flow list \<Rightarrow> bool" where
  "tab slots \<longleftrightarrow> (\<forall>i<length slots. f_in_use (slots ! i) \<longrightarrow> slot_ok slots i (slots ! i)) \<and>
     distinct (map f_key (live slots))"

lemma key_equal_iff: "key_ok a \<Longrightarrow> key_ok b \<Longrightarrow> key_equal a b \<longleftrightarrow> a = b"
  by (cases a; cases b) (auto simp: key_equal_def key_ok_def)

lemma in_live [simp]: "f \<in> set (live slots) \<longleftrightarrow> f \<in> set slots \<and> f_in_use f"
  by (auto simp: live_def)

lemma live_replicate [simp]: "live (replicate n flow0) = []"
  by (simp add: live_def flow0_def)

lemma live_Nil [simp]: "live [] = []"
  by (simp add: live_def)

lemma tab_empty: "tab (replicate n flow0)"
  by (simp add: tab_def flow0_def live_def)

lemma split_at: "j < length xs \<Longrightarrow> xs = take j xs @ xs ! j # drop (Suc j) xs"
  by (rule id_take_nth_drop)

lemma live_insert:
  "j < length slots \<Longrightarrow> \<not> f_in_use (slots ! j) \<Longrightarrow> f_in_use f \<Longrightarrow>
   mset (live (slots[j := f])) = add_mset f (mset (live slots))"
  by (subst (2) split_at [of j slots]) (simp_all add: live_def upd_conv_take_nth_drop)

lemma live_update:
  "j < length slots \<Longrightarrow> f_in_use (slots ! j) \<Longrightarrow> f_in_use f \<Longrightarrow>
   mset (live (slots[j := f])) = add_mset f (mset (live slots) - {#slots ! j#})"
  by (subst (2) split_at [of j slots]) (simp_all add: live_def upd_conv_take_nth_drop)

lemma chain_mono:
  assumes "chain slots h i" "length slots' = length slots"
    "\<And>i. i < length slots \<Longrightarrow> f_in_use (slots ! i) \<Longrightarrow> f_in_use (slots' ! i)" "slots \<noteq> []"
  shows "chain slots' h i"
  using assms unfolding chain_def by (metis length_greater_0_conv mod_less_divisor)

lemma slot_ok_mono:
  assumes "slot_ok slots i g" "j < length slots" "f_in_use f"
  shows "slot_ok (slots[j := f]) i g"
  using assms by (auto simp: slot_ok_def nth_list_update intro: chain_mono)

lemma distinct_keys_mset:
  "mset xs = mset ys \<Longrightarrow> distinct (map f_key xs) \<longleftrightarrow> distinct (map f_key ys)"
  by (metis mset_eq_imp_distinct_iff mset_map)

lemma tab_set:
  assumes "tab slots" "j < length slots" "f_in_use f" "slot_ok slots j f"
    "distinct (map f_key (live (slots[j := f])))"
  shows "tab (slots[j := f])"
  using assms by (auto simp: tab_def nth_list_update slot_ok_mono)

lemma tab_insert:
  assumes "tab slots" "j < length slots" "\<not> f_in_use (slots ! j)" "f_in_use f" "slot_ok slots j f"
    "\<forall>g\<in>set (live slots). f_key g \<noteq> f_key f"
  shows "tab (slots[j := f])"
proof (rule tab_set)
  have "mset (live (slots[j := f])) = mset (f # live slots)" using assms by (simp add: live_insert)
  from distinct_keys_mset [OF this] assms show "distinct (map f_key (live (slots[j := f])))"
    by (auto simp: tab_def)
qed fact+

lemma tab_update:
  assumes "tab slots" "j < length slots" "f_in_use (slots ! j)" "f_in_use f"
    "f_key f = f_key (slots ! j)" "f_hash f = f_hash (slots ! j)"
  shows "tab (slots[j := f])"
proof (rule tab_set)
  show "slot_ok slots j f" using assms by (auto simp: tab_def slot_ok_def)
  have "mset (map f_key (live (slots[j := f]))) = mset (map f_key (live slots))"
    using assms by (simp add: live_update image_mset_Diff insert_DiffM)
  then show "distinct (map f_key (live (slots[j := f])))"
    using assms(1) by (metis mset_eq_imp_distinct_iff tab_def)
qed (use assms in auto)

text \<open>An array with fewer flows than slots has an empty slot.\<close>

lemma empty_slot: "length (live slots) < length slots \<Longrightarrow> \<exists>f\<in>set slots. \<not> f_in_use f"
  by (metis filter_True live_def less_irrefl)

text \<open>The search for a key: it ends at the slot of the key, or at the first empty slot of
  its path when the key is not in the table.\<close>

lemma search:
  assumes sz: "length slots = 2 ^ k" "unat c = 2 ^ k" "k < 64"
    and tab: "tab slots" and room: "length (live slots) < length slots"
    and stop: "\<And>f. f \<in> set slots \<Longrightarrow> stop f \<longleftrightarrow> \<not> f_in_use f \<or> f_key f = key"
  shows "\<exists>j. probe stop slots (c - 1) (key_hash key AND (c - 1)) = Some j \<and> unat j < length slots \<and>
    (if f_in_use (slots ! unat j) then f_key (slots ! unat j) = key
     else (\<forall>f\<in>set (live slots). f_key f \<noteq> key) \<and> chain slots (unat (key_hash key)) (unat j))"
proof -
  let ?h = "unat (key_hash key)"
  obtain f where "f \<in> set slots" "\<not> f_in_use f" using empty_slot [OF room] by blast
  then have "\<exists>f\<in>set slots. stop f" using stop by blast
  from probe_first [OF sz this, of "key_hash key"] obtain j d where
    j: "probe stop slots (c - 1) (key_hash key AND (c - 1)) = Some j" "unat j = (?h + d) mod 2 ^ k"
      "stop (slots ! unat j)" and first: "\<And>e. e < d \<Longrightarrow> \<not> stop (slots ! ((?h + e) mod 2 ^ k))" by auto
  have lt: "unat j < length slots" using j(2) sz by simp
  have at: "(?h + e) mod 2 ^ k < length slots" for e using sz by simp
  have used: "f_in_use (slots ! ((?h + e) mod 2 ^ k))" if "e < d" for e
    using first [OF that] stop [of "slots ! ((?h + e) mod 2 ^ k)"] at by auto
  then have ch: "chain slots ?h (unat j)" using j(2) sz by (auto simp: chain_def)
  have absent: "f_key f \<noteq> key" if "\<not> f_in_use (slots ! unat j)" "f \<in> set slots" "f_in_use f" for f
  proof
    assume key: "f_key f = key"
    obtain i where i: "i < length slots" "slots ! i = f" using \<open>f \<in> set slots\<close> by (auto simp: in_set_conv_nth)
    with tab that(3) key have "chain slots ?h i" by (auto simp: tab_def slot_ok_def)
    then obtain e where e: "i = (?h + e) mod 2 ^ k" "\<forall>e'<e. f_in_use (slots ! ((?h + e') mod 2 ^ k))"
      using sz by (auto simp: chain_def)
    have "stop f" using stop that(2) key by blast
    with first i e have "\<not> e < d" by auto
    moreover have "d \<noteq> e" using that i e j by auto
    ultimately have "d < e" by simp
    with e j that(1) show False by auto
  qed
  show ?thesis
    using j lt ch absent stop [OF nth_mem [OF lt]] by (intro exI [of _ j]) auto
qed

section \<open>Growing\<close>

lemma place_ok:
  assumes sz: "length slots = 2 ^ k" "unat c = 2 ^ k" "k < 64"
    and tab: "tab slots" and room: "length (live slots) < length slots"
    and f: "f_in_use f" "f_hash f = key_hash (f_key f)" "key_ok (f_key f)"
      "\<forall>g\<in>set (live slots). f_key g \<noteq> f_key f"
  shows "\<exists>slots'. place slots (c - 1) f = Some slots' \<and> length slots' = 2 ^ k \<and> tab slots' \<and>
    mset (live slots') = add_mset f (mset (live slots))"
proof -
  have "(\<not> f_in_use g) \<longleftrightarrow> \<not> f_in_use g \<or> f_key g = f_key f" if "g \<in> set slots" for g
    using that f(4) by auto
  from search [OF sz tab room this]
  obtain j where j: "probe (\<lambda>s. \<not> f_in_use s) slots (c - 1) (f_hash f AND (c - 1)) = Some j"
      "unat j < length slots"
    and at: "if f_in_use (slots ! unat j) then f_key (slots ! unat j) = f_key f
      else chain slots (unat (f_hash f)) (unat j)"
    using f(2) by (auto split: if_splits)
  have free: "\<not> f_in_use (slots ! unat j)" using at f(4) j(2) by (auto split: if_splits)
  with at f have "slot_ok slots (unat j) f" by (simp add: slot_ok_def)
  with free j f sz tab show ?thesis
    by (auto simp: place_def wr_def tab_insert live_insert)
qed

lemma live_append [simp]: "live (xs @ ys) = live xs @ live ys"
  by (simp add: live_def)

lemma length_live_le: "length (live xs) \<le> length xs"
  by (simp add: live_def)

lemma live_take_Suc:
  "n < length xs \<Longrightarrow> live (take (Suc n) xs) = live (take n xs) @ (if f_in_use (xs ! n) then [xs ! n] else [])"
  by (simp add: take_Suc_conv_app_nth) (simp add: live_def)

text \<open>The loop of \<open>grow\<close> has moved the used slots below \<open>i\<close>.\<close>

lemma grow_loop_ok:
  assumes sz: "length slots = unat cap" "unat new_cap = 2 ^ k" "k < 64" "unat cap < 2 ^ k" and tab: "tab slots"
    and "i \<le> cap" "length bigger = 2 ^ k" "tab bigger" "mset (live bigger) = mset (live (take (unat i) slots))"
  shows "\<exists>r. grow_loop slots cap new_cap i bigger = Some r \<and> length r = 2 ^ k \<and> tab r \<and>
    mset (live r) = mset (live slots)"
  using assms(6-9)
proof (induction "unat (cap - i)" arbitrary: i bigger rule: less_induct)
  case less
  show ?case
  proof (cases "i < cap")
    case False
    then have "i = cap" using less.prems(1) by simp
    then show ?thesis using less.prems sz(1) by (subst grow_loop.simps) simp
  next
    case True
    then have i: "unat i < length slots" "unat (i + 1) = Suc (unat i)" "i + 1 \<le> cap"
      using sz(1) unat_inc [OF True] by (simp_all add: word_less_nat_alt word_le_nat_alt)
    have smaller: "unat (cap - (i + 1)) < unat (cap - i)" using True by (intro counter_measure) simp
    let ?f = "slots ! unat i"
    show ?thesis
    proof (cases "f_in_use ?f")
      case False
      with i less.prems have "mset (live bigger) = mset (live (take (unat (i + 1)) slots))"
        by (simp add: live_take_Suc)
      from less.hyps [OF smaller i(3) less.prems(2,3) this] False True i show ?thesis
        by (subst grow_loop.simps) simp
    next
      case used: True
      have len: "length (live bigger) < length bigger"
        using less.prems(2,4) sz(1,4) i(1) length_live_le [of "take (unat i) slots"]
        by (metis (no_types, lifting) length_take less_trans min.absorb4 le_less_trans size_mset)
      have "live slots = live (take (unat i) slots) @ ?f # live (drop (Suc (unat i)) slots)"
        using used by (subst id_take_nth_drop [OF i(1)]) (simp add: live_def)
      then have "f_key g \<noteq> f_key ?f" if "g \<in> set (live (take (unat i) slots))" for g
        using tab imageI [OF that, of f_key] by (auto simp: tab_def simp del: in_live)
      moreover have "set (live bigger) = set (live (take (unat i) slots))"
        using less.prems(4) by (metis set_mset_mset)
      ultimately have fresh: "\<forall>g\<in>set (live bigger). f_key g \<noteq> f_key ?f" by blast
      have "f_hash ?f = key_hash (f_key ?f)" "key_ok (f_key ?f)"
        using tab i(1) used by (auto simp: tab_def slot_ok_def)
      from place_ok [OF less.prems(2) sz(2,3) less.prems(3) len used this fresh]
      obtain b' where b': "place bigger (new_cap - 1) ?f = Some b'" "length b' = 2 ^ k" "tab b'"
          "mset (live b') = add_mset ?f (mset (live bigger))" by blast
      have "mset (live b') = mset (live (take (unat (i + 1)) slots))"
        using b'(4) less.prems(4) i used by (simp add: live_take_Suc)
      from less.hyps [OF smaller i(3) b'(2,3) this] used True i b'(1) show ?thesis
        by (subst grow_loop.simps) simp
    qed
  qed
qed

section \<open>The table invariant\<close>

definition flow_inv :: "flow_table \<Rightarrow> bool" where
  "flow_inv t \<longleftrightarrow>
     (t_capacity t = 0 \<and> t_slots t = [] \<and> t_count t = 0) \<or>
     (\<exists>k\<le>57. 4 \<le> k \<and> unat (t_capacity t) = 2 ^ k \<and> length (t_slots t) = 2 ^ k \<and> tab (t_slots t) \<and>
        unat (t_count t) = length (live (t_slots t)) \<and> 10 * length (live (t_slots t)) \<le> 7 * 2 ^ k)"

text \<open>The flows of a table, and the flow of a key.\<close>

definition flows :: "flow_table \<Rightarrow> flow list" where
  "flows t = live (t_slots t)"

definition lookup :: "flow_table \<Rightarrow> flow_key \<Rightarrow> flow option" where
  "lookup t k = find (\<lambda>f. f_key f = k) (flows t)"

definition new_flow :: "flow_key \<Rightarrow> flow" where
  "new_flow key = flow0\<lparr>f_key := key, f_hash := key_hash key, f_in_use := True\<rparr>"

lemma find_distinct:
  "distinct (map f_key fs) \<Longrightarrow> find (\<lambda>f. f_key f = k) fs = Some f \<longleftrightarrow> f \<in> set fs \<and> f_key f = k"
  by (induction fs) auto

lemma flow_inv_distinct: "flow_inv t \<Longrightarrow> distinct (map f_key (flows t))"
  by (auto simp: flow_inv_def flows_def tab_def live_def)

lemma lookup_iff: "flow_inv t \<Longrightarrow> lookup t k = Some f \<longleftrightarrow> f \<in> set (flows t) \<and> f_key f = k"
  by (simp add: lookup_def find_distinct flow_inv_distinct)

lemma lookup_None_iff: "lookup t k = None \<longleftrightarrow> (\<forall>f\<in>set (flows t). f_key f \<noteq> k)"
  by (auto simp: lookup_def find_None_iff)

lemma lookup_same:
  assumes "flow_inv t" "flow_inv t'" "mset (flows t') = mset (flows t)"
  shows "lookup t' = lookup t"
proof
  have "set (flows t') = set (flows t)" using assms(3) by (metis set_mset_mset)
  then have "lookup t' k = Some f \<longleftrightarrow> lookup t k = Some f" for k f
    using assms(1,2) by (simp add: lookup_iff)
  then show "lookup t' k = lookup t k" for k by (rule option_eqI)
qed

section \<open>The operations\<close>

lemma growth_limit: "unat (SIZE_MAX div 2 div SIZEOF_FLOW) = 104811045873349725"
  by simp

lemma growth_limit_pow: "unat c = 2 ^ k \<Longrightarrow> c \<le> SIZE_MAX div 2 div SIZEOF_FLOW \<longleftrightarrow> k \<le> 56" for c :: size_t
proof -
  have "(2::nat) ^ k \<le> 104811045873349725 \<longleftrightarrow> k \<le> 56"
  proof
    assume le: "(2::nat) ^ k \<le> 104811045873349725"
    show "k \<le> 56"
    proof (rule ccontr)
      assume "\<not> k \<le> 56"
      then have "(2::nat) ^ 57 \<le> 2 ^ k" by (intro power_increasing) auto
      with le show False by simp
    qed
  next
    assume "k \<le> 56"
    then have "(2::nat) ^ k \<le> 2 ^ 56" by (intro power_increasing) auto
    then show "(2::nat) ^ k \<le> 104811045873349725" by simp
  qed
  moreover assume "unat c = 2 ^ k"
  ultimately show ?thesis by (simp add: word_le_nat_alt growth_limit)
qed

lemma double_cap: "unat c = 2 ^ k \<Longrightarrow> k \<le> 56 \<Longrightarrow> unat (c * 2) = 2 ^ Suc k" for c :: size_t
proof -
  assume c: "unat c = 2 ^ k" and "k \<le> 56"
  then have "(2::nat) ^ k \<le> 2 ^ 56" by (intro power_increasing) auto
  with c show ?thesis by (simp add: unat_word_ariths)
qed

lemma round_up_ok:
  "unat c = 2 ^ k \<Longrightarrow> 4 \<le> k \<Longrightarrow> k \<le> 57 \<Longrightarrow>
   \<exists>cap m. round_up hint c = Some cap \<and> unat cap = 2 ^ m \<and> 4 \<le> m \<and> m \<le> 57 \<and> (hint \<le> cap \<or> m = 57)"
proof (induction "57 - k" arbitrary: c k)
  case 0
  then have "k = 57" by simp
  with 0 growth_limit_pow [OF 0(2)] show ?case
    by (intro exI [of _ c] exI [of _ k]) (subst round_up.simps, simp)
next
  case (Suc d)
  show ?case
  proof (cases "c < hint \<and> c \<le> SIZE_MAX div 2 div SIZEOF_FLOW")
    case True
    with Suc.prems(1) growth_limit_pow have "k \<le> 56" by blast
    then have "\<exists>cap m. round_up hint (c * 2) = Some cap \<and> unat cap = 2 ^ m \<and> 4 \<le> m \<and> m \<le> 57 \<and> (hint \<le> cap \<or> m = 57)"
      using Suc.hyps(2) Suc.prems by (intro Suc.hyps(1) [of "Suc k"] double_cap) auto
    with True show ?thesis by (subst round_up.simps) simp
  next
    case False
    then have "hint \<le> c" using Suc growth_limit_pow [OF Suc.prems(1)] by auto
    with False Suc.prems show ?thesis by (subst round_up.simps) auto
  qed
qed

lemma calloc_ok_pow: "unat c = 2 ^ k \<Longrightarrow> k \<le> 57 \<Longrightarrow> calloc_ok al c SIZEOF_FLOW \<longleftrightarrow> al c"
proof -
  assume c: "unat c = 2 ^ k" and "k \<le> 57"
  then have "(2::nat) ^ k \<le> 2 ^ 57" by (intro power_increasing) auto
  moreover have "unat (SIZE_MAX :: size_t) = 18446744073709551615" by (simp add: unsigned_minus_1_eq_mask mask_eq_exp_minus_1)
  ultimately show ?thesis using c by (simp add: calloc_ok_def)
qed

lemma flow_table_init_ok:
  "\<exists>r t. flow_table_init al hint = Some (r, t) \<and> flow_inv t \<and> flows t = [] \<and>
    (if r = 0 then t_capacity t \<noteq> 0 \<and> (hint \<le> t_capacity t \<or> unat (t_capacity t) = 2 ^ 57) else r = -1 \<and> t_capacity t = 0)"
proof -
  obtain cap m where cap: "round_up hint MIN_CAPACITY = Some cap" "unat cap = 2 ^ m" "4 \<le> m" "m \<le> 57"
      "hint \<le> cap \<or> m = 57"
    using round_up_ok [of MIN_CAPACITY 4 hint] by auto
  have "cap \<noteq> 0" using cap(2) by auto
  moreover have "flow_inv \<lparr>t_slots = replicate (unat cap) flow0, t_capacity = cap, t_count = 0\<rparr>"
    using cap by (auto simp: flow_inv_def tab_empty)
  moreover have "flow_inv \<lparr>t_slots = [], t_capacity = 0, t_count = 0\<rparr>" by (simp add: flow_inv_def)
  ultimately show ?thesis
    using cap by (cases "al cap") (auto simp: flow_table_init_def calloc_ok_pow flows_def)
qed

lemma flow_table_free_ok: "flow_inv (flow_table_free t)" "flows (flow_table_free t) = []"
  by (simp_all add: flow_inv_def flow_table_free_def flows_def live_def)

lemma grow_ok:
  assumes t: "unat (t_capacity t) = 2 ^ k" "4 \<le> k" "k \<le> 57" "length (t_slots t) = 2 ^ k" "tab (t_slots t)"
  shows "\<exists>r t'. grow al t = Some (r, t') \<and> (r = 0 \<longleftrightarrow> k \<le> 56 \<and> al (t_capacity t * 2)) \<and>
    (if r = 0 then k \<le> 56 \<and> unat (t_capacity t') = 2 ^ Suc k \<and> length (t_slots t') = 2 ^ Suc k \<and>
       tab (t_slots t') \<and> mset (flows t') = mset (flows t) \<and> t_count t' = t_count t
     else r = -1 \<and> t' = t)"
proof (cases "t_capacity t \<le> SIZE_MAX div 2 div SIZEOF_FLOW \<and> calloc_ok al (t_capacity t * 2) SIZEOF_FLOW")
  case False
  then have "grow al t = Some (-1, t)" by (auto simp: grow_def not_le)
  moreover have "\<not> (k \<le> 56 \<and> al (t_capacity t * 2))"
    using False growth_limit_pow [OF t(1)] calloc_ok_pow [OF double_cap [OF t(1)]] by auto
  ultimately show ?thesis by simp
next
  case True
  then have k: "k \<le> 56" using growth_limit_pow [OF t(1)] by blast
  have new: "unat (t_capacity t * 2) = 2 ^ Suc k" using t(1) k by (rule double_cap)
  have "\<exists>r. grow_loop (t_slots t) (t_capacity t) (t_capacity t * 2) 0 (replicate (unat (t_capacity t * 2)) flow0) = Some r \<and>
      length r = 2 ^ Suc k \<and> tab r \<and> mset (live r) = mset (live (t_slots t))"
    by (rule grow_loop_ok [OF _ new]) (use t k new in \<open>simp_all add: tab_empty\<close>)
  moreover have "al (t_capacity t * 2)" using True by (simp add: calloc_ok_def)
  ultimately show ?thesis using True new k by (auto simp: grow_def not_less flows_def)
qed

text \<open>The load check does not wrap, and after it there is room for one more flow.\<close>

lemma load_check:
  fixes c n :: size_t
  assumes "unat c = 2 ^ k" "k \<le> 57" "10 * unat n \<le> 7 * 2 ^ k"
  shows "(n + 1) * LOAD_DEN > c * LOAD_NUM \<longleftrightarrow> 10 * (unat n + 1) > 7 * 2 ^ k"
proof -
  have "(2::nat) ^ k \<le> 2 ^ 57" using assms(2) by (intro power_increasing) auto
  then have pow: "(2::nat) ^ k \<le> 144115188075855872" by simp
  have n1: "unat (n + 1) = unat n + 1" using assms(3) pow by (simp add: unat_word_ariths)
  define m where "m = n + 1"
  have "unat m * 10 < 18446744073709551616" using assms(3) pow n1 by (simp add: m_def)
  then have "unat (m * 10) = (unat n + 1) * 10" by (simp add: unat_word_ariths(2) n1 [folded m_def])
  moreover have "unat (c * 7) = 2 ^ k * 7" using pow by (simp add: unat_word_ariths(2) assms(1))
  ultimately show ?thesis by (simp add: word_less_nat_alt flip: m_def) linarith
qed

lemma tab_key_ok: "tab slots \<Longrightarrow> f \<in> set slots \<Longrightarrow> f_in_use f \<Longrightarrow> key_ok (f_key f)"
  by (auto simp: tab_def slot_ok_def in_set_conv_nth)

lemma match_stop:
  assumes "tab slots" "key_ok key" "f \<in> set slots"
  shows "\<not> f_in_use f \<or> key_equal (f_key f) key \<longleftrightarrow> \<not> f_in_use f \<or> f_key f = key"
    "\<not> f_in_use f \<or> (f_hash f = key_hash key \<and> key_equal (f_key f) key) \<longleftrightarrow> \<not> f_in_use f \<or> f_key f = key"
proof -
  have "f_in_use f \<Longrightarrow> f_hash f = key_hash (f_key f) \<and> key_ok (f_key f)"
    using assms(1,3) by (auto simp: tab_def slot_ok_def in_set_conv_nth)
  with assms(2) show "\<not> f_in_use f \<or> key_equal (f_key f) key \<longleftrightarrow> \<not> f_in_use f \<or> f_key f = key"
    "\<not> f_in_use f \<or> (f_hash f = key_hash key \<and> key_equal (f_key f) key) \<longleftrightarrow> \<not> f_in_use f \<or> f_key f = key"
    by (auto simp: key_equal_iff)
qed

lemma cap_not_0: "unat c = 2 ^ k \<Longrightarrow> c \<noteq> 0" for c :: "'a::len word"
  by auto

lemma flow_table_find_ok:
  assumes inv: "flow_inv t" and key: "key_ok key"
  shows "flow_table_find t key = Some (lookup t key)"
proof (cases "t_capacity t = 0")
  case True
  then show ?thesis using inv by (auto simp: flow_inv_def flow_table_find_def lookup_def flows_def)
next
  case False
  then obtain k where k: "k \<le> 57" "unat (t_capacity t) = 2 ^ k" "length (t_slots t) = 2 ^ k" "tab (t_slots t)"
      "10 * length (live (t_slots t)) \<le> 7 * 2 ^ k"
    using inv by (auto simp: flow_inv_def)
  have room: "length (live (t_slots t)) < length (t_slots t)"
    using k(3,5) zero_less_power [of "2 :: nat" k] by linarith
  have "k < 64" using k(1) by simp
  from search [OF k(3,2) this k(4) room match_stop(1) [OF k(4) key]]
  obtain j where j: "probe (\<lambda>s. \<not> f_in_use s \<or> key_equal (f_key s) key) (t_slots t) (t_capacity t - 1)
        (key_hash key AND (t_capacity t - 1)) = Some j" "unat j < length (t_slots t)"
    and found: "if f_in_use (t_slots t ! unat j) then f_key (t_slots t ! unat j) = key
      else (\<forall>f\<in>set (live (t_slots t)). f_key f \<noteq> key)" by (auto split: if_splits)
  have "lookup t key = (if f_in_use (t_slots t ! unat j) then Some (t_slots t ! unat j) else None)"
    using found j(2) inv by (auto simp: lookup_iff lookup_None_iff flows_def split: if_splits)
  with False j(1) show ?thesis by (simp add: flow_table_find_def Let_def)
qed

text \<open>Room for one more flow in an array of \<open>2 ^ k\<close> slots.\<close>

definition roomy :: "nat \<Rightarrow> flow_table \<Rightarrow> bool" where
  "roomy k t \<longleftrightarrow> 4 \<le> k \<and> k \<le> 57 \<and> unat (t_capacity t) = 2 ^ k \<and> length (t_slots t) = 2 ^ k \<and>
     tab (t_slots t) \<and> unat (t_count t) = length (flows t) \<and> 10 * (length (flows t) + 1) \<le> 7 * 2 ^ k"

lemma roomy_inv: "roomy k t \<Longrightarrow> flow_inv t"
  by (auto simp: roomy_def flow_inv_def flows_def)

text \<open>When a table can take one more packet: it has been allocated, and it is below its load
  limit or can double.\<close>

definition can_add :: "alloc \<Rightarrow> flow_table \<Rightarrow> bool" where
  "can_add al t \<longleftrightarrow> t_capacity t \<noteq> 0 \<and>
     (10 * (length (flows t) + 1) \<le> 7 * unat (t_capacity t) \<or>
      unat (t_capacity t) \<le> 2 ^ 56 \<and> al (t_capacity t * 2))"

lemma make_room:
  assumes "flow_inv t" "t_capacity t \<noteq> 0"
  shows "\<exists>r t'. (if (t_count t + 1) * LOAD_DEN > t_capacity t * LOAD_NUM then grow al t else Some (0, t)) = Some (r, t') \<and>
    (r = 0 \<longleftrightarrow> can_add al t) \<and>
    (if r = 0 then (\<exists>k. roomy k t') \<and> mset (flows t') = mset (flows t) else r = -1 \<and> t' = t)"
proof -
  obtain k where k: "4 \<le> k" "k \<le> 57" "unat (t_capacity t) = 2 ^ k" "length (t_slots t) = 2 ^ k" "tab (t_slots t)"
      "unat (t_count t) = length (flows t)" "10 * length (flows t) \<le> 7 * 2 ^ k"
    using assms by (auto simp: flow_inv_def flows_def)
  note check = load_check [OF k(3,2), of "t_count t"]
  show ?thesis
  proof (cases "(t_count t + 1) * LOAD_DEN > t_capacity t * LOAD_NUM")
    case False
    then have "roomy k t" using k check by (simp add: roomy_def)
    with False assms(2) show ?thesis by (auto simp: can_add_def roomy_def)
  next
    case True
    obtain r t' where g: "grow al t = Some (r, t')" and iff: "r = 0 \<longleftrightarrow> k \<le> 56 \<and> al (t_capacity t * 2)" and r:
      "if r = 0 then k \<le> 56 \<and> unat (t_capacity t') = 2 ^ Suc k \<and> length (t_slots t') = 2 ^ Suc k \<and>
         tab (t_slots t') \<and> mset (flows t') = mset (flows t) \<and> t_count t' = t_count t
       else r = -1 \<and> t' = t"
      using grow_ok [OF k(3,1,2,4,5), of al] by blast
    have "(2::nat) ^ 4 \<le> 2 ^ k" using k(1) by (intro power_increasing) auto
    then have "10 * (length (flows t) + 1) \<le> 7 * 2 ^ Suc k" using k(7) by simp
    moreover have "length (flows t') = length (flows t)" if "mset (flows t') = mset (flows t)"
      using that by (metis size_mset)
    ultimately have "roomy (Suc k) t'" if "r = 0" using that r k by (simp add: roomy_def)
    moreover have "can_add al t \<longleftrightarrow> r = 0"
      using True k check assms(2) iff power_increasing_iff [of "2 :: nat" k 56] by (simp add: can_add_def)
    ultimately show ?thesis using True g r by (auto split: if_splits)
  qed
qed

lemma new_flow_sels [simp]: "f_key (new_flow key) = key" "f_in_use (new_flow key)" "f_hash (new_flow key) = key_hash key"
  by (simp_all add: new_flow_def)

lemma flow_table_find_or_insert_ok:
  assumes inv: "flow_inv t" and key: "key_ok key" and cap: "t_capacity t \<noteq> 0"
  shows "\<exists>t' r. flow_table_find_or_insert al t key = Some (t', r) \<and> (r \<noteq> None \<longleftrightarrow> can_add al t) \<and>
    (case r of None \<Rightarrow> t' = t
     | Some (i, ins) \<Rightarrow> flow_inv t' \<and> unat i < length (t_slots t') \<and> f_in_use (t_slots t' ! unat i) \<and>
         ins = (lookup t key = None) \<and>
         t_slots t' ! unat i = (case lookup t key of None \<Rightarrow> new_flow key | Some f \<Rightarrow> f) \<and>
         mset (flows t') = (if ins then add_mset (new_flow key) (mset (flows t)) else mset (flows t)))"
proof -
  let ?load = "if (t_count t + 1) * LOAD_DEN > t_capacity t * LOAD_NUM then grow al t else Some (0, t)"
  obtain r t1 where load: "?load = Some (r, t1)"
    and can: "r = 0 \<longleftrightarrow> can_add al t"
    and r: "if r = 0 then (\<exists>k. roomy k t1) \<and> mset (flows t1) = mset (flows t) else r = -1 \<and> t1 = t"
    using make_room [OF inv cap, of al] by blast
  have unfold: "flow_table_find_or_insert al t key = Option.bind (Some (r, t1)) (\<lambda>(r, t). if r \<noteq> 0 then Some (t, None)
      else Option.bind (probe (\<lambda>s. \<not> f_in_use s \<or> (f_hash s = key_hash key \<and> key_equal (f_key s) key)) (t_slots t)
          (t_capacity t - 1) (key_hash key AND (t_capacity t - 1))) (\<lambda>i.
        if f_in_use (t_slots t ! unat i) then Some (t, Some (i, False))
        else Option.bind (wr (t_slots t) (unat i) (new_flow key)) (\<lambda>slots.
            Some (t\<lparr>t_slots := slots, t_count := t_count t + 1\<rparr>, Some (i, True)))))"
    unfolding load [symmetric] by (simp only: flow_table_find_or_insert_def Let_def new_flow_def cap if_False)
  show ?thesis
  proof (cases "r = 0")
    case False
    with r can show ?thesis by (simp add: unfold)
  next
    case True
    then obtain k where k: "roomy k t1" and same: "mset (flows t1) = mset (flows t)" using r by auto
    note t1 = k [unfolded roomy_def]
    have room: "length (live (t_slots t1)) < length (t_slots t1)"
      using t1 zero_less_power [of "2 :: nat" k] by (auto simp: flows_def)
    have look: "lookup t1 = lookup t" using inv roomy_inv [OF k] same by (rule lookup_same)
    have "\<exists>j. probe (\<lambda>s. \<not> f_in_use s \<or> (f_hash s = key_hash key \<and> key_equal (f_key s) key)) (t_slots t1)
        (t_capacity t1 - 1) (key_hash key AND (t_capacity t1 - 1)) = Some j \<and> unat j < length (t_slots t1) \<and>
      (if f_in_use (t_slots t1 ! unat j) then f_key (t_slots t1 ! unat j) = key
       else (\<forall>f\<in>set (live (t_slots t1)). f_key f \<noteq> key) \<and> chain (t_slots t1) (unat (key_hash key)) (unat j))"
      using t1 room key by (intro search match_stop(2)) auto
    then obtain j where j: "probe (\<lambda>s. \<not> f_in_use s \<or> (f_hash s = key_hash key \<and> key_equal (f_key s) key)) (t_slots t1)
        (t_capacity t1 - 1) (key_hash key AND (t_capacity t1 - 1)) = Some j" "unat j < length (t_slots t1)"
      and at: "if f_in_use (t_slots t1 ! unat j) then f_key (t_slots t1 ! unat j) = key
       else (\<forall>f\<in>set (live (t_slots t1)). f_key f \<noteq> key) \<and> chain (t_slots t1) (unat (key_hash key)) (unat j)"
      by blast
    show ?thesis
    proof (cases "f_in_use (t_slots t1 ! unat j)")
      case used: True
      with at j have "lookup t key = Some (t_slots t1 ! unat j)"
        by (simp add: look [symmetric] lookup_iff [OF roomy_inv [OF k]] flows_def)
      with used True j same roomy_inv [OF k] can show ?thesis by (auto simp: unfold)
    next
      case free: False
      let ?t = "t1\<lparr>t_slots := (t_slots t1)[unat j := new_flow key], t_count := t_count t1 + 1\<rparr>"
      have none: "lookup t key = None" using at free by (simp add: look [symmetric] lookup_None_iff flows_def)
      have ms: "mset (flows ?t) = add_mset (new_flow key) (mset (flows t))"
        using free j(2) same by (simp add: flows_def live_insert)
      then have len: "length (flows ?t) = length (flows t1) + 1" using same by (metis size_add_mset size_mset Suc_eq_plus1)
      have "tab (t_slots ?t)" using t1 at free j(2) key by (auto intro!: tab_insert simp: slot_ok_def)
      moreover have "(2 :: nat) ^ k \<le> 2 ^ 57" using t1 by (intro power_increasing) auto
      then have "unat (t_count t1 + 1) = length (flows t1) + 1" using t1 by (simp add: unat_word_ariths)
      ultimately have "flow_inv ?t" using t1 len by (auto simp: flow_inv_def flows_def intro!: exI [of _ k])
      with free True j none ms can show ?thesis by (auto simp: unfold wr_def)
    qed
  qed
qed

lemma bump_sels [simp]:
  "f_key (bump a b c d e f) = f_key f" "f_in_use (bump a b c d e f) = f_in_use f"
  "f_hash (bump a b c d e f) = f_hash f"
  by (simp_all add: bump_def Let_def)

text \<open>What accounting a packet makes of the flow of its key.\<close>

definition account_flow :: "flow_key \<Rightarrow> bool \<Rightarrow> u8 \<Rightarrow> u32 \<Rightarrow> u64 \<Rightarrow> flow option \<Rightarrow> flow" where
  "account_flow key reversed flags wire_len ts_ns fo =
     bump (fo = None) reversed flags wire_len ts_ns (case fo of None \<Rightarrow> new_flow key | Some f \<Rightarrow> f)"

lemma lookup_key: "flow_inv t \<Longrightarrow> lookup t key = Some f \<Longrightarrow> f_key f = key"
  by (simp add: lookup_iff)

lemma account_flow_key [simp]:
  "flow_inv t \<Longrightarrow> f_key (account_flow key a b c d (lookup t key)) = key"
  by (auto simp: account_flow_def lookup_key split: option.split)

lemma lookup_update:
  assumes "flow_inv t" "flow_inv t'" "f_key g = key"
    and ms: "mset (flows t') = add_mset g (mset (flows t) - (case lookup t key of None \<Rightarrow> {#} | Some f \<Rightarrow> {#f#}))"
  shows "lookup t' = (lookup t)(key \<mapsto> g)"
proof
  fix k
  let ?old = "case lookup t key of None \<Rightarrow> {#} | Some f \<Rightarrow> {#f#}"
  have set': "f \<in> set (flows t') \<longleftrightarrow> f = g \<or> f \<in># mset (flows t) - ?old" for f
    using arg_cong [OF ms, of "\<lambda>M. f \<in># M"] by simp
  have other: "f \<in># mset (flows t) - ?old \<longleftrightarrow> f \<in> set (flows t)" if "f_key f \<noteq> key" for f
    using that assms(1) by (auto simp: lookup_iff in_diff_count split: option.splits)
  show "lookup t' k = ((lookup t)(key \<mapsto> g)) k"
  proof (cases "k = key")
    case True
    then show ?thesis using assms(2,3) set' by (simp add: lookup_iff)
  next
    case False
    have "lookup t' k = Some f \<longleftrightarrow> lookup t k = Some f" for f
      using False other [of f] set' [of f] assms by (auto simp: lookup_iff)
    then show ?thesis using False by (simp add: option_eqI)
  qed
qed

lemma account_ok:
  assumes inv: "flow_inv t" and key: "key_ok key"
  shows "\<exists>r t'. account al t key reversed flags wire_len ts_ns = Some (r, t') \<and> flow_inv t' \<and>
    (r = 0 \<longleftrightarrow> can_add al t) \<and> (r = 0 \<longrightarrow> t_capacity t' \<noteq> 0) \<and>
    (if r = 0
     then mset (flows t') = add_mset (account_flow key reversed flags wire_len ts_ns (lookup t key))
            (mset (flows t) - (case lookup t key of None \<Rightarrow> {#} | Some f \<Rightarrow> {#f#}))
     else r = -1 \<and> t' = t)"
proof (cases "t_capacity t = 0")
  case True
  then show ?thesis using inv by (simp add: account_def flow_table_find_or_insert_def can_add_def)
next
  case False
  from flow_table_find_or_insert_ok [OF inv key this, of al]
  obtain t1 r where run: "flow_table_find_or_insert al t key = Some (t1, r)" and
    can: "r \<noteq> None \<longleftrightarrow> can_add al t" and
    r: "case r of None \<Rightarrow> t1 = t
     | Some (i, ins) \<Rightarrow> flow_inv t1 \<and> unat i < length (t_slots t1) \<and> f_in_use (t_slots t1 ! unat i) \<and>
         ins = (lookup t key = None) \<and>
         t_slots t1 ! unat i = (case lookup t key of None \<Rightarrow> new_flow key | Some f \<Rightarrow> f) \<and>
         mset (flows t1) = (if ins then add_mset (new_flow key) (mset (flows t)) else mset (flows t))" by blast
  show ?thesis
  proof (cases r)
    case None
    then show ?thesis using run r inv can by (simp add: account_def)
  next
    case (Some p)
    then obtain i ins where p: "r = Some (i, ins)" by (cases p) auto
    let ?g = "account_flow key reversed flags wire_len ts_ns (lookup t key)"
    let ?t = "t1\<lparr>t_slots := (t_slots t1)[unat i := ?g]\<rparr>"
    have i: "flow_inv t1" "unat i < length (t_slots t1)" "f_in_use (t_slots t1 ! unat i)" and ins: "ins = (lookup t key = None)"
      and at: "t_slots t1 ! unat i = (case lookup t key of None \<Rightarrow> new_flow key | Some f \<Rightarrow> f)"
      and ms: "mset (flows t1) = (if ins then add_mset (new_flow key) (mset (flows t)) else mset (flows t))"
      using r [unfolded p option.case prod.case] by blast+
    have g: "?g = bump ins reversed flags wire_len ts_ns (t_slots t1 ! unat i)" by (simp add: account_flow_def ins at)
    have ms': "mset (flows ?t) = add_mset ?g (mset (flows t1) - {#t_slots t1 ! unat i#})"
      using i by (simp add: flows_def live_update g)
    have "t_slots t1 ! unat i \<in># mset (flows t1)" using i by (simp add: flows_def)
    then have "size (mset (flows ?t)) = size (mset (flows t1))" unfolding ms' by (metis insert_DiffM size_add_mset)
    then have "length (flows ?t) = length (flows t1)" by simp
    moreover have "tab (t_slots ?t)" using i by (auto simp: flow_inv_def g intro!: tab_update)
    ultimately have "flow_inv ?t" using i by (auto simp: flow_inv_def flows_def)
    moreover have "mset (flows t1) - {#t_slots t1 ! unat i#} = mset (flows t) - (case lookup t key of None \<Rightarrow> {#} | Some f \<Rightarrow> {#f#})"
      using ms at ins by (auto split: option.split)
    moreover have "account al t key reversed flags wire_len ts_ns = Some (0, ?t)"
      using run p i by (simp add: account_def wr_def g)
    moreover have "t_capacity t1 \<noteq> 0" using i by (auto simp: flow_inv_def)
    ultimately show ?thesis using ms' can p by auto
  qed
qed

section \<open>Iteration\<close>

primrec fold_opt :: "('a \<Rightarrow> 's \<Rightarrow> 's option) \<Rightarrow> 'a list \<Rightarrow> 's \<Rightarrow> 's option" where
  "fold_opt body [] st = Some st"
| "fold_opt body (x # xs) st = Option.bind (body x st) (fold_opt body xs)"

lemma flow_table_next_live:
  assumes "length (t_slots t) = unat (t_capacity t)"
  shows "\<exists>pos'. flow_table_next t pos = (case live (drop (unat pos) (t_slots t)) of
      [] \<Rightarrow> Some (None, pos') | f # fs \<Rightarrow> Some (Some f, pos')) \<and>
    (\<forall>f fs. live (drop (unat pos) (t_slots t)) = f # fs \<longrightarrow> live (drop (unat pos') (t_slots t)) = fs)"
  using assms
proof (induction t pos rule: flow_table_next.induct)
  case (1 t pos)
  show ?case
  proof (cases "pos < t_capacity t")
    case False
    then show ?thesis using "1.prems"
      by (subst flow_table_next.simps) (auto simp: live_def word_less_nat_alt not_less intro!: exI [of _ pos])
  next
    case True
    then have pos: "unat pos < length (t_slots t)" "unat (pos + 1) = Suc (unat pos)"
      using "1.prems" unat_inc [OF True] by (simp_all add: word_less_nat_alt)
    then have drop: "drop (unat pos) (t_slots t) = t_slots t ! unat pos # drop (unat (pos + 1)) (t_slots t)"
      by (simp add: Cons_nth_drop_Suc)
    show ?thesis
    proof (cases "f_in_use (t_slots t ! unat pos)")
      case used: True
      then show ?thesis using True pos drop
        by (subst flow_table_next.simps) (auto simp: live_def Let_def intro!: exI [of _ "pos + 1"])
    next
      case False
      with "1.IH" [OF True pos(1) refl False "1.prems"] True pos drop show ?thesis
        by (subst flow_table_next.simps) (simp add: live_def Let_def)
    qed
  qed
qed

lemma foreach_from:
  assumes "length (t_slots t) = unat (t_capacity t)"
  shows "foreach t body pos st = fold_opt body (live (drop (unat pos) (t_slots t))) st"
proof (induction "live (drop (unat pos) (t_slots t))" arbitrary: pos st)
  case Nil
  obtain pos' where "flow_table_next t pos = Some (None, pos')"
    using flow_table_next_live [OF assms, of pos] Nil by (auto simp flip: Nil)
  then show ?case by (subst foreach.simps) (simp flip: Nil)
next
  case (Cons f fs)
  obtain pos' where n: "flow_table_next t pos = Some (Some f, pos')" "live (drop (unat pos') (t_slots t)) = fs"
    using flow_table_next_live [OF assms, of pos] by (auto simp flip: Cons(2))
  then have "foreach t body pos' = fold_opt body fs" using Cons(1) [of pos'] by (intro ext) simp
  with n show ?case by (subst foreach.simps) (simp flip: Cons(2))
qed

lemma flow_inv_length: "flow_inv t \<Longrightarrow> length (t_slots t) = unat (t_capacity t)"
  by (auto simp: flow_inv_def)

lemma flow_inv_count: "flow_inv t \<Longrightarrow> unat (t_count t) = length (flows t)"
  by (auto simp: flow_inv_def flows_def)

lemma foreach_flows: "flow_inv t \<Longrightarrow> foreach t body 0 st = fold_opt body (flows t) st"
  by (simp add: foreach_from flow_inv_length flows_def)

end
