(* ===== verification/Flow_Props.thy ===== *)
theory Flow_Props
  imports Flow_Table
begin

text \<open>
  What the flow table promises to its users. \<open>flow_store\<close> is the interface: a store of
  flows that accounts packets under keys, with the law that accounting a packet changes the
  flow of its key and nothing else, or fails and changes nothing. From it follows what
  every flow holds after any sequence of packets. \<open>table\<close> interprets it on the
  open-addressing table. The keys, the iteration and the tunnels follow.
\<close>

section \<open>Stores of flows\<close>

text \<open>One packet for a store: its key, direction, TCP flags, length and time.\<close>

type_synonym flow_event = "flow_key \<times> bool \<times> u8 \<times> u32 \<times> u64"

abbreviation (input) ev_key :: "flow_event \<Rightarrow> flow_key" where "ev_key \<equiv> fst"
definition ev_rev :: "flow_event \<Rightarrow> bool" where "ev_rev e = fst (snd e)"
definition ev_flags :: "flow_event \<Rightarrow> u8" where "ev_flags e = fst (snd (snd e))"
definition ev_len :: "flow_event \<Rightarrow> u32" where "ev_len e = fst (snd (snd (snd e)))"
definition ev_ts :: "flow_event \<Rightarrow> u64" where "ev_ts e = snd (snd (snd (snd e)))"

definition event_flow :: "flow_event \<Rightarrow> flow option \<Rightarrow> flow" where
  "event_flow e = account_flow (ev_key e) (ev_rev e) (ev_flags e) (ev_len e) (ev_ts e)"

text \<open>The flow that a sequence of packets of one key makes.\<close>

definition flow_of :: "flow_event list \<Rightarrow> flow option" where
  "flow_of es = foldl (\<lambda>fo e. Some (event_flow e fo)) None es"

text \<open>Packets accounted one after the other, until an allocation fails.\<close>

fun add_all :: "(alloc \<Rightarrow> 't \<Rightarrow> flow_event \<Rightarrow> (int \<times> 't) option) \<Rightarrow> 't \<Rightarrow> (alloc \<times> flow_event) list \<Rightarrow> (int \<times> 't) option" where
  "add_all add t [] = Some (0, t)"
| "add_all add t ((al, e) # es) = do {
     (r, t') \<leftarrow> add al t e;
     if r \<noteq> 0 then Some (r, t') else add_all add t' es }"

locale flow_store =
  fixes inv :: "'t \<Rightarrow> bool" and look :: "'t \<Rightarrow> flow_key \<Rightarrow> flow option"
    and add :: "alloc \<Rightarrow> 't \<Rightarrow> flow_event \<Rightarrow> (int \<times> 't) option"
  assumes add_law: "inv t \<Longrightarrow> key_ok (ev_key e) \<Longrightarrow> \<exists>r t'. add al t e = Some (r, t') \<and> inv t' \<and>
    (if r = 0 then look t' = (look t)(ev_key e \<mapsto> event_flow e (look t (ev_key e))) else r = -1 \<and> t' = t)"
begin

text \<open>After the packets \<open>qs\<close> every key has the flow that its own packets make.\<close>

definition holds :: "'t \<Rightarrow> flow_event list \<Rightarrow> bool" where
  "holds t qs \<longleftrightarrow> inv t \<and> (\<forall>k. look t k = flow_of (filter (\<lambda>e. ev_key e = k) qs))"

lemma holds_add:
  assumes "holds t qs" "key_ok (ev_key e)"
  shows "\<exists>r t'. add al t e = Some (r, t') \<and> (if r = 0 then holds t' (qs @ [e]) else r = -1 \<and> t' = t)"
  using add_law [of t e al] assms by (auto simp: holds_def flow_of_def split: if_splits)

lemma holds_add_all:
  assumes "holds t qs" "\<forall>p\<in>set ps. key_ok (ev_key (snd p))"
  shows "\<exists>r t' n. add_all add t ps = Some (r, t') \<and> n \<le> length ps \<and> holds t' (qs @ map snd (take n ps)) \<and>
    (if r = 0 then n = length ps else r = -1 \<and> n < length ps)"
  using assms
proof (induction ps arbitrary: t qs)
  case (Cons p ps)
  obtain al e where p: "p = (al, e)" by (cases p)
  obtain r t1 where step: "add al t e = Some (r, t1)" "if r = 0 then holds t1 (qs @ [e]) else r = -1 \<and> t1 = t"
    using holds_add [OF Cons.prems(1), of e al] Cons.prems(2) p by auto
  show ?case
  proof (cases "r = 0")
    case True
    with step Cons.IH [of t1 "qs @ [e]"] Cons.prems(2)
    obtain r' t' n where "add_all add t1 ps = Some (r', t')" "n \<le> length ps" "holds t' (qs @ e # map snd (take n ps))"
      "if r' = 0 then n = length ps else r' = -1 \<and> n < length ps" by auto
    with True step p show ?thesis by (intro exI [of _ r'] exI [of _ t'] exI [of _ "Suc n"]) auto
  next
    case False
    with step p Cons.prems(1) show ?thesis by (intro exI [of _ r] exI [of _ t] exI [of _ 0]) auto
  qed
next
  case Nil
  then show ?case by (intro exI [of _ 0] exI [of _ t]) simp
qed

end

text \<open>A store with room: as long as memory is granted, it takes a packet and has room for
  one packet fewer.\<close>

locale roomy_store = flow_store inv look add
  for inv :: "'t \<Rightarrow> bool" and look and add +
  fixes room :: "'t \<Rightarrow> nat"
  assumes room_law: "inv t \<Longrightarrow> key_ok (ev_key e) \<Longrightarrow> \<forall>n. al n \<Longrightarrow> 0 < room t \<Longrightarrow>
    \<exists>t'. add al t e = Some (0, t') \<and> room t \<le> Suc (room t')"
begin

lemma add_all_succeeds:
  assumes "inv t" "\<forall>p\<in>set ps. key_ok (ev_key (snd p)) \<and> (\<forall>n. fst p n)" "length ps \<le> room t"
  shows "\<exists>t'. add_all add t ps = Some (0, t')"
  using assms
proof (induction ps arbitrary: t)
  case (Cons p ps)
  obtain al e where p: "p = (al, e)" by (cases p)
  obtain t' where "add al t e = Some (0, t')" "room t \<le> Suc (room t')"
    using room_law [of t e al] Cons.prems p by auto
  moreover from this have "inv t'" using add_law [of t e al] Cons.prems p by auto
  ultimately show ?case using Cons.IH [of t'] Cons.prems p by auto
qed simp

end

text \<open>The table is such a store.\<close>

definition table_add :: "alloc \<Rightarrow> flow_table \<Rightarrow> flow_event \<Rightarrow> (int \<times> flow_table) option" where
  "table_add al t e = account al t (ev_key e) (ev_rev e) (ev_flags e) (ev_len e) (ev_ts e)"

interpretation table: flow_store flow_inv lookup table_add
proof
  fix t e al
  assume inv: "flow_inv t" and key: "key_ok (ev_key e)"
  let ?g = "event_flow e (lookup t (ev_key e))"
  from account_ok [OF inv key, of al "ev_rev e" "ev_flags e" "ev_len e" "ev_ts e"] obtain r t' where
    run: "table_add al t e = Some (r, t')" and inv': "flow_inv t'" and
    ms: "if r = 0 then mset (flows t') = add_mset ?g
            (mset (flows t) - (case lookup t (ev_key e) of None \<Rightarrow> {#} | Some f \<Rightarrow> {#f#}))
         else r = -1 \<and> t' = t"
    unfolding table_add_def event_flow_def by blast
  have "f_key ?g = ev_key e" using inv by (simp add: event_flow_def)
  from lookup_update [OF inv inv' this] ms run inv'
  show "\<exists>r t'. table_add al t e = Some (r, t') \<and> flow_inv t' \<and>
    (if r = 0 then lookup t' = (lookup t)(ev_key e \<mapsto> event_flow e (lookup t (ev_key e))) else r = -1 \<and> t' = t)"
    by (intro exI [of _ r] exI [of _ t']) (auto split: if_splits)
qed

text \<open>A table that has been allocated has room for \<open>2 ^ 56\<close> flows: it can double as long
  as it has at most \<open>2 ^ 56\<close> slots, and \<open>2 ^ 57\<close> slots hold that many.\<close>

definition table_room :: "flow_table \<Rightarrow> nat" where
  "table_room t = (if t_capacity t = 0 then 0 else 2 ^ 56 - length (flows t))"

lemma can_add_room: "flow_inv t \<Longrightarrow> \<forall>n. al n \<Longrightarrow> 0 < table_room t \<Longrightarrow> can_add al t"
proof -
  assume inv: "flow_inv t" and al: "\<forall>n. al n" and room: "0 < table_room t"
  have cap: "t_capacity t \<noteq> 0" and few: "length (flows t) < 2 ^ 56"
    using room by (cases "t_capacity t = 0"; simp add: table_room_def)+
  from inv cap obtain k where k: "k \<le> 57" "unat (t_capacity t) = 2 ^ k" unfolding flow_inv_def by blast
  from k(1) consider "k \<le> 56" | "k = 57" by linarith
  then show ?thesis
  proof cases
    case 1
    then have "(2::nat) ^ k \<le> 2 ^ 56" by (intro power_increasing) auto
    with al cap show ?thesis unfolding can_add_def k(2) by blast
  next
    case 2
    then have "unat (t_capacity t) = 144115188075855872" using k by simp
    then show ?thesis using few cap unfolding can_add_def by simp
  qed
qed

lemma size_update_le: "size (add_mset g (mset xs - (case look of None \<Rightarrow> {#} | Some f \<Rightarrow> {#f#}))) \<le> Suc (length xs)"
  by (metis Suc_le_mono diff_subset_eq_self size_add_mset size_mset size_mset_mono)

interpretation table_with_room: roomy_store flow_inv lookup table_add table_room
proof
  fix t :: flow_table and e :: flow_event and al :: alloc
  assume inv: "flow_inv t" and key: "key_ok (ev_key e)" and al: "\<forall>n. al n" and room: "0 < table_room t"
  let ?ms = "add_mset (account_flow (ev_key e) (ev_rev e) (ev_flags e) (ev_len e) (ev_ts e) (lookup t (ev_key e)))
    (mset (flows t) - (case lookup t (ev_key e) of None \<Rightarrow> {#} | Some f \<Rightarrow> {#f#}))"
  obtain r t' where run: "table_add al t e = Some (r, t')" "r = 0" "t_capacity t' \<noteq> 0" "mset (flows t') = ?ms"
    using account_ok [OF inv key, of al "ev_rev e" "ev_flags e" "ev_len e" "ev_ts e"] can_add_room [OF inv al room]
    unfolding table_add_def by (smt (verit))
  from run(4) have "length (flows t') \<le> Suc (length (flows t))" by (metis size_mset size_update_le)
  with run room show "\<exists>t'. table_add al t e = Some (0, t') \<and> table_room t \<le> Suc (table_room t')"
    by (auto simp: table_room_def)
qed

section \<open>What a flow holds\<close>

lemma flow_of_snoc: "flow_of (es @ [e]) = Some (event_flow e (flow_of es))"
  by (simp add: flow_of_def)

lemma flow_of_Nil [simp]: "flow_of [] = None"
  by (simp add: flow_of_def)

lemma flow_of_single: "flow_of [e] = Some (event_flow e None)"
  by (simp add: flow_of_def)

lemma flow_of_None_iff [simp]: "flow_of es = None \<longleftrightarrow> es = []"
  by (cases es rule: rev_cases) (simp_all add: flow_of_snoc)

text \<open>The closed form: counts and sums wrap at 64 bits, the times are the true minimum and
  maximum.\<close>

definition flow_sums :: "flow_event list \<Rightarrow> flow \<Rightarrow> bool" where
  "flow_sums es f \<longleftrightarrow>
     f_packets f = of_nat (length es) \<and> f_bytes f = sum_list (map (\<lambda>e. ucast (ev_len e)) es) \<and>
     f_tcp_flags f = foldr (\<lambda>e m. ev_flags e OR m) es 0 \<and>
     f_first_ts_ns f = Min (ev_ts ` set es) \<and> f_last_ts_ns f = Max (ev_ts ` set es) \<and>
     (\<exists>e\<in>set es. ev_ts e = f_first_ts_ns f \<and> f_first_from_b f = ev_rev e)"

lemma foldr_or_acc: "foldr (\<lambda>e m. ev_flags e OR m) es x = foldr (\<lambda>e m. ev_flags e OR m) es 0 OR x"
  by (induction es) (simp_all add: or.assoc)

lemma foldr_or_snoc:
  "foldr (\<lambda>e m. ev_flags e OR m) (es @ [e]) 0 = foldr (\<lambda>e m. ev_flags e OR m) es 0 OR ev_flags e"
  using foldr_or_acc [of es "ev_flags e"] by simp

lemma event_flow_first: "flow_sums [e] (event_flow e None)"
  by (simp add: flow_sums_def event_flow_def account_flow_def bump_def new_flow_def flow0_def)

lemma event_flow_Some:
  "f_packets (event_flow e (Some f)) = f_packets f + 1"
  "f_bytes (event_flow e (Some f)) = f_bytes f + ucast (ev_len e)"
  "f_tcp_flags (event_flow e (Some f)) = f_tcp_flags f OR ev_flags e"
  "f_first_ts_ns (event_flow e (Some f)) = min (ev_ts e) (f_first_ts_ns f)"
  "f_last_ts_ns (event_flow e (Some f)) = max (ev_ts e) (f_last_ts_ns f)"
  "f_first_from_b (event_flow e (Some f)) = (if ev_ts e < f_first_ts_ns f then ev_rev e else f_first_from_b f)"
  by (auto simp: event_flow_def account_flow_def bump_def Let_def min_def max_def)

lemma event_flow_next:
  assumes "flow_sums es f" "es \<noteq> []"
  shows "flow_sums (es @ [e]) (event_flow e (Some f))"
proof -
  note f = assms(1) [unfolded flow_sums_def]
  have times: "Min (ev_ts ` set (es @ [e])) = min (ev_ts e) (f_first_ts_ns f)"
    "Max (ev_ts ` set (es @ [e])) = max (ev_ts e) (f_last_ts_ns f)"
    using f assms(2) by simp_all
  have "\<exists>e'\<in>set (es @ [e]). ev_ts e' = min (ev_ts e) (f_first_ts_ns f) \<and>
      (if ev_ts e < f_first_ts_ns f then ev_rev e else f_first_from_b f) = ev_rev e'"
    using f by (cases "ev_ts e < f_first_ts_ns f") (auto simp: min_def)
  moreover have "foldr (\<lambda>e m. ev_flags e OR m) (es @ [e]) 0 = f_tcp_flags f OR ev_flags e"
    using f by (simp only: foldr_or_snoc)
  ultimately show ?thesis
    unfolding flow_sums_def times event_flow_Some using f by simp
qed

lemma flow_of_sums: "es \<noteq> [] \<Longrightarrow> \<exists>f. flow_of es = Some f \<and> flow_sums es f"
proof (induction es rule: rev_induct)
  case (snoc e es)
  then show ?case
    using event_flow_first [of e] event_flow_next [of es _ e] by (cases "es = []") (auto simp: flow_of_snoc flow_of_single)
qed simp

section \<open>Sums over a table\<close>

lemma sum_list_pick:
  "distinct ks \<Longrightarrow> k \<in> set ks \<Longrightarrow> sum_list (map (\<lambda>k'. if k = k' then w else 0) ks) = (w :: 'w :: comm_monoid_add)"
proof (induction ks)
  case (Cons a ks)
  have "sum_list (map (\<lambda>k'. if k = k' then w else 0) xs) = 0" if "k \<notin> set xs" for xs
    using that by (induction xs) auto
  then show ?case using Cons by auto
qed simp

text \<open>Adding up by key adds up everything.\<close>

lemma sum_list_by_key:
  fixes w :: "'e \<Rightarrow> 'w :: comm_monoid_add"
  assumes "distinct ks" "\<forall>e\<in>set es. g e \<in> set ks"
  shows "sum_list (map (\<lambda>k. sum_list (map w (filter (\<lambda>e. g e = k) es))) ks) = sum_list (map w es)"
  using assms(2)
proof (induction es)
  case (Cons e es)
  have "sum_list (map (\<lambda>k. sum_list (map w (filter (\<lambda>e. g e = k) (e # es)))) ks) =
    sum_list (map (\<lambda>k. (if g e = k then w e else 0) + sum_list (map w (filter (\<lambda>e. g e = k) es))) ks)"
    by (rule arg_cong [where f = sum_list]) auto
  also have "\<dots> = w e + sum_list (map w es)"
    using Cons sum_list_pick [OF assms(1), of "g e" "w e"] by (simp add: sum_list_addf)
  finally show ?case by simp
qed (simp add: sum_list_0)

text \<open>No packet of a table is lost or counted twice: the flows add up to the packets.\<close>

lemma holds_totals:
  assumes "table.holds t es"
  shows "sum_list (map f_packets (flows t)) = of_nat (length es)"
    "sum_list (map f_bytes (flows t)) = sum_list (map (\<lambda>e. ucast (ev_len e)) es)"
proof -
  let ?of = "\<lambda>k. filter (\<lambda>e. ev_key e = k) es"
  have inv: "flow_inv t" and look: "lookup t k = flow_of (?of k)" for k using assms by (auto simp: table.holds_def)
  have dist: "distinct (map f_key (flows t))" using inv by (rule flow_inv_distinct)
  have sums: "flow_sums (?of (f_key f)) f" if "f \<in> set (flows t)" for f
  proof -
    have "lookup t (f_key f) = Some f" using that by (simp add: lookup_iff [OF inv])
    then have "flow_of (?of (f_key f)) = Some f" by (simp add: look)
    then show ?thesis using flow_of_sums [of "?of (f_key f)"] by (cases "?of (f_key f) = []") auto
  qed
  have keys: "\<forall>e\<in>set es. ev_key e \<in> set (map f_key (flows t))"
  proof
    fix e assume "e \<in> set es"
    then have "flow_of (?of (ev_key e)) \<noteq> None" by (auto simp: filter_empty_conv)
    then obtain f where "lookup t (ev_key e) = Some f" unfolding look by blast
    then show "ev_key e \<in> set (map f_key (flows t))" by (auto simp: lookup_iff [OF inv] intro: rev_image_eqI)
  qed
  have by_flow: "sum_list (map h (flows t)) = sum_list (map w es)"
    if "\<And>f. f \<in> set (flows t) \<Longrightarrow> h f = sum_list (map w (?of (f_key f)))" for h and w :: "flow_event \<Rightarrow> u64"
    using sum_list_by_key [OF dist keys, of w] that by (simp add: comp_def cong: map_cong)
  have ones: "sum_list (map (\<lambda>_. 1) xs) = (of_nat (length xs) :: u64)" for xs :: "flow_event list"
    by (induction xs) simp_all
  show "sum_list (map f_packets (flows t)) = of_nat (length es)"
    using by_flow [of f_packets "\<lambda>_. 1"] sums by (simp add: ones flow_sums_def)
  show "sum_list (map f_bytes (flows t)) = sum_list (map (\<lambda>e. ucast (ev_len e)) es)"
    using by_flow [of f_bytes "\<lambda>e. ucast (ev_len e)"] sums by (simp add: flow_sums_def)
qed

section \<open>Keys\<close>

definition swap_ends :: "packet_info \<Rightarrow> packet_info" where
  "swap_ends pi = pi\<lparr>pi_src_addr := pi_dst_addr pi, pi_dst_addr := pi_src_addr pi,
     pi_src_port := pi_dst_port pi, pi_dst_port := pi_src_port pi\<rparr>"

text \<open>The two endpoints of a packet.\<close>

definition src_end :: "packet_info \<Rightarrow> u8 list \<times> u16" where "src_end pi = (pi_src_addr pi, pi_src_port pi)"
definition dst_end :: "packet_info \<Rightarrow> u8 list \<times> u16" where "dst_end pi = (pi_dst_addr pi, pi_dst_port pi)"

definition end_cmp :: "u8 list \<times> u16 \<Rightarrow> u8 list \<times> u16 \<Rightarrow> int" where
  "end_cmp a b = cmp_then (memcmp 16 (fst a) (fst b)) (cmp_num (snd a) (snd b))"

definition ends_key :: "u8 \<Rightarrow> u8 \<Rightarrow> u8 list \<times> u16 \<Rightarrow> u8 list \<times> u16 \<Rightarrow> flow_key" where
  "ends_key v p a b = \<lparr>k_teid = 0, k_ip_version = v, k_proto = p, k_port_a = snd a, k_port_b = snd b,
     k_addr_a = fst a, k_addr_b = fst b\<rparr>"

lemma port_cmp:
  "(if a > b then 1 else 0) - (if a < b then 1 else (0::int)) = cmp_num a b" for a b :: "'a::linorder"
  by (auto simp: cmp_num_def)

lemma flow_key_from_packet_alt:
  "flow_key_from_packet pi = (if \<not> pi_has_l3 pi then None
     else if end_cmp (src_end pi) (dst_end pi) > 0
     then Some (ends_key (pi_ip_version pi) (pi_ip_proto pi) (dst_end pi) (src_end pi), True)
     else Some (ends_key (pi_ip_version pi) (pi_ip_proto pi) (src_end pi) (dst_end pi), False))"
  by (simp add: flow_key_from_packet_def port_cmp Let_def end_cmp_def cmp_then_def src_end_def dst_end_def ends_key_def flow_key0_def)

interpretation ends: cmp_linear "{e. length (fst e) = 16}" end_cmp
proof (intro cmp_linear.intro cmp_linear_axioms.intro)
  have "cmp_order {e :: u8 list \<times> u16. length (fst e) = 16}
      (\<lambda>a b. cmp_then (memcmp 16 (fst a) (fst b)) (cmp_num (snd a) (snd b)))"
    by (intro cmp_order_then cmp_order_by [OF cmp_order_memcmp] cmp_order_by [OF cmp_order_num]) auto
  then show "cmp_order {e. length (fst e) = 16} end_cmp" by (simp add: end_cmp_def [abs_def])
qed (auto simp: end_cmp_def intro: prod_eqI)

lemma ends_in [simp]: "addr_ok pi \<Longrightarrow> src_end pi \<in> {e. length (fst e) = 16}"
  "addr_ok pi \<Longrightarrow> dst_end pi \<in> {e. length (fst e) = 16}"
  by (simp_all add: addr_ok_def src_end_def dst_end_def)

lemma ends_key_eq [simp]: "ends_key v p a b = ends_key v' p' a' b' \<longleftrightarrow> v = v' \<and> p = p' \<and> a = a' \<and> b = b'"
  by (auto simp: ends_key_def prod_eq_iff)

lemma flow_key_ok: "addr_ok pi \<Longrightarrow> flow_key_from_packet pi = Some (key, r) \<Longrightarrow> key_ok key"
  by (auto simp: flow_key_from_packet_alt ends_key_def src_end_def dst_end_def addr_ok_def key_ok_def split: if_splits)

lemma tunnel_key_ok: "addr_ok pi \<Longrightarrow> tunnel_key_from_packet pi = Some key \<Longrightarrow> key_ok key"
  by (auto simp: tunnel_key_from_packet_def addr_ok_def key_ok_def split: if_splits)

text \<open>The key orders the endpoints; an unordered pair has one order.\<close>

lemma flow_key_canonical:
  assumes "addr_ok pi" "pi_has_l3 pi"
  shows "\<exists>a b r. flow_key_from_packet pi = Some (ends_key (pi_ip_version pi) (pi_ip_proto pi) a b, r) \<and>
    a \<in> {e. length (fst e) = 16} \<and> b \<in> {e. length (fst e) = 16} \<and> end_cmp a b \<le> 0 \<and>
    (if r then a = dst_end pi \<and> b = src_end pi \<and> a \<noteq> b else a = src_end pi \<and> b = dst_end pi)"
proof (cases "end_cmp (src_end pi) (dst_end pi) > 0")
  case True
  then have "end_cmp (dst_end pi) (src_end pi) < 0" using ends.swap ends_in assms(1) by blast
  moreover have "dst_end pi \<noteq> src_end pi" using True ends.self ends_in(1) [OF assms(1)] by fastforce
  moreover have "flow_key_from_packet pi =
      Some (ends_key (pi_ip_version pi) (pi_ip_proto pi) (dst_end pi) (src_end pi), True)"
    using True assms(2) by (simp only: flow_key_from_packet_alt simp_thms if_False if_True)
  ultimately show ?thesis using ends_in [OF assms(1)]
    by (intro exI [of _ "dst_end pi"] exI [of _ "src_end pi"] exI [of _ True]) simp
next
  case False
  then have "flow_key_from_packet pi =
      Some (ends_key (pi_ip_version pi) (pi_ip_proto pi) (src_end pi) (dst_end pi), False)"
    using assms(2) by (simp only: flow_key_from_packet_alt simp_thms if_False)
  with False show ?thesis using ends_in [OF assms(1)]
    by (intro exI [of _ "src_end pi"] exI [of _ "dst_end pi"] exI [of _ False]) simp
qed

section \<open>Distinct tunnel endpoints\<close>

lemma teid_cmp_num: "teid_cmp = cmp_num"
  by (intro ext) (auto simp: teid_cmp_def cmp_num_def)

interpretation teids: cmp_linear UNIV teid_cmp
  unfolding teid_cmp_num by (intro cmp_linear.intro cmp_linear_axioms.intro cmp_order_num) simp

lemma teid_cmp_le [simp]: "teid_cmp a b \<le> 0 \<longleftrightarrow> a \<le> b"
  by (auto simp: teid_cmp_def)

lemma count_runs_sorted: "sorted_by teid_cmp xs \<Longrightarrow> count_runs xs = of_nat (card (set xs))"
proof (induction xs rule: count_runs.induct)
  case (3 x y xs)
  then have IH: "count_runs (y # xs) = of_nat (card (set (y # xs)))" by simp
  show ?case
  proof (cases "y = x")
    case True
    then have "set (x # y # xs) = set (y # xs)" by auto
    then show ?thesis unfolding count_runs.simps IH using True by (simp only: simp_thms if_False add_0)
  next
    case False
    with "3.prems" have "x \<notin> set (y # xs)" by (auto dest: antisym)
    then have "card (set (x # y # xs)) = Suc (card (set (y # xs)))" by simp
    with False IH show ?thesis by (simp only: count_runs.simps of_nat_Suc) simp
  qed
qed simp_all

lemma fold_opt_collect:
  "length acc + length fs \<le> n \<Longrightarrow>
   fold_opt (\<lambda>f xs. if length xs < n then Some (xs @ [g f]) else None) fs acc = Some (acc @ map g fs)"
  by (induction fs arbitrary: acc) auto

section \<open>Properties\<close>

text \<open>
  C20. One flow for both directions. A packet and its reply (the same packet with source and
  destination exchanged) have the same key, and opposite directions unless both endpoints
  are the same; and two packets have the same key exactly when they have the same IP
  version and protocol and the same two endpoints, in either order.
\<close>

theorem flow_key_conversation:
  assumes "addr_ok p" "addr_ok q" "pi_has_l3 p" "pi_has_l3 q"
  shows "\<exists>k r k' r'. flow_key_from_packet p = Some (k, r) \<and> flow_key_from_packet q = Some (k', r') \<and>
    (k = k' \<longleftrightarrow> pi_ip_version p = pi_ip_version q \<and> pi_ip_proto p = pi_ip_proto q \<and>
       (src_end p = src_end q \<and> dst_end p = dst_end q \<or> src_end p = dst_end q \<and> dst_end p = src_end q)) \<and>
    (k = k' \<longrightarrow> src_end p \<noteq> dst_end p \<longrightarrow> (r = r' \<longleftrightarrow> src_end p = src_end q))"
proof -
  obtain a b r where p: "flow_key_from_packet p = Some (ends_key (pi_ip_version p) (pi_ip_proto p) a b, r)"
      "a \<in> {e. length (fst e) = 16}" "b \<in> {e. length (fst e) = 16}" "end_cmp a b \<le> 0"
      "if r then a = dst_end p \<and> b = src_end p \<and> a \<noteq> b else a = src_end p \<and> b = dst_end p"
    using flow_key_canonical [OF assms(1,3)] by blast
  obtain a' b' r' where q: "flow_key_from_packet q = Some (ends_key (pi_ip_version q) (pi_ip_proto q) a' b', r')"
      "a' \<in> {e. length (fst e) = 16}" "b' \<in> {e. length (fst e) = 16}" "end_cmp a' b' \<le> 0"
      "if r' then a' = dst_end q \<and> b' = src_end q \<and> a' \<noteq> b' else a' = src_end q \<and> b' = dst_end q"
    using flow_key_canonical [OF assms(2,4)] by blast
  have "a = b" if "a = b'" "b = a'" using ends.antisym [OF p(2,3)] p(4) q(4) that by simp
  then have "a = a' \<and> b = b' \<longleftrightarrow>
      (src_end p = src_end q \<and> dst_end p = dst_end q \<or> src_end p = dst_end q \<and> dst_end p = src_end q)"
    using p(5) q(5) by (auto split: if_splits)
  moreover have "r = r' \<longleftrightarrow> src_end p = src_end q" if "a = a'" "b = b'" "src_end p \<noteq> dst_end p"
    using that p(5) q(5) by (auto split: if_splits)
  ultimately show ?thesis using p(1) q(1) by auto
qed

definition sample_packet :: packet_info where
  "sample_packet = packet_info0\<lparr>pi_has_l2 := True, pi_has_l3 := True, pi_has_l4 := True, pi_ip_version := 4,
     pi_ip_proto := 6, pi_src_addr := [10,0,0,9,0,0,0,0,0,0,0,0,0,0,0,0],
     pi_dst_addr := [10,0,0,2,0,0,0,0,0,0,0,0,0,0,0,0], pi_src_port := 443, pi_dst_port := 40000\<rparr>"

lemma sample_packet_sels [simp]:
  "addr_ok sample_packet" "addr_ok (swap_ends sample_packet)" "pi_has_l3 sample_packet" "pi_has_l3 (swap_ends sample_packet)"
  "pi_ip_version (swap_ends sample_packet) = pi_ip_version sample_packet"
  "pi_ip_proto (swap_ends sample_packet) = pi_ip_proto sample_packet"
  "src_end (swap_ends sample_packet) = dst_end sample_packet" "dst_end (swap_ends sample_packet) = src_end sample_packet"
  "src_end sample_packet \<noteq> dst_end sample_packet"
  by (simp_all add: addr_ok_def sample_packet_def swap_ends_def src_end_def dst_end_def)

theorem flow_key_conversation_witness:
  "\<exists>k r r'. flow_key_from_packet sample_packet = Some (k, r) \<and>
    flow_key_from_packet (swap_ends sample_packet) = Some (k, r') \<and> r \<noteq> r'"
  using flow_key_conversation [of sample_packet "swap_ends sample_packet"] by auto

text \<open>What inserting a key does to the lookups.\<close>

lemma find_or_insert_lookup:
  assumes "flow_inv t" "key_ok key"
  shows "\<exists>t' res. flow_table_find_or_insert al t key = Some (t', res) \<and> flow_inv t' \<and> (res \<noteq> None \<longleftrightarrow> can_add al t) \<and>
    (case res of None \<Rightarrow> t' = t
     | Some (i, inserted) \<Rightarrow> unat i < length (t_slots t') \<and> inserted = (lookup t key = None) \<and>
         t_slots t' ! unat i = (case lookup t key of None \<Rightarrow> new_flow key | Some f \<Rightarrow> f) \<and>
         lookup t' = (lookup t)(key \<mapsto> t_slots t' ! unat i) \<and>
         unat (t_count t') = unat (t_count t) + (if inserted then 1 else 0))"
proof (cases "t_capacity t = 0")
  case True
  then show ?thesis using assms(1) by (simp add: flow_table_find_or_insert_def can_add_def)
next
  case False
  from flow_table_find_or_insert_ok [OF assms False, of al] obtain t' res where
    run: "flow_table_find_or_insert al t key = Some (t', res)" "res \<noteq> None \<longleftrightarrow> can_add al t" and
    res: "case res of None \<Rightarrow> t' = t
     | Some (i, ins) \<Rightarrow> flow_inv t' \<and> unat i < length (t_slots t') \<and> f_in_use (t_slots t' ! unat i) \<and>
         ins = (lookup t key = None) \<and>
         t_slots t' ! unat i = (case lookup t key of None \<Rightarrow> new_flow key | Some f \<Rightarrow> f) \<and>
         mset (flows t') = (if ins then add_mset (new_flow key) (mset (flows t)) else mset (flows t))" by blast
  show ?thesis
  proof (cases res)
    case None
    then show ?thesis using run res assms(1) by simp
  next
    case (Some p)
    then obtain i ins where p: "res = Some (i, ins)" by (cases p) auto
    let ?f = "t_slots t' ! unat i"
    have r: "flow_inv t'" "unat i < length (t_slots t')" "ins = (lookup t key = None)"
        "?f = (case lookup t key of None \<Rightarrow> new_flow key | Some f \<Rightarrow> f)"
        "mset (flows t') = (if ins then add_mset (new_flow key) (mset (flows t)) else mset (flows t))"
      using res by (simp_all add: p)
    have "f_key ?f = key \<and> mset (flows t') = add_mset ?f (mset (flows t) - (case lookup t key of None \<Rightarrow> {#} | Some f \<Rightarrow> {#f#}))"
    proof (cases "lookup t key")
      case None
      then show ?thesis using r(3-5) by (simp add: new_flow_def)
    next
      case (Some f)
      then have "f \<in> set (flows t)" "f_key f = key" using lookup_iff [OF assms(1)] by blast+
      moreover have "?f = f" "mset (flows t') = mset (flows t)" using r(3-5) Some by simp_all
      ultimately show ?thesis using Some by simp
    qed
    then have key: "f_key ?f = key"
      and "mset (flows t') = add_mset ?f (mset (flows t) - (case lookup t key of None \<Rightarrow> {#} | Some f \<Rightarrow> {#f#}))" by blast+
    from lookup_update [OF assms(1) r(1) this] have "lookup t' = (lookup t)(key \<mapsto> ?f)" .
    moreover have "unat (t_count t') = unat (t_count t) + (if ins then 1 else 0)"
      using arg_cong [OF r(5), of size] by (simp add: flow_inv_count assms(1) r(1))
    ultimately show ?thesis using run r by (simp add: p)
  qed
qed

text \<open>
  C15. The table is a finite map. On a table that meets its invariant, a lookup returns the flow stored under the key.
  Finding or inserting a key always returns and keeps the invariant. If it has room, it returns the place of the
  flow of that key in the table it leaves (which may have grown), and whether that flow is new: the flow is the
  one that was stored, or a fresh one; the number of flows grows by one exactly for a new key; and later lookups see that flow under the key,
  and every other key as before. If it reports that memory ran out, the table is unchanged, and it reports that only if the table was never
  allocated, or is at its load limit and cannot double (\<open>can_add\<close>). Accounting a packet is such an insertion and an
  update of the flow that is returned.
\<close>

theorem flow_table_is_map:
  assumes "flow_inv t" "key_ok key"
  shows "flow_table_find t key = Some (lookup t key) \<and>
    (\<exists>t' res. flow_table_find_or_insert al t key = Some (t', res) \<and> flow_inv t' \<and> (res \<noteq> None \<longleftrightarrow> can_add al t) \<and>
      (case res of None \<Rightarrow> t' = t
       | Some (i, inserted) \<Rightarrow> unat i < length (t_slots t') \<and> inserted = (lookup t key = None) \<and>
           t_slots t' ! unat i = (case lookup t key of None \<Rightarrow> new_flow key | Some f \<Rightarrow> f) \<and>
           unat (t_count t') = unat (t_count t) + (if inserted then 1 else 0) \<and>
           (\<forall>k. key_ok k \<longrightarrow> flow_table_find t' k = Some (if k = key then Some (t_slots t' ! unat i) else lookup t k)))) \<and>
    (\<exists>r t'. account al t key reversed flags wire_len ts_ns = Some (r, t') \<and> flow_inv t' \<and> (r = 0 \<longleftrightarrow> can_add al t) \<and>
      (if r = 0
       then \<forall>k. key_ok k \<longrightarrow> flow_table_find t' k = Some (if k = key
          then Some (account_flow key reversed flags wire_len ts_ns (lookup t key)) else lookup t k)
       else r = -1 \<and> t' = t))"
proof (intro conjI)
  show "flow_table_find t key = Some (lookup t key)" using flow_table_find_ok [OF assms] .
  from find_or_insert_lookup [OF assms, of al] obtain t' res where
    ins: "flow_table_find_or_insert al t key = Some (t', res)" "flow_inv t'" "res \<noteq> None \<longleftrightarrow> can_add al t"
      "case res of None \<Rightarrow> t' = t
       | Some (i, inserted) \<Rightarrow> unat i < length (t_slots t') \<and> inserted = (lookup t key = None) \<and>
         t_slots t' ! unat i = (case lookup t key of None \<Rightarrow> new_flow key | Some f \<Rightarrow> f) \<and>
         lookup t' = (lookup t)(key \<mapsto> t_slots t' ! unat i) \<and>
         unat (t_count t') = unat (t_count t) + (if inserted then 1 else 0)" by blast
  then show "\<exists>t' res. flow_table_find_or_insert al t key = Some (t', res) \<and> flow_inv t' \<and> (res \<noteq> None \<longleftrightarrow> can_add al t) \<and>
      (case res of None \<Rightarrow> t' = t
       | Some (i, inserted) \<Rightarrow> unat i < length (t_slots t') \<and> inserted = (lookup t key = None) \<and>
           t_slots t' ! unat i = (case lookup t key of None \<Rightarrow> new_flow key | Some f \<Rightarrow> f) \<and>
           unat (t_count t') = unat (t_count t) + (if inserted then 1 else 0) \<and>
           (\<forall>k. key_ok k \<longrightarrow> flow_table_find t' k = Some (if k = key then Some (t_slots t' ! unat i) else lookup t k)))"
  proof (cases res)
    case None
    then show ?thesis using ins by (intro exI [of _ t'] exI [of _ res]) simp
  next
    case (Some p)
    then obtain i inserted where p: "res = Some (i, inserted)" by (cases p) simp
    then have look: "lookup t' = (lookup t)(key \<mapsto> t_slots t' ! unat i)" using ins(4) by simp
    have "flow_table_find t' k = Some (if k = key then Some (t_slots t' ! unat i) else lookup t k)" if "key_ok k" for k
      unfolding flow_table_find_ok [OF ins(2) that] look by simp
    then show ?thesis using ins(1-3) ins(4) [unfolded p] by (intro exI [of _ t'] exI [of _ res]) (simp add: p)
  qed
  obtain r t' where run: "table_add al t (key, reversed, flags, wire_len, ts_ns) = Some (r, t')" and inv: "flow_inv t'"
    and look: "if r = 0 then lookup t' = (lookup t)(key \<mapsto> account_flow key reversed flags wire_len ts_ns (lookup t key))
      else r = -1 \<and> t' = t"
    using table.add_law [OF assms(1), of "(key, reversed, flags, wire_len, ts_ns)" al] assms(2)
    by (auto simp: event_flow_def ev_rev_def ev_flags_def ev_len_def ev_ts_def)
  from run have acc: "account al t key reversed flags wire_len ts_ns = Some (r, t')"
    by (simp add: table_add_def ev_rev_def ev_flags_def ev_len_def ev_ts_def)
  moreover from this have "r = 0 \<longleftrightarrow> can_add al t"
    using account_ok [OF assms, of al reversed flags wire_len ts_ns] by auto
  ultimately show "\<exists>r t'. account al t key reversed flags wire_len ts_ns = Some (r, t') \<and> flow_inv t' \<and> (r = 0 \<longleftrightarrow> can_add al t) \<and>
      (if r = 0
       then \<forall>k. key_ok k \<longrightarrow> flow_table_find t' k = Some (if k = key
          then Some (account_flow key reversed flags wire_len ts_ns (lookup t key)) else lookup t k)
       else r = -1 \<and> t' = t)"
    using inv look flow_table_find_ok [OF inv] by (cases "r = 0") auto
qed

definition sample_key :: flow_key where
  "sample_key = flow_key0\<lparr>k_ip_version := 4, k_proto := 6, k_port_a := 443, k_port_b := 40000\<rparr>"

lemma sample_key_ok [simp]: "key_ok sample_key"
  by (simp add: key_ok_def sample_key_def flow_key0_def)

text \<open>An empty table of 16 slots.\<close>

definition sample_table :: flow_table where
  "sample_table = \<lparr>t_slots = replicate 16 flow0, t_capacity = 16, t_count = 0\<rparr>"

lemma sample_table_inv [simp]: "flow_inv sample_table"
  unfolding flow_inv_def sample_table_def
  by (rule disjI2, rule exI [of _ 4]) (simp add: tab_empty)

lemma sample_table_flows [simp]: "flows sample_table = []"
  by (simp add: sample_table_def flows_def)

theorem flow_table_is_map_witness:
  "\<exists>t' i. flow_table_find_or_insert (\<lambda>_. True) sample_table sample_key = Some (t', Some (i, True)) \<and> flow_inv t' \<and>
    t_slots t' ! unat i = new_flow sample_key \<and> unat (t_count t') = 1 \<and>
    flow_table_find t' sample_key = Some (Some (new_flow sample_key))"
proof -
  have none: "lookup sample_table sample_key = None" by (simp add: lookup_None_iff)
  have room: "can_add (\<lambda>_. True) sample_table" and count: "t_count sample_table = 0"
    by (simp_all add: can_add_def sample_table_def)
  obtain t' i inserted where t': "flow_table_find_or_insert (\<lambda>_. True) sample_table sample_key = Some (t', Some (i, inserted))"
      "flow_inv t'" "inserted = (lookup sample_table sample_key = None)"
      "t_slots t' ! unat i = (case lookup sample_table sample_key of None \<Rightarrow> new_flow sample_key | Some f \<Rightarrow> f)"
      "unat (t_count t') = unat (t_count sample_table) + (if inserted then 1 else 0)"
      "\<forall>k. key_ok k \<longrightarrow> flow_table_find t' k = Some (if k = sample_key then Some (t_slots t' ! unat i) else lookup sample_table k)"
    using flow_table_is_map [OF sample_table_inv sample_key_ok, of "\<lambda>_. True" False 2 60 1000, THEN conjunct2, THEN conjunct1] room
    by (auto split: option.splits)
  then show ?thesis using t'(6) [rule_format, OF sample_key_ok] by (simp add: none count)
qed

text \<open>
  C16. What every flow holds. Start from a freshly initialised table and account any sequence
  of packets, with any pattern of allocation failures. The table has then accounted some
  prefix of the sequence, all of it if no failure was reported (and none is as long as every
  allocation succeeds and there are at most 2^56 packets), and for every key the table
  holds a flow exactly when that prefix has a packet of the key; its packet count, byte
  count (both modulo 2^64), union of TCP flags, first and last time and first direction are
  those of the packets of that key, whatever their order in time and however often the
  table grew.
\<close>

theorem flow_table_history:
  assumes "flow_table_init al0 hint = Some (0, t0)" "\<forall>p\<in>set ps. key_ok (ev_key (snd p))"
  shows "\<exists>r t n. add_all table_add t0 ps = Some (r, t) \<and> n \<le> length ps \<and> (r = 0 \<longrightarrow> n = length ps) \<and>
    ((\<forall>p\<in>set ps. \<forall>n. fst p n) \<and> length ps \<le> 2 ^ 56 \<longrightarrow> r = 0) \<and>
    (\<forall>k. key_ok k \<longrightarrow> (let es = filter (\<lambda>e. ev_key e = k) (map snd (take n ps)) in
       if es = [] then flow_table_find t k = Some None
       else \<exists>f. flow_table_find t k = Some (Some f) \<and> flow_sums es f))"
proof -
  have t0: "flow_inv t0" "flows t0 = []" "t_capacity t0 \<noteq> 0" using flow_table_init_ok [of al0 hint] assms(1) by auto
  then have "table.holds t0 []"
    by (simp add: table.holds_def lookup_def)
  from table.holds_add_all [OF this assms(2)] obtain r t n where run: "add_all table_add t0 ps = Some (r, t)"
      "n \<le> length ps" "if r = 0 then n = length ps else r = -1 \<and> n < length ps"
    and t: "table.holds t (map snd (take n ps))" by auto
  have "flow_table_find t k = Some (flow_of (filter (\<lambda>e. ev_key e = k) (map snd (take n ps))))" if "key_ok k" for k
    using t flow_table_find_ok [of t k] that by (simp add: table.holds_def)
  moreover have "r = 0" if "\<forall>p\<in>set ps. \<forall>n. fst p n" "length ps \<le> 2 ^ 56"
    using table_with_room.add_all_succeeds [OF t0(1), of ps] that assms(2) t0 run(1) by (auto simp: table_room_def)
  ultimately show ?thesis using run flow_of_sums
    by (intro exI [of _ r] exI [of _ t] exI [of _ n]) (auto simp: Let_def split: if_splits)
qed

definition sample_events :: "(alloc \<times> flow_event) list" where
  "sample_events = [(\<lambda>_. True, (sample_key, False, 2, 60, 1000)), (\<lambda>_. True, (sample_key, True, 18, 60, 900))]"

theorem flow_table_history_witness:
  "\<exists>t. add_all table_add sample_table sample_events = Some (0, t) \<and>
    (\<exists>f. flow_table_find t sample_key = Some (Some f) \<and> flow_sums (map snd sample_events) f)"
proof -
  have init: "flow_table_init (\<lambda>_. True) 16 = Some (0, sample_table)"
    unfolding flow_table_init_def
    by (subst round_up.simps) (simp add: calloc_ok_def sample_table_def unsigned_minus_1_eq_mask mask_eq_exp_minus_1)
  have keys: "\<forall>p\<in>set sample_events. key_ok (ev_key (snd p))" "\<forall>p\<in>set sample_events. \<forall>n. fst p n"
    "length sample_events \<le> 2 ^ 56" "filter (\<lambda>e. ev_key e = sample_key) (map snd sample_events) = map snd sample_events"
    by (simp_all add: sample_events_def)
  obtain r t n where run: "add_all table_add sample_table sample_events = Some (r, t)" "r = 0" "n = length sample_events"
    and "\<forall>k. key_ok k \<longrightarrow> (let es = filter (\<lambda>e. ev_key e = k) (map snd (take n sample_events)) in
       if es = [] then flow_table_find t k = Some None
       else \<exists>f. flow_table_find t k = Some (Some f) \<and> flow_sums es f)"
    using flow_table_history [OF init keys(1)] keys(2,3) by blast
  from this(4) [rule_format, OF sample_key_ok] show ?thesis
    unfolding run(3) take_all [OF order_refl] keys(4) Let_def using run by (simp add: sample_events_def)
qed

lemma distinct_teids_ok:
  assumes "flow_inv t"
  shows "flow_table_distinct_teids al t =
    Some (if flows t = [] then (0, 0)
          else if al (t_count t) then (0, of_nat (card ((k_teid \<circ> f_key) ` set (flows t)))) else (-1, 0))"
proof -
  have count: "unat (t_count t) = length (flows t)" using assms by (rule flow_inv_count)
  then have empty: "t_count t = 0 \<longleftrightarrow> flows t = []" by (metis length_0_conv unat_eq_zero)
  have "sorted_by teid_cmp (qsort teid_cmp (map (\<lambda>f. k_teid (f_key f)) (flows t)))"
    by (rule teids.qsort_sorted) simp
  from count_runs_sorted [OF this] show ?thesis
    using fold_opt_collect [of "[]" "flows t" "length (flows t)" "\<lambda>f. k_teid (f_key f)"]
    by (simp add: flow_table_distinct_teids_def empty count foreach_flows [OF assms] image_image comp_def)
qed

text \<open>
  C22. The number of distinct TEIDs. On a table that meets its invariant the collected array
  never overflows, and the count is the number of different TEIDs among the keys; an empty
  table needs no memory, and a failed allocation is reported.
\<close>

theorem distinct_teids_counts:
  assumes "flow_inv t"
  shows "flow_table_distinct_teids al t =
    Some (if flows t = [] then (0, 0)
          else if al (t_count t) then (0, of_nat (card ((k_teid \<circ> f_key) ` set (flows t)))) else (-1, 0))"
  using distinct_teids_ok [OF assms] .

text \<open>A table with one entry.\<close>

lemma one_flow_table: "\<exists>t. flow_inv t \<and> unat (t_count t) = 1 \<and> (\<exists>f. flows t = [f])"
proof -
  have "can_add (\<lambda>_. True) sample_table" and count: "t_count sample_table = 0" by (simp_all add: can_add_def sample_table_def)
  moreover have "lookup sample_table sample_key = None" by (simp add: lookup_None_iff)
  ultimately obtain t where t: "flow_inv t" "unat (t_count t) = 1"
    using find_or_insert_lookup [OF sample_table_inv sample_key_ok, of "\<lambda>_. True"] by (auto simp: count split: option.splits)
  then have "length (flows t) = 1" using flow_inv_count [OF t(1)] by simp
  with t show ?thesis by (auto simp: length_Suc_conv)
qed

theorem distinct_teids_counts_witness:
  "\<exists>t. flow_inv t \<and> unat (t_count t) = 1 \<and> flow_table_distinct_teids (\<lambda>_. True) t = Some (0, 1)"
proof -
  obtain t f where t: "flow_inv t" "unat (t_count t) = 1" "flows t = [f]" using one_flow_table by blast
  then show ?thesis using distinct_teids_counts [OF t(1), of "\<lambda>_. True"] by auto
qed

text \<open>
  C21. Tunnels are directional: two GTPv1-U packets belong to the same tunnel exactly when
  their outer IP version, protocol, sender, receiver and TEID are the same; a packet that is
  not GTPv1-U has no tunnel key.
\<close>

theorem tunnel_key_directional:
  "(tunnel_key_from_packet p = None \<longleftrightarrow> \<not> (pi_is_gtpu p \<and> pi_gtp_v1u p)) \<and>
   (pi_is_gtpu p \<and> pi_gtp_v1u p \<and> pi_is_gtpu q \<and> pi_gtp_v1u q \<longrightarrow>
     (tunnel_key_from_packet p = tunnel_key_from_packet q \<longleftrightarrow>
        pi_teid p = pi_teid q \<and> pi_ip_version p = pi_ip_version q \<and> pi_ip_proto p = pi_ip_proto q \<and>
        pi_src_addr p = pi_src_addr q \<and> pi_dst_addr p = pi_dst_addr q))"
  by (auto simp: tunnel_key_from_packet_def flow_key0_def)

definition sample_gpdu :: packet_info where
  "sample_gpdu = sample_packet\<lparr>pi_ip_proto := 17, pi_is_gtpu := True, pi_gtp_v1u := True, pi_teid := 7\<rparr>"

theorem tunnel_key_directional_witness:
  "tunnel_key_from_packet sample_gpdu \<noteq> tunnel_key_from_packet (swap_ends sample_gpdu)"
  using tunnel_key_directional [of sample_gpdu "swap_ends sample_gpdu"]
  by (simp add: sample_gpdu_def swap_ends_def sample_packet_def)

end
