(* ===== verification/Top_N.thy ===== *)
theory Top_N
  imports Flow_Props
begin

text \<open>
  The ranking part of \<open>flow.c\<close>: a bounded min-heap keeps the \<open>n\<close> best flows while
  the table is iterated, and \<open>qsort\<close> puts them in order. The heap is the list of the
  \<open>kept\<close> pointers written to \<open>out\<close>, each the flow it points to (the table does not
  change meanwhile). Heap indices are natural numbers: the heap has at most as many entries
  as the table has flows, below \<open>2 ^ 57\<close>, so \<open>2 * i + 2\<close> is far from wrapping.
\<close>

section \<open>The code\<close>

definition rank_cmp :: "flow \<Rightarrow> flow \<Rightarrow> int" where
  "rank_cmp a b =
     (if f_bytes a \<noteq> f_bytes b then (if f_bytes a > f_bytes b then -1 else 1)
      else if f_packets a \<noteq> f_packets b then (if f_packets a > f_packets b then -1 else 1)
      else if f_first_ts_ns a \<noteq> f_first_ts_ns b then (if f_first_ts_ns a < f_first_ts_ns b then -1 else 1)
      else key_cmp (f_key a) (f_key b))"

text \<open>\<open>if (j < n && rank_cmp(heap[j], heap[low]) > 0) low = j;\<close>\<close>

definition lower :: "flow list \<Rightarrow> nat \<Rightarrow> nat \<Rightarrow> nat \<Rightarrow> nat option" where
  "lower heap n j low =
     (if j < n then do {
        x \<leftarrow> rd heap j;
        y \<leftarrow> rd heap low;
        Some (if rank_cmp x y > 0 then j else low) }
      else Some low)"

definition swap_at :: "flow list \<Rightarrow> nat \<Rightarrow> nat \<Rightarrow> flow list option" where
  "swap_at heap i j = do {
     x \<leftarrow> rd heap i;
     y \<leftarrow> rd heap j;
     heap \<leftarrow> wr heap i y;
     wr heap j x }"

lemma lower_cases: "lower heap n j low = Some low' \<Longrightarrow> low' = low \<or> (low' = j \<and> j < n)"
  by (auto simp: lower_def some_iff split: if_splits)

function sift_down :: "flow list \<Rightarrow> nat \<Rightarrow> nat \<Rightarrow> flow list option" where
  "sift_down heap n i = do {
     low1 \<leftarrow> lower heap n (2 * i + 1) i;
     low \<leftarrow> lower heap n (2 * i + 2) low1;
     if low = i then Some heap
     else do { heap \<leftarrow> swap_at heap i low; sift_down heap n low }}"
  by pat_completeness auto
termination
  by (relation "measure (\<lambda>(heap, n, i). n - i)") (auto dest!: lower_cases)

function sift_up :: "flow list \<Rightarrow> nat \<Rightarrow> flow list option" where
  "sift_up heap i =
     (if i > 0 then
        let parent = (i - 1) div 2 in do {
          x \<leftarrow> rd heap i;
          y \<leftarrow> rd heap parent;
          if rank_cmp x y \<le> 0 then Some heap
          else do { heap \<leftarrow> swap_at heap i parent; sift_up heap parent }}
      else Some heap)"
  by pat_completeness auto
termination
  by (relation "measure (\<lambda>(heap, i). i)") auto

declare sift_down.simps [simp del] sift_up.simps [simp del]

text \<open>The body of the loop over the table.\<close>

definition keep_best :: "nat \<Rightarrow> flow \<Rightarrow> flow list \<Rightarrow> flow list option" where
  "keep_best n f out =
     (if length out < n then sift_up (out @ [f]) (length out)
      else do {
        x \<leftarrow> rd out 0;
        if rank_cmp f x < 0 then do {
          out \<leftarrow> wr out 0 f;
          sift_down out (length out) 0 }
        else Some out })"

text \<open>The flows written to \<open>out\<close>; their number is the value returned.\<close>

definition flow_table_top_n :: "flow_table \<Rightarrow> size_t \<Rightarrow> flow list option" where
  "flow_table_top_n t n =
     (if n = 0 then Some []
      else do {
        out \<leftarrow> foreach t (keep_best (unat n)) 0 [];
        Some (qsort rank_cmp out) })"

section \<open>The ranking is an order\<close>

lemma key_cmp_alt:
  "key_cmp a b =
     cmp_then (cmp_num (k_teid a) (k_teid b)) (cmp_then (cmp_num (k_ip_version a) (k_ip_version b))
     (cmp_then (cmp_num (k_proto a) (k_proto b)) (cmp_then (memcmp 16 (k_addr_a a) (k_addr_a b))
     (cmp_then (cmp_num (k_port_a a) (k_port_a b)) (cmp_then (memcmp 16 (k_addr_b a) (k_addr_b b))
     (cmp_num (k_port_b a) (k_port_b b)))))))"
  by (simp add: key_cmp_def cmp_then_def cmp_num_def Let_def)

interpretation keys: cmp_linear "{k. key_ok k}" key_cmp
proof (intro cmp_linear.intro cmp_linear_axioms.intro)
  show "cmp_order {k. key_ok k} key_cmp"
    unfolding key_cmp_alt [abs_def]
    by (intro cmp_order_then cmp_order_by [OF cmp_order_num [of UNIV]] cmp_order_by [OF cmp_order_memcmp])
      (auto simp: key_ok_def)
  show "a = b" if "a \<in> {k. key_ok k}" "b \<in> {k. key_ok k}" "key_cmp a b = 0" for a b
    using that by (cases a; cases b) (simp add: key_cmp_alt key_ok_def)
qed

lemma rank_cmp_alt:
  "rank_cmp a b =
     cmp_then (cmp_num (f_bytes b) (f_bytes a)) (cmp_then (cmp_num (f_packets b) (f_packets a))
     (cmp_then (cmp_num (f_first_ts_ns a) (f_first_ts_ns b)) (key_cmp (f_key a) (f_key b))))"
  by (simp add: rank_cmp_def cmp_then_def cmp_num_def)

abbreviation ranked :: "flow set" where "ranked \<equiv> {f. key_ok (f_key f)}"

interpretation rank: cmp_order ranked rank_cmp
  unfolding rank_cmp_alt [abs_def]
  by (intro cmp_order_then cmp_order_by [OF cmp_order_flip [OF cmp_order_num [of UNIV]]]
      cmp_order_by [OF cmp_order_num [of UNIV]] cmp_order_by [OF keys.cmp_order_axioms]) auto

text \<open>Among flows with different keys no two rank the same.\<close>

lemma rank_linear:
  assumes "set fs \<subseteq> ranked" "distinct (map f_key fs)"
  shows "cmp_linear (set fs) rank_cmp"
proof (intro cmp_linear.intro cmp_linear_axioms.intro)
  show "cmp_order (set fs) rank_cmp"
    using cmp_order_by [OF rank.cmp_order_axioms, of "\<lambda>f. f" "set fs"] assms(1) by simp
  show "a = b" if ab: "a \<in> set fs" "b \<in> set fs" "rank_cmp a b = 0" for a b
  proof -
    have "key_cmp (f_key a) (f_key b) = 0" using ab(3) by (simp add: rank_cmp_alt)
    then have "f_key a = f_key b" using keys.zero_eq [of "f_key a" "f_key b"] assms(1) ab(1,2) by blast
    then show ?thesis using assms(2) ab(1,2) by (auto simp: distinct_map inj_on_def)
  qed
qed

section \<open>The heap\<close>

definition par :: "nat \<Rightarrow> nat" where "par j = (j - 1) div 2"

definition below :: "flow list \<Rightarrow> nat \<Rightarrow> nat \<Rightarrow> bool" where
  "below h j i \<longleftrightarrow> rank_cmp (h ! j) (h ! i) \<le> 0"

text \<open>No entry ranks below its parent.\<close>

definition heap_ok :: "flow list \<Rightarrow> bool" where
  "heap_ok h \<longleftrightarrow> (\<forall>j<length h. j > 0 \<longrightarrow> below h j (par j))"

text \<open>A heap but for entry \<open>i\<close> and its parent, or for entry \<open>i\<close> and its children.\<close>

definition up_at :: "flow list \<Rightarrow> nat \<Rightarrow> bool" where
  "up_at h i \<longleftrightarrow> (\<forall>j<length h. j > 0 \<longrightarrow> j \<noteq> i \<longrightarrow> below h j (par j)) \<and>
     (\<forall>j<length h. j > 0 \<longrightarrow> par j = i \<longrightarrow> i > 0 \<longrightarrow> below h j (par i))"

definition down_at :: "flow list \<Rightarrow> nat \<Rightarrow> bool" where
  "down_at h i \<longleftrightarrow> (\<forall>j<length h. j > 0 \<longrightarrow> par j \<noteq> i \<longrightarrow> below h j (par j)) \<and>
     (\<forall>j<length h. j > 0 \<longrightarrow> par j = i \<longrightarrow> i > 0 \<longrightarrow> below h j (par i))"

lemma par_less: "j > 0 \<Longrightarrow> par j < j"
  by (simp add: par_def)

lemma par_child: "j > 0 \<Longrightarrow> par j = i \<longleftrightarrow> j = 2 * i + 1 \<or> j = 2 * i + 2"
  by (auto simp: par_def)

lemma below_trans:
  assumes "below h j i" "below h i k" "set h \<subseteq> ranked" "j < length h" "i < length h" "k < length h"
  shows "below h j k"
  unfolding below_def
  by (rule rank.trans [of "h ! j" "h ! i"]) (use assms nth_mem in \<open>auto simp: below_def\<close>)

lemma below_total:
  assumes "\<not> below h j i" "set h \<subseteq> ranked" "j < length h" "i < length h"
  shows "below h i j"
  using rank.total [of "h ! j" "h ! i"] assms nth_mem by (auto simp: below_def)

lemma below_self: "set h \<subseteq> ranked \<Longrightarrow> i < length h \<Longrightarrow> below h i i"
  using rank.self [of "h ! i"] subsetD [OF _ nth_mem] by (fastforce simp: below_def)

definition swapped :: "flow list \<Rightarrow> nat \<Rightarrow> nat \<Rightarrow> flow list" where
  "swapped h i j = h[i := h ! j, j := h ! i]"

lemma swap_at_in: "i < length h \<Longrightarrow> j < length h \<Longrightarrow> swap_at h i j = Some (swapped h i j)"
  by (simp add: swap_at_def swapped_def wr_def)

lemma swapped_sels [simp]:
  "length (swapped h i j) = length h"
  "i < length h \<Longrightarrow> j < length h \<Longrightarrow> mset (swapped h i j) = mset h"
  "i < length h \<Longrightarrow> j < length h \<Longrightarrow> set (swapped h i j) = set h"
  by (simp_all add: swapped_def mset_swap)

definition trade :: "nat \<Rightarrow> nat \<Rightarrow> nat \<Rightarrow> nat" where
  "trade i j k = (if k = i then j else if k = j then i else k)"

lemma below_swapped:
  "i < length h \<Longrightarrow> j < length h \<Longrightarrow> x < length h \<Longrightarrow> y < length h \<Longrightarrow>
   below (swapped h i j) x y \<longleftrightarrow> below h (trade i j x) (trade i j y)"
  by (auto simp: below_def swapped_def trade_def nth_list_update)

lemma up_at_swap:
  assumes h: "set h \<subseteq> ranked" "i < length h" "i > 0" and up: "up_at h i" and bad: "\<not> below h i (par i)"
  shows "up_at (swapped h i (par i)) (par i)"
proof -
  let ?p = "par i"
  have p: "?p < i" "?p < length h" using par_less [OF h(3)] h(2) by simp_all
  have ok: "below h j (par j)" if "j < length h" "j > 0" "j \<noteq> i" for j using up that by (simp add: up_at_def)
  have kids: "below h j ?p" if "j < length h" "j > 0" "par j = i" for j using up that h(3) by (simp add: up_at_def)
  have pi: "below h ?p i" using below_total [OF bad h(1,2) p(2)] .
  have lt: "par j < length h" if "j < length h" "j > 0" for j using par_less [OF that(2)] that(1) by simp
  show ?thesis
    unfolding up_at_def swapped_sels(1)
  proof (intro conjI allI impI)
    fix j assume j: "j < length h" "0 < j" "j \<noteq> ?p"
    have "below h (trade i ?p j) (trade i ?p (par j))"
    proof (cases "j = i")
      case True
      then show ?thesis using pi p by (simp add: trade_def)
    next
      case False
      consider "par j = i" | "par j = ?p" | "par j \<noteq> i" "par j \<noteq> ?p" by blast
      then show ?thesis
      proof cases
        case 1
        then show ?thesis using kids [OF j(1,2)] False j by (simp add: trade_def)
      next
        case 2
        then have "below h j ?p" using ok [OF j(1,2) False] by simp
        from below_trans [OF this pi h(1) j(1) p(2) h(2)] 2 False j p show ?thesis by (simp add: trade_def)
      next
        case 3
        then show ?thesis using ok [OF j(1,2) False] False j by (simp add: trade_def)
      qed
    qed
    then show "below (swapped h i ?p) j (par j)" using below_swapped h(2) p(2) j(1) lt [OF j(1,2)] by blast
  next
    fix j assume j: "j < length h" "0 < j" "par j = ?p" "0 < ?p"
    have pp: "par ?p < ?p" "below h ?p (par ?p)" using par_less [OF j(4)] ok [OF p(2) j(4)] p by simp_all
    have "below h (trade i ?p j) (trade i ?p (par ?p))"
    proof (cases "j = i")
      case True
      then show ?thesis using pp p by (simp add: trade_def)
    next
      case False
      have "below h j ?p" using ok [OF j(1,2) False] j(3) by simp
      from below_trans [OF this pp(2) h(1) j(1) p(2)] pp p False j par_less [OF j(2)] show ?thesis
        by (simp add: trade_def)
    qed
    then show "below (swapped h i ?p) j (par ?p)" using below_swapped h(2) p(2) j(1) pp(1) by (simp add: below_swapped)
  qed
qed

lemma sift_up_par:
  "sift_up h i = (if i > 0 then do {
       x \<leftarrow> rd h i;
       y \<leftarrow> rd h (par i);
       if rank_cmp x y \<le> 0 then Some h else do { h \<leftarrow> swap_at h i (par i); sift_up h (par i) }}
     else Some h)"
  by (subst sift_up.simps) (simp only: Let_def par_def)

lemma sift_up_ok:
  "set h \<subseteq> ranked \<Longrightarrow> i < length h \<Longrightarrow> up_at h i \<Longrightarrow>
   \<exists>h'. sift_up h i = Some h' \<and> mset h' = mset h \<and> heap_ok h'"
proof (induction i arbitrary: h rule: less_induct)
  case (less i)
  show ?case
  proof (cases "i > 0 \<and> \<not> below h i (par i)")
    case True
    then have p: "par i < i" "par i < length h" using par_less [of i] less.prems(2) by simp_all
    have "\<exists>h'. sift_up (swapped h i (par i)) (par i) = Some h' \<and> mset h' = mset (swapped h i (par i)) \<and> heap_ok h'"
      using less.prems p True up_at_swap [OF less.prems(1,2) _ less.prems(3)] by (intro less.IH) simp_all
    with True p less.prems(2) show ?thesis
      by (subst sift_up_par) (simp add: swap_at_in below_def)
  next
    case False
    then have "heap_ok h" using less.prems(3) by (auto simp: up_at_def heap_ok_def)
    with False less.prems(2) par_less [of i] show ?thesis
      by (subst sift_up_par) (auto simp: below_def)
  qed
qed

text \<open>The entry chosen by \<open>sift_down\<close>: the lowest of entry \<open>i\<close> and its children.\<close>

lemma lower_ok:
  assumes "set h \<subseteq> ranked" "low < length h"
  shows "\<exists>low'. lower h (length h) j low = Some low' \<and> low' < length h \<and> (low' = low \<or> low' = j) \<and>
    below h low low' \<and> (j < length h \<longrightarrow> below h j low')"
proof (cases "j < length h \<and> \<not> below h j low")
  case True
  then have "lower h (length h) j low = Some j" using assms(2) by (simp add: lower_def below_def)
  moreover have "below h low j" using True assms by (intro below_total) simp_all
  ultimately show ?thesis using True below_self [OF assms(1)] by simp
next
  case False
  then have "lower h (length h) j low = Some low" using assms(2) by (auto simp: lower_def below_def)
  with False show ?thesis using below_self [OF assms] assms(2) by auto
qed

lemma lowest_ok:
  assumes h: "set h \<subseteq> ranked" "i < length h"
  shows "\<exists>low1 low. lower h (length h) (2 * i + 1) i = Some low1 \<and> lower h (length h) (2 * i + 2) low1 = Some low \<and>
    low < length h \<and> (low = i \<or> low = 2 * i + 1 \<or> low = 2 * i + 2) \<and> below h i low \<and>
    (\<forall>j<length h. j > 0 \<longrightarrow> par j = i \<longrightarrow> below h j low)"
proof -
  obtain l1 where l1: "lower h (length h) (2 * i + 1) i = Some l1" "l1 < length h" "l1 = i \<or> l1 = 2 * i + 1"
      "below h i l1" "2 * i + 1 < length h \<longrightarrow> below h (2 * i + 1) l1"
    using lower_ok [OF h, of "2 * i + 1"] by blast
  obtain l2 where l2: "lower h (length h) (2 * i + 2) l1 = Some l2" "l2 < length h" "l2 = l1 \<or> l2 = 2 * i + 2"
      "below h l1 l2" "2 * i + 2 < length h \<longrightarrow> below h (2 * i + 2) l2"
    using lower_ok [OF h(1) l1(2), of "2 * i + 2"] by blast
  have "below h i l2" by (rule below_trans [OF l1(4) l2(4) h l1(2) l2(2)])
  moreover have "below h j l2" if "j < length h" "j > 0" "par j = i" for j
    using that l1 l2 below_trans [OF _ l2(4) h(1) _ l1(2) l2(2)] by (auto simp: par_child)
  ultimately show ?thesis using l1 l2 by blast
qed

lemma down_at_swap:
  assumes h: "set h \<subseteq> ranked" "i < length h" "low < length h" and down: "down_at h i"
    and low: "low > 0" "par low = i" "below h i low" "\<forall>j<length h. j > 0 \<longrightarrow> par j = i \<longrightarrow> below h j low"
  shows "down_at (swapped h i low) low"
proof -
  have lt: "par j < length h" if "j < length h" "j > 0" for j using par_less [OF that(2)] that(1) by simp
  have il: "i < low" using par_less [OF low(1)] low(2) by simp
  have ok: "below h j (par j)" if "j < length h" "j > 0" "par j \<noteq> i" for j using down that by (simp add: down_at_def)
  show ?thesis
    unfolding down_at_def swapped_sels(1)
  proof (intro conjI allI impI)
    fix j assume j: "j < length h" "0 < j" "par j \<noteq> low"
    have "below h (trade i low j) (trade i low (par j))"
    proof (cases "j = low")
      case True
      then show ?thesis using low il by (simp add: trade_def)
    next
      case False
      show ?thesis
      proof (cases "par j = i")
        case True
        then show ?thesis using low(4) j False par_less [OF j(2)] by (simp add: trade_def)
      next
        case other: False
        show ?thesis
        proof (cases "j = i")
          case True
          then have "below h low (par i)" using down h(3) low(1,2) j(2) by (simp add: down_at_def)
          with True other j il show ?thesis using par_less [OF j(2)] by (simp add: trade_def)
        next
          case False
          with \<open>j \<noteq> low\<close> other j show ?thesis using ok [OF j(1,2) other] by (simp add: trade_def)
        qed
      qed
    qed
    then show "below (swapped h i low) j (par j)" using below_swapped h(2,3) j(1) lt [OF j(1,2)] by blast
  next
    fix j assume j: "j < length h" "0 < j" "par j = low" "0 < low"
    then have "j \<noteq> i" "j \<noteq> low" "par j \<noteq> i" using par_less [OF j(2)] il by auto
    with ok [OF j(1,2)] j low(2) il have "below h (trade i low j) (trade i low (par low))" by (simp add: trade_def)
    then show "below (swapped h i low) j (par low)" using below_swapped h j(1) low(2) by simp
  qed
qed

lemma sift_down_ok:
  "set h \<subseteq> ranked \<Longrightarrow> i < length h \<Longrightarrow> down_at h i \<Longrightarrow>
   \<exists>h'. sift_down h (length h) i = Some h' \<and> mset h' = mset h \<and> heap_ok h'"
proof (induction "length h - i" arbitrary: h i rule: less_induct)
  case less
  obtain low1 low where run: "lower h (length h) (2 * i + 1) i = Some low1" "lower h (length h) (2 * i + 2) low1 = Some low"
    and low: "low < length h" "low = i \<or> low = 2 * i + 1 \<or> low = 2 * i + 2" "below h i low"
      "\<forall>j<length h. j > 0 \<longrightarrow> par j = i \<longrightarrow> below h j low"
    using lowest_ok [OF less.prems(1,2)] by blast
  show ?case
  proof (cases "low = i")
    case True
    then have "heap_ok h" using low(4) less.prems(3) by (auto simp: down_at_def heap_ok_def)
    with True run show ?thesis by (subst sift_down.simps) simp
  next
    case False
    then have child: "low > 0" "par low = i" "i < low" using low(2) by (auto simp: par_def)
    let ?h = "swapped h i low"
    have "\<exists>h'. sift_down ?h (length ?h) low = Some h' \<and> mset h' = mset ?h \<and> heap_ok h'"
      using less.prems low child down_at_swap [OF less.prems(1,2) low(1) less.prems(3) child(1,2) low(3,4)]
      by (intro less.hyps) simp_all
    with False run less.prems(2) low(1) show ?thesis
      by (subst sift_down.simps) (simp add: swap_at_in)
  qed
qed

lemma heap_root:
  assumes "heap_ok h" "set h \<subseteq> ranked"
  shows "i < length h \<Longrightarrow> below h i 0"
proof (induction i rule: less_induct)
  case (less i)
  show ?case
  proof (cases "i = 0")
    case True
    then show ?thesis using below_self [OF assms(2)] less.prems by simp
  next
    case False
    then have p: "par i < i" "below h i (par i)"
      using par_less [of i] assms(1) less.prems by (auto simp: heap_ok_def)
    have "0 < length h" using less.prems by linarith
    with less.IH [of "par i"] less.prems p below_trans [OF p(2) _ assms(2), of 0] show ?thesis by simp
  qed
qed

section \<open>The best flows\<close>

text \<open>Inserting into a sorted list and keeping \<open>n\<close> elements.\<close>

context cmp_linear
begin

lemma take_ins_by:
  "sorted_by cmp ys \<Longrightarrow> set ys \<subseteq> D \<Longrightarrow> x \<in> D \<Longrightarrow> 0 < n \<Longrightarrow> n \<le> length ys \<Longrightarrow>
   take n (ins_by cmp x ys) = (if cmp x (ys ! (n - 1)) \<le> 0 then ins_by cmp x (take (n - 1) ys) else take n ys)"
proof (induction ys arbitrary: n)
  case (Cons y ys)
  obtain m where n: "n = Suc m" using Cons.prems(4) by (cases n) auto
  show ?case
  proof (cases "cmp x y \<le> 0")
    case True
    have "cmp x ((y # ys) ! m) \<le> 0"
    proof (cases m)
      case (Suc k)
      then have "ys ! k \<in> set ys" using Cons.prems(5) n by simp
      with Cons.prems True show ?thesis unfolding Suc by (auto intro: trans [of x y])
    qed (simp add: True)
    with True n show ?thesis by (cases m) simp_all
  next
    case False
    show ?thesis
    proof (cases m)
      case 0
      with False n show ?thesis by simp
    next
      case (Suc k)
      with False n Cons.prems Cons.IH [of m] show ?thesis by simp
    qed
  qed
qed simp

lemma sorted_last:
  "sorted_by cmp ys \<Longrightarrow> set ys \<subseteq> D \<Longrightarrow> n < length ys \<Longrightarrow> z \<in> set (take (Suc n) ys) \<Longrightarrow> cmp z (ys ! n) \<le> 0"
proof (induction ys arbitrary: n)
  case (Cons y ys)
  then show ?case using self [of y] by (cases n) auto
qed simp

lemma sorted_take: "sorted_by cmp ys \<Longrightarrow> sorted_by cmp (take n ys)"
  by (simp add: sorted_by_def sorted_wrt_take)

end

text \<open>After the flows \<open>fs\<close> the heap holds the best \<open>n\<close> of them.\<close>

definition best :: "nat \<Rightarrow> flow list \<Rightarrow> flow list \<Rightarrow> bool" where
  "best n fs out \<longleftrightarrow> heap_ok out \<and> mset out = mset (take n (qsort rank_cmp (rev fs)))"

lemma best_length: "best n fs out \<Longrightarrow> length out = min n (length fs)"
  unfolding best_def by (metis length_qsort length_rev length_take min.commute size_mset)

lemma best_set: "best n fs out \<Longrightarrow> set out \<subseteq> set fs"
  unfolding best_def by (metis set_mset_mset set_qsort set_rev set_take_subset)

lemma heap_snoc: "heap_ok h \<Longrightarrow> up_at (h @ [f]) (length h)"
proof -
  assume h: "heap_ok h"
  have "below (h @ [f]) j (par j)" if "j < length h" "j > 0" for j
  proof -
    have "par j < length h" using par_less [OF that(2)] that(1) by simp
    then show ?thesis using h that by (simp add: heap_ok_def below_def nth_append)
  qed
  moreover have "par j \<noteq> length h" if "j < length (h @ [f])" "j > 0" for j
    using par_less [OF that(2)] that(1) by simp
  ultimately show ?thesis by (auto simp: up_at_def less_Suc_eq)
qed

lemma best_append:
  assumes "best n fs out" "length out < n" "set (f # fs) \<subseteq> ranked"
  shows "\<exists>out'. sift_up (out @ [f]) (length out) = Some out' \<and> best n (fs @ [f]) out'"
proof -
  have len: "length fs < n" using best_length [OF assms(1)] assms(2) by simp
  then have all: "mset out = mset fs" using assms(1) by (simp add: best_def)
  have sub: "set (out @ [f]) \<subseteq> ranked" using best_set [OF assms(1)] assms(3) by auto
  have "up_at (out @ [f]) (length out)" using assms(1) by (intro heap_snoc) (simp add: best_def)
  with sift_up_ok [OF sub, of "length out"] obtain out' where
    "sift_up (out @ [f]) (length out) = Some out'" "mset out' = mset (out @ [f])" "heap_ok out'" by auto
  with all len show ?thesis by (auto simp: best_def)
qed

text \<open>The root of a full heap is the last of the flows kept.\<close>

lemma best_root:
  assumes "best n fs out" "0 < n" "n \<le> length fs" and lin: "cmp_linear D rank_cmp" "set fs \<subseteq> D" "D \<subseteq> ranked"
  shows "out ! 0 = qsort rank_cmp (rev fs) ! (n - 1)"
proof -
  let ?s = "qsort rank_cmp (rev fs)"
  have len: "length out = n" using best_length [OF assms(1)] assms(3) by simp
  have sets: "set out = set (take n ?s)" using assms(1) by (metis best_def set_mset_mset)
  have sub: "set out \<subseteq> D" using best_set [OF assms(1)] lin(2) by blast
  have sorted: "sorted_by rank_cmp ?s"
    using cmp_order.qsort_sorted [OF cmp_linear.axioms(1) [OF lin(1)], of "rev fs"] lin(2) by simp
  have root: "out ! 0 \<in> set out" using len assms(2) by simp
  have "?s ! (n - 1) = take n ?s ! (n - 1)" using assms(2) by simp
  also have "\<dots> \<in> set (take n ?s)" using assms(2,3) by (intro nth_mem) simp
  finally have last: "?s ! (n - 1) \<in> set out" using sets by simp
  have "rank_cmp (out ! 0) (?s ! (n - 1)) \<le> 0"
    using cmp_linear.sorted_last [OF lin(1) sorted, of "n - 1" "out ! 0"] root sets assms(2,3) lin(2) by simp
  moreover obtain i where "i < length out" "out ! i = ?s ! (n - 1)" using last by (auto simp: in_set_conv_nth)
  then have "rank_cmp (?s ! (n - 1)) (out ! 0) \<le> 0"
    using heap_root [of out i] assms(1) sub lin(3) by (auto simp: below_def best_def)
  ultimately show ?thesis using cmp_linear.antisym [OF lin(1)] root last sub by blast
qed

lemma heap_set_root: "heap_ok h \<Longrightarrow> down_at (h[0 := f]) 0"
proof -
  assume h: "heap_ok h"
  have "below (h[0 := f]) j (par j)" if "j < length h" "j > 0" "par j \<noteq> 0" for j
    using h that by (simp add: heap_ok_def below_def nth_list_update)
  then show ?thesis by (simp add: down_at_def)
qed

lemma best_replace:
  assumes b: "best n fs out" "0 < n" "n \<le> length fs" and lin: "cmp_linear D rank_cmp" "set (f # fs) \<subseteq> D" "D \<subseteq> ranked"
    and f: "rank_cmp f (out ! 0) < 0"
  shows "\<exists>out'. sift_down (out[0 := f]) (length out) 0 = Some out' \<and> best n (fs @ [f]) out'"
proof -
  let ?s = "qsort rank_cmp (rev fs)"
  have len: "length out = n" using best_length [OF b(1)] b(3) by simp
  have sub: "set (out[0 := f]) \<subseteq> ranked"
    using set_update_subset_insert [of out 0 f] best_set [OF b(1)] lin(2,3) by auto
  have "down_at (out[0 := f]) 0" using b(1) by (intro heap_set_root) (simp add: best_def)
  from sift_down_ok [OF sub _ this] len b(2) obtain out' where
    run: "sift_down (out[0 := f]) (length out) 0 = Some out'" "mset out' = mset (out[0 := f])" "heap_ok out'" by auto
  have root: "out ! 0 = ?s ! (n - 1)" using best_root [OF b lin(1)] lin(2,3) by simp
  have sorted: "sorted_by rank_cmp ?s"
    using cmp_order.qsort_sorted [OF cmp_linear.axioms(1) [OF lin(1)], of "rev fs"] lin(2) by simp
  have split: "mset (take n ?s) = add_mset (?s ! (n - 1)) (mset (take (n - 1) ?s))"
    using b(2,3) by (cases n) (simp_all add: take_Suc_conv_app_nth)
  have "take n (ins_by rank_cmp f ?s) = ins_by rank_cmp f (take (n - 1) ?s)"
    using cmp_linear.take_ins_by [OF lin(1) sorted, of f n] lin(2) b(2,3) f root by simp
  then have "mset (take n (qsort rank_cmp (rev (fs @ [f])))) = add_mset f (mset (take (n - 1) ?s))" by simp
  moreover have "mset (out[0 := f]) = add_mset f (mset (take (n - 1) ?s))"
    using b(1) len b(2) root split by (simp add: mset_update best_def)
  ultimately show ?thesis using run by (simp add: best_def)
qed

lemma best_skip:
  assumes b: "best n fs out" "0 < n" "n \<le> length fs" and lin: "cmp_linear D rank_cmp" "set (f # fs) \<subseteq> D" "D \<subseteq> ranked"
    and f: "\<not> rank_cmp f (out ! 0) < 0" "f \<notin> set fs"
  shows "best n (fs @ [f]) out"
proof -
  let ?s = "qsort rank_cmp (rev fs)"
  have root: "out ! 0 = ?s ! (n - 1)" using best_root [OF b lin(1)] lin(2,3) by simp
  have sorted: "sorted_by rank_cmp ?s"
    using cmp_order.qsort_sorted [OF cmp_linear.axioms(1) [OF lin(1)], of "rev fs"] lin(2) by simp
  have "?s ! (n - 1) \<in> set ?s" using b(2,3) by (intro nth_mem) simp
  then have mem: "?s ! (n - 1) \<in> set fs" by simp
  then have "rank_cmp f (?s ! (n - 1)) \<noteq> 0"
    using cmp_linear.zero_eq [OF lin(1), of f "?s ! (n - 1)"] lin(2) f(2) by auto
  then have "\<not> rank_cmp f (?s ! (n - 1)) \<le> 0" using f(1) root by simp
  then have "take n (ins_by rank_cmp f ?s) = take n ?s"
    using cmp_linear.take_ins_by [OF lin(1) sorted, of f n] lin(2) b(2,3) by simp
  with b(1) show ?thesis by (simp add: best_def)
qed

lemma keep_best_ok:
  assumes "best n fs out" "0 < n" "cmp_linear D rank_cmp" "set (f # fs) \<subseteq> D" "D \<subseteq> ranked" "f \<notin> set fs"
  shows "\<exists>out'. keep_best n f out = Some out' \<and> best n (fs @ [f]) out'"
proof (cases "length out < n")
  case True
  then show ?thesis using best_append [OF assms(1) True] assms(4,5) by (auto simp: keep_best_def)
next
  case False
  then have len: "length out = n" "n \<le> length fs" using best_length [OF assms(1)] by simp_all
  then have out: "0 < length out" using assms(2) by simp
  show ?thesis
  proof (cases "rank_cmp f (out ! 0) < 0")
    case True
    with best_replace [OF assms(1,2) len(2) assms(3-5)] False out show ?thesis by (simp add: keep_best_def wr_def)
  next
    case skip: False
    with best_skip [OF assms(1,2) len(2) assms(3-5)] assms(6) False out show ?thesis by (simp add: keep_best_def)
  qed
qed

lemma keep_best_all:
  assumes "best n fs out" "0 < n" "cmp_linear D rank_cmp" "set (fs @ gs) \<subseteq> D" "D \<subseteq> ranked" "distinct (fs @ gs)"
  shows "\<exists>out'. fold_opt (keep_best n) gs out = Some out' \<and> best n (fs @ gs) out'"
  using assms
proof (induction gs arbitrary: fs out)
  case (Cons g gs)
  obtain out1 where "keep_best n g out = Some out1" "best n (fs @ [g]) out1"
    using keep_best_ok [OF Cons.prems(1-3), of g] Cons.prems(4-6) by auto
  with Cons.IH [of "fs @ [g]" out1] Cons.prems(2-6) show ?case by auto
qed simp

section \<open>Properties\<close>

lemma flow_inv_ranked: "flow_inv t \<Longrightarrow> set (flows t) \<subseteq> ranked"
  by (auto simp: flow_inv_def flows_def dest: tab_key_ok)

lemma flows_linear: "flow_inv t \<Longrightarrow> cmp_linear (set (flows t)) rank_cmp"
  by (intro rank_linear flow_inv_ranked flow_inv_distinct)

lemma flow_table_top_n_ok:
  assumes inv: "flow_inv t"
  shows "flow_table_top_n t n = Some (take (unat n) (qsort rank_cmp (flows t)))"
proof (cases "n = 0")
  case True
  then show ?thesis by (simp add: flow_table_top_n_def)
next
  case False
  then have n: "0 < unat n" by (simp add: unat_gt_0)
  note lin = flows_linear [OF inv]
  note order = cmp_linear.axioms(1) [OF lin]
  have "distinct (flows t)" using flow_inv_distinct [OF inv] by (simp add: distinct_map)
  then obtain out where out: "fold_opt (keep_best (unat n)) (flows t) [] = Some out" "best (unat n) (flows t) out"
    using keep_best_all [of "unat n" "[]" "[]" "set (flows t)" "flows t"] n lin flow_inv_ranked [OF inv]
    by (auto simp: best_def heap_ok_def)
  have rev: "qsort rank_cmp (rev (flows t)) = qsort rank_cmp (flows t)"
    using cmp_order.qsort_sorted [OF order] by (intro cmp_linear.qsort_unique [OF lin]) simp_all
  have "sorted_by rank_cmp (qsort rank_cmp (flows t))"
    using cmp_order.qsort_sorted [OF order] by simp
  then have "sorted_by rank_cmp (take (unat n) (qsort rank_cmp (flows t)))" by (rule cmp_linear.sorted_take [OF lin])
  moreover have "mset (take (unat n) (qsort rank_cmp (flows t))) = mset out" using out(2) rev by (simp add: best_def)
  ultimately have "take (unat n) (qsort rank_cmp (flows t)) = qsort rank_cmp out"
    using best_set [OF out(2)] by (intro cmp_linear.qsort_unique [OF lin])
  with False out(1) show ?thesis by (simp add: flow_table_top_n_def foreach_flows [OF inv])
qed

text \<open>
  C18. The top flows. For any list that holds exactly the flows of the table in ranking
  order (most bytes first, then most packets, then earliest start, then smallest key), the
  bounded heap followed by \<open>qsort\<close> delivers its first \<open>n\<close> elements; there is only one
  such list, so the output is deterministic. In particular the number written is the smaller
  of \<open>n\<close> and the number of flows.
\<close>

theorem top_n_is_prefix_of_ranking:
  assumes "flow_inv t" "mset ys = mset (flows t)" "sorted_by rank_cmp ys"
  shows "flow_table_top_n t n = Some (take (unat n) ys) \<and>
    length (take (unat n) ys) = min (unat n) (unat (t_count t))"
proof -
  have "ys = qsort rank_cmp (flows t)"
    using assms(2,3) by (intro cmp_linear.qsort_unique [OF flows_linear [OF assms(1)]]) simp_all
  moreover have "length ys = unat (t_count t)"
    using assms(2) flow_inv_count [OF assms(1)] by (metis size_mset)
  ultimately show ?thesis using flow_table_top_n_ok [OF assms(1)] by simp
qed

text \<open>A table of two flows, of 60 and of 1500 bytes.\<close>

definition sample_two :: "flow_table option" where
  "sample_two = do {
     (r, t) \<leftarrow> account (\<lambda>_. True) sample_table sample_key False 2 60 1000;
     (r, t) \<leftarrow> account (\<lambda>_. True) t (sample_key\<lparr>k_port_a := 80\<rparr>) False 2 1500 1001;
     Some t }"

lemma sample_two_ok: "\<exists>t. sample_two = Some t \<and> flow_inv t"
proof -
  obtain r1 t1 where 1: "account (\<lambda>_. True) sample_table sample_key False 2 60 1000 = Some (r1, t1)" "flow_inv t1"
    using account_ok [OF sample_table_inv sample_key_ok, of "\<lambda>_. True" False 2 60 1000] by blast
  have "key_ok (sample_key\<lparr>k_port_a := 80\<rparr>)" using sample_key_ok by (simp add: key_ok_def)
  from account_ok [OF 1(2) this, of "\<lambda>_. True" False 2 1500 1001] 1(1) show ?thesis
    by (auto simp: sample_two_def)
qed

theorem top_n_is_prefix_of_ranking_witness:
  "\<exists>t ys. sample_two = Some t \<and> flow_table_top_n t 1 = Some (take 1 ys) \<and> map f_bytes ys = [1500, 60]"
proof -
  obtain t where t: "sample_two = Some t" "flow_inv t" using sample_two_ok by blast
  let ?ys = "qsort rank_cmp (flows t)"
  have "case sample_two of None \<Rightarrow> False | Some t \<Rightarrow> map f_bytes (qsort rank_cmp (flows t)) = [1500, 60]"
    by code_simp
  then have "map f_bytes ?ys = [1500, 60]" unfolding t(1) option.case .
  moreover have "sorted_by rank_cmp ?ys"
    using cmp_order.qsort_sorted [OF cmp_linear.axioms(1) [OF flows_linear [OF t(2)]]] by simp
  then have "flow_table_top_n t 1 = Some (take 1 ?ys)"
    using top_n_is_prefix_of_ranking [OF t(2), of ?ys 1] by simp
  ultimately show ?thesis using t(1) by (intro exI [of _ t] exI [of _ ?ys] conjI)
qed

end
