(* ===== verification/Stats.thy ===== *)
theory Stats
  imports Decode_Frame
begin

text \<open>
  \<open>stats.h\<close> and \<open>stats.c\<close>: the capture-wide counters. All counters are 64-bit and
  wrap. The two \<open>by_status\<close> arrays have one element per status; an update outside the
  array has no value. The long body of \<open>stats_add\<close> is split into the groups of
  statements it consists of, in order.
\<close>

section \<open>Data\<close>

record gtpu_stats =
  g_packets :: u64
  g_fragmented :: u64
  g_not_v1u :: u64
  g_gpdu :: u64
  g_echo_request :: u64
  g_echo_response :: u64
  g_error_indication :: u64
  g_end_marker :: u64
  g_other_type :: u64
  g_with_seq :: u64
  g_with_ext :: u64
  g_inner_ipv4 :: u64
  g_inner_ipv6 :: u64
  g_inner_tcp :: u64
  g_inner_udp :: u64
  g_inner_icmp :: u64
  g_inner_icmpv6 :: u64
  g_inner_other :: u64
  g_nested :: u64
  g_truncated :: u64
  g_malformed :: u64
  g_user_truncated :: u64
  g_user_malformed :: u64
  g_by_status :: "u64 list"

record stats =
  s_packets :: u64
  s_wire_bytes :: u64
  s_captured_bytes :: u64
  s_first_ts_ns :: u64
  s_last_ts_ns :: u64
  s_ipv4 :: u64
  s_ipv6 :: u64
  s_non_ip :: u64
  s_vlan_tagged :: u64
  s_tcp :: u64
  s_udp :: u64
  s_icmp :: u64
  s_icmpv6 :: u64
  s_other_l4 :: u64
  s_frag_first :: u64
  s_frag_later :: u64
  s_frag_matched :: u64
  s_truncated :: u64
  s_malformed :: u64
  s_by_status :: "u64 list"
  s_gtpu :: gtpu_stats

definition status_zeros :: "u64 list" where
  "status_zeros = replicate (status_num DEC_STATUS_COUNT) 0"

definition gtpu_stats0 :: gtpu_stats where
  "gtpu_stats0 = \<lparr>g_packets = 0, g_fragmented = 0, g_not_v1u = 0, g_gpdu = 0, g_echo_request = 0,
     g_echo_response = 0, g_error_indication = 0, g_end_marker = 0, g_other_type = 0, g_with_seq = 0,
     g_with_ext = 0, g_inner_ipv4 = 0, g_inner_ipv6 = 0, g_inner_tcp = 0, g_inner_udp = 0,
     g_inner_icmp = 0, g_inner_icmpv6 = 0, g_inner_other = 0, g_nested = 0, g_truncated = 0,
     g_malformed = 0, g_user_truncated = 0, g_user_malformed = 0, g_by_status = status_zeros\<rparr>"

text \<open>\<open>memset(s, 0, sizeof *s)\<close>.\<close>

definition stats_init :: stats where
  "stats_init = \<lparr>s_packets = 0, s_wire_bytes = 0, s_captured_bytes = 0, s_first_ts_ns = 0,
     s_last_ts_ns = 0, s_ipv4 = 0, s_ipv6 = 0, s_non_ip = 0, s_vlan_tagged = 0, s_tcp = 0, s_udp = 0,
     s_icmp = 0, s_icmpv6 = 0, s_other_l4 = 0, s_frag_first = 0, s_frag_later = 0, s_frag_matched = 0,
     s_truncated = 0, s_malformed = 0, s_by_status = status_zeros, s_gtpu = gtpu_stats0\<rparr>"

section \<open>GTP-U counters\<close>

text \<open>\<open>if ((unsigned)st < DEC_STATUS_COUNT) by_status[st]++;\<close>\<close>

definition count_status :: "u64 list \<Rightarrow> decode_status \<Rightarrow> u64 list option" where
  "count_status by_status st =
     (if status_num st < status_num DEC_STATUS_COUNT
      then do { n \<leftarrow> rd by_status (status_num st); wr by_status (status_num st) (n + 1) }
      else Some by_status)"

definition gtpu_problem :: "packet_info \<Rightarrow> gtpu_stats \<Rightarrow> gtpu_stats" where
  "gtpu_problem pi g =
     (if pi_gtp_status pi \<noteq> DEC_OK
      then if decode_status_is_truncation (pi_gtp_status pi)
           then (let g = g\<lparr>g_truncated := g_truncated g + 1\<rparr> in
                 if pi_gtp_msg_ok pi then g\<lparr>g_user_truncated := g_user_truncated g + 1\<rparr> else g)
           else (let g = g\<lparr>g_malformed := g_malformed g + 1\<rparr> in
                 if pi_gtp_msg_ok pi then g\<lparr>g_user_malformed := g_user_malformed g + 1\<rparr> else g)
      else g)"

definition gtpu_message :: "packet_info \<Rightarrow> gtpu_stats \<Rightarrow> gtpu_stats" where
  "gtpu_message pi g =
     (if pi_gtp_msg_type pi = GTPU_MSG_GPDU then g\<lparr>g_gpdu := g_gpdu g + 1\<rparr>
      else if pi_gtp_msg_type pi = GTPU_MSG_ECHO_REQUEST then g\<lparr>g_echo_request := g_echo_request g + 1\<rparr>
      else if pi_gtp_msg_type pi = GTPU_MSG_ECHO_RESPONSE then g\<lparr>g_echo_response := g_echo_response g + 1\<rparr>
      else if pi_gtp_msg_type pi = GTPU_MSG_ERROR_INDICATION
      then g\<lparr>g_error_indication := g_error_indication g + 1\<rparr>
      else if pi_gtp_msg_type pi = GTPU_MSG_END_MARKER then g\<lparr>g_end_marker := g_end_marker g + 1\<rparr>
      else g\<lparr>g_other_type := g_other_type g + 1\<rparr>)"

definition gtpu_options_seen :: "packet_info \<Rightarrow> gtpu_stats \<Rightarrow> gtpu_stats" where
  "gtpu_options_seen pi g =
     (let g = (if ucast (pi_gtp_flags pi) AND GTPU_FLAG_S \<noteq> 0 then g\<lparr>g_with_seq := g_with_seq g + 1\<rparr> else g)
      in if pi_gtp_ext_count pi > 0 then g\<lparr>g_with_ext := g_with_ext g + 1\<rparr> else g)"

definition gtpu_user_proto :: "packet_info \<Rightarrow> gtpu_stats \<Rightarrow> gtpu_stats" where
  "gtpu_user_proto pi g =
     (if pi_inner_proto pi = IPPROTO_NUM_TCP then g\<lparr>g_inner_tcp := g_inner_tcp g + 1\<rparr>
      else if pi_inner_proto pi = IPPROTO_NUM_UDP then g\<lparr>g_inner_udp := g_inner_udp g + 1\<rparr>
      else if pi_inner_proto pi = IPPROTO_NUM_ICMP then g\<lparr>g_inner_icmp := g_inner_icmp g + 1\<rparr>
      else if pi_inner_proto pi = IPPROTO_NUM_ICMPV6 then g\<lparr>g_inner_icmpv6 := g_inner_icmpv6 g + 1\<rparr>
      else g\<lparr>g_inner_other := g_inner_other g + 1\<rparr>)"

definition gtpu_user :: "packet_info \<Rightarrow> gtpu_stats \<Rightarrow> gtpu_stats" where
  "gtpu_user pi g =
     (if \<not> pi_has_inner pi then g
      else
        let g = (if pi_inner_version pi = 4 then g\<lparr>g_inner_ipv4 := g_inner_ipv4 g + 1\<rparr>
                 else g\<lparr>g_inner_ipv6 := g_inner_ipv6 g + 1\<rparr>)
        in if pi_gtp_status pi = DEC_TRUNC_IPV6_EXT \<or> pi_gtp_status pi = DEC_BAD_IPV6_EXT then g
           else
             let g = gtpu_user_proto pi g
             in if pi_gtp_nested pi then g\<lparr>g_nested := g_nested g + 1\<rparr> else g)"

definition add_gtpu :: "gtpu_stats \<Rightarrow> packet_info \<Rightarrow> gtpu_stats option" where
  "add_gtpu g pi =
     (if pi_frag pi = FRAG_FIRST \<and> decode_is_gtpu_port pi then Some (g\<lparr>g_fragmented := g_fragmented g + 1\<rparr>)
      else if \<not> pi_is_gtpu pi then Some g
      else do {
        let g = g\<lparr>g_packets := g_packets g + 1\<rparr>;
        by_status \<leftarrow> count_status (g_by_status g) (pi_gtp_status pi);
        let g = gtpu_problem pi (g\<lparr>g_by_status := by_status\<rparr>);
        Some (if \<not> pi_gtp_v1u pi
              then if pi_gtp_status pi = DEC_OK then g\<lparr>g_not_v1u := g_not_v1u g + 1\<rparr> else g
              else gtpu_user pi (gtpu_options_seen pi (gtpu_message pi g))) })"

section \<open>All counters\<close>

definition stats_totals :: "u32 \<Rightarrow> u32 \<Rightarrow> u64 \<Rightarrow> stats \<Rightarrow> stats" where
  "stats_totals caplen wirelen ts_ns s =
     (let s = (if s_packets s = 0 \<or> ts_ns < s_first_ts_ns s then s\<lparr>s_first_ts_ns := ts_ns\<rparr> else s);
          s = (if s_packets s = 0 \<or> ts_ns > s_last_ts_ns s then s\<lparr>s_last_ts_ns := ts_ns\<rparr> else s)
      in s\<lparr>s_packets := s_packets s + 1, s_wire_bytes := s_wire_bytes s + ucast wirelen,
           s_captured_bytes := s_captured_bytes s + ucast caplen\<rparr>)"

definition stats_problem :: "packet_info \<Rightarrow> stats \<Rightarrow> stats" where
  "stats_problem pi s =
     (if pi_status pi \<noteq> DEC_OK
      then if decode_status_is_truncation (pi_status pi) then s\<lparr>s_truncated := s_truncated s + 1\<rparr>
           else s\<lparr>s_malformed := s_malformed s + 1\<rparr>
      else s)"

definition stats_vlan :: "packet_info \<Rightarrow> stats \<Rightarrow> stats" where
  "stats_vlan pi s = (if pi_vlan_count pi > 0 then s\<lparr>s_vlan_tagged := s_vlan_tagged s + 1\<rparr> else s)"

definition stats_l3 :: "packet_info \<Rightarrow> stats \<Rightarrow> stats" where
  "stats_l3 pi s =
     (let s = (if pi_ip_version pi = 4 then s\<lparr>s_ipv4 := s_ipv4 s + 1\<rparr> else s\<lparr>s_ipv6 := s_ipv6 s + 1\<rparr>)
      in if pi_frag pi = FRAG_FIRST then s\<lparr>s_frag_first := s_frag_first s + 1\<rparr>
         else if pi_frag pi = FRAG_LATER then s\<lparr>s_frag_later := s_frag_later s + 1\<rparr> else s)"

definition stats_l4 :: "packet_info \<Rightarrow> stats \<Rightarrow> stats" where
  "stats_l4 pi s =
     (if pi_ip_proto pi = IPPROTO_NUM_TCP then s\<lparr>s_tcp := s_tcp s + 1\<rparr>
      else if pi_ip_proto pi = IPPROTO_NUM_UDP then s\<lparr>s_udp := s_udp s + 1\<rparr>
      else if pi_ip_proto pi = IPPROTO_NUM_ICMP then s\<lparr>s_icmp := s_icmp s + 1\<rparr>
      else if pi_ip_proto pi = IPPROTO_NUM_ICMPV6 then s\<lparr>s_icmpv6 := s_icmpv6 s + 1\<rparr>
      else s\<lparr>s_other_l4 := s_other_l4 s + 1\<rparr>)"

definition stats_layers :: "packet_info \<Rightarrow> stats \<Rightarrow> stats" where
  "stats_layers pi s =
     (if \<not> pi_has_l3 pi
      then if pi_has_l2 pi \<and> ucast (pi_ethertype pi) \<noteq> ETHERTYPE_IPV4 \<and> ucast (pi_ethertype pi) \<noteq> ETHERTYPE_IPV6
           then s\<lparr>s_non_ip := s_non_ip s + 1\<rparr> else s
      else
        let s = stats_l3 pi s
        in if pi_status pi = DEC_TRUNC_IPV6_EXT \<or> pi_status pi = DEC_BAD_IPV6_EXT then s
           else stats_l4 pi s)"

definition stats_add :: "stats \<Rightarrow> packet_info \<Rightarrow> u32 \<Rightarrow> u32 \<Rightarrow> u64 \<Rightarrow> stats option" where
  "stats_add s pi caplen wirelen ts_ns = do {
     let s = stats_totals caplen wirelen ts_ns s;
     by_status \<leftarrow> count_status (s_by_status s) (pi_status pi);
     let s = stats_vlan pi (stats_problem pi (s\<lparr>s_by_status := by_status\<rparr>));
     g \<leftarrow> add_gtpu (s_gtpu s) pi;
     Some (stats_layers pi (s\<lparr>s_gtpu := g\<rparr>)) }"

end
