(* ===== verification/Stats_Props.thy ===== *)
theory Stats_Props
  imports Stats
begin

text \<open>
  What the counters mean. Each group of statements of \<open>stats_add\<close> is first rewritten as
  an unconditional update that adds 0 or 1 to its counters. From that follows, for any
  sequence of packets, that every counter is the number of packets (modulo 2^64) with the
  property the counter is documented to count, and the balance equations between the
  counters of decoded frames.
\<close>

section \<open>Ticks\<close>

definition tick :: "bool \<Rightarrow> u64" where
  "tick b = (if b then 1 else 0)"

lemma tick_simps [simp]: "tick True = 1" "tick False = 0"
  by (simp_all add: tick_def)

lemma tick_0_iff [simp]: "tick b = 0 \<longleftrightarrow> \<not> b"
  by (simp add: tick_def)

definition ext_broken :: "decode_status \<Rightarrow> bool" where
  "ext_broken st \<longleftrightarrow> st = DEC_TRUNC_IPV6_EXT \<or> st = DEC_BAD_IPV6_EXT"

definition malformed :: "decode_status \<Rightarrow> bool" where
  "malformed st \<longleftrightarrow> st \<noteq> DEC_OK \<and> \<not> decode_status_is_truncation st"

definition known_l4 :: "u8 \<Rightarrow> bool" where
  "known_l4 p \<longleftrightarrow> p = IPPROTO_NUM_TCP \<or> p = IPPROTO_NUM_UDP \<or> p = IPPROTO_NUM_ICMP \<or> p = IPPROTO_NUM_ICMPV6"

lemma trunc_not_ok: "decode_status_is_truncation st \<Longrightarrow> st \<noteq> DEC_OK"
  by (auto simp: decode_status_is_truncation_def)

lemma gtpu_problem_ticks:
  "gtpu_problem pi g = g\<lparr>
     g_truncated := g_truncated g + tick (decode_status_is_truncation (pi_gtp_status pi)),
     g_malformed := g_malformed g + tick (malformed (pi_gtp_status pi)),
     g_user_truncated := g_user_truncated g + tick (decode_status_is_truncation (pi_gtp_status pi) \<and> pi_gtp_msg_ok pi),
     g_user_malformed := g_user_malformed g + tick (malformed (pi_gtp_status pi) \<and> pi_gtp_msg_ok pi)\<rparr>"
  using trunc_not_ok [of "pi_gtp_status pi"] by (cases g) (auto simp: gtpu_problem_def malformed_def Let_def)

definition known_type :: "u8 \<Rightarrow> bool" where
  "known_type ty \<longleftrightarrow> ty = GTPU_MSG_GPDU \<or> ty = GTPU_MSG_ECHO_REQUEST \<or> ty = GTPU_MSG_ECHO_RESPONSE \<or>
     ty = GTPU_MSG_ERROR_INDICATION \<or> ty = GTPU_MSG_END_MARKER"

lemma gtpu_message_ticks:
  "gtpu_message pi g = g\<lparr>
     g_gpdu := g_gpdu g + tick (pi_gtp_msg_type pi = GTPU_MSG_GPDU),
     g_echo_request := g_echo_request g + tick (pi_gtp_msg_type pi = GTPU_MSG_ECHO_REQUEST),
     g_echo_response := g_echo_response g + tick (pi_gtp_msg_type pi = GTPU_MSG_ECHO_RESPONSE),
     g_error_indication := g_error_indication g + tick (pi_gtp_msg_type pi = GTPU_MSG_ERROR_INDICATION),
     g_end_marker := g_end_marker g + tick (pi_gtp_msg_type pi = GTPU_MSG_END_MARKER),
     g_other_type := g_other_type g + tick (\<not> known_type (pi_gtp_msg_type pi))\<rparr>"
  by (cases g) (simp add: gtpu_message_def known_type_def)

lemma gtpu_options_seen_ticks:
  "gtpu_options_seen pi g = g\<lparr>
     g_with_seq := g_with_seq g + tick (ucast (pi_gtp_flags pi) AND GTPU_FLAG_S \<noteq> 0),
     g_with_ext := g_with_ext g + tick (pi_gtp_ext_count pi > 0)\<rparr>"
  by (cases g) (simp add: gtpu_options_seen_def Let_def)

lemma gtpu_user_ticks:
  "gtpu_user pi g = g\<lparr>
     g_inner_ipv4 := g_inner_ipv4 g + tick (pi_has_inner pi \<and> pi_inner_version pi = 4),
     g_inner_ipv6 := g_inner_ipv6 g + tick (pi_has_inner pi \<and> pi_inner_version pi \<noteq> 4),
     g_inner_tcp := g_inner_tcp g + tick (pi_has_inner pi \<and> \<not> ext_broken (pi_gtp_status pi) \<and> pi_inner_proto pi = IPPROTO_NUM_TCP),
     g_inner_udp := g_inner_udp g + tick (pi_has_inner pi \<and> \<not> ext_broken (pi_gtp_status pi) \<and> pi_inner_proto pi = IPPROTO_NUM_UDP),
     g_inner_icmp := g_inner_icmp g + tick (pi_has_inner pi \<and> \<not> ext_broken (pi_gtp_status pi) \<and> pi_inner_proto pi = IPPROTO_NUM_ICMP),
     g_inner_icmpv6 := g_inner_icmpv6 g + tick (pi_has_inner pi \<and> \<not> ext_broken (pi_gtp_status pi) \<and> pi_inner_proto pi = IPPROTO_NUM_ICMPV6),
     g_inner_other := g_inner_other g + tick (pi_has_inner pi \<and> \<not> ext_broken (pi_gtp_status pi) \<and> \<not> known_l4 (pi_inner_proto pi)),
     g_nested := g_nested g + tick (pi_has_inner pi \<and> \<not> ext_broken (pi_gtp_status pi) \<and> pi_gtp_nested pi)\<rparr>"
  by (cases g) (simp add: gtpu_user_def gtpu_user_proto_def known_l4_def ext_broken_def Let_def)

section \<open>What each GTP-U counter counts\<close>

definition decoded_gtpu :: "packet_info \<Rightarrow> bool" where
  "decoded_gtpu pi \<longleftrightarrow> \<not> (pi_frag pi = FRAG_FIRST \<and> decode_is_gtpu_port pi) \<and> pi_is_gtpu pi"

definition v1u :: "packet_info \<Rightarrow> bool" where
  "v1u pi \<longleftrightarrow> decoded_gtpu pi \<and> pi_gtp_v1u pi"

definition user_l4 :: "packet_info \<Rightarrow> bool" where
  "user_l4 pi \<longleftrightarrow> v1u pi \<and> pi_has_inner pi \<and> \<not> ext_broken (pi_gtp_status pi)"

definition gtpu_counters :: "((gtpu_stats \<Rightarrow> u64) \<times> (packet_info \<Rightarrow> bool)) list" where
  "gtpu_counters = [
     (g_packets, decoded_gtpu),
     (g_fragmented, \<lambda>pi. pi_frag pi = FRAG_FIRST \<and> decode_is_gtpu_port pi),
     (g_not_v1u, \<lambda>pi. decoded_gtpu pi \<and> \<not> pi_gtp_v1u pi \<and> pi_gtp_status pi = DEC_OK),
     (g_gpdu, \<lambda>pi. v1u pi \<and> pi_gtp_msg_type pi = GTPU_MSG_GPDU),
     (g_echo_request, \<lambda>pi. v1u pi \<and> pi_gtp_msg_type pi = GTPU_MSG_ECHO_REQUEST),
     (g_echo_response, \<lambda>pi. v1u pi \<and> pi_gtp_msg_type pi = GTPU_MSG_ECHO_RESPONSE),
     (g_error_indication, \<lambda>pi. v1u pi \<and> pi_gtp_msg_type pi = GTPU_MSG_ERROR_INDICATION),
     (g_end_marker, \<lambda>pi. v1u pi \<and> pi_gtp_msg_type pi = GTPU_MSG_END_MARKER),
     (g_other_type, \<lambda>pi. v1u pi \<and> \<not> known_type (pi_gtp_msg_type pi)),
     (g_with_seq, \<lambda>pi. v1u pi \<and> ucast (pi_gtp_flags pi) AND GTPU_FLAG_S \<noteq> 0),
     (g_with_ext, \<lambda>pi. v1u pi \<and> pi_gtp_ext_count pi > 0),
     (g_inner_ipv4, \<lambda>pi. v1u pi \<and> pi_has_inner pi \<and> pi_inner_version pi = 4),
     (g_inner_ipv6, \<lambda>pi. v1u pi \<and> pi_has_inner pi \<and> pi_inner_version pi \<noteq> 4),
     (g_inner_tcp, \<lambda>pi. user_l4 pi \<and> pi_inner_proto pi = IPPROTO_NUM_TCP),
     (g_inner_udp, \<lambda>pi. user_l4 pi \<and> pi_inner_proto pi = IPPROTO_NUM_UDP),
     (g_inner_icmp, \<lambda>pi. user_l4 pi \<and> pi_inner_proto pi = IPPROTO_NUM_ICMP),
     (g_inner_icmpv6, \<lambda>pi. user_l4 pi \<and> pi_inner_proto pi = IPPROTO_NUM_ICMPV6),
     (g_inner_other, \<lambda>pi. user_l4 pi \<and> \<not> known_l4 (pi_inner_proto pi)),
     (g_nested, \<lambda>pi. user_l4 pi \<and> pi_gtp_nested pi),
     (g_truncated, \<lambda>pi. decoded_gtpu pi \<and> decode_status_is_truncation (pi_gtp_status pi)),
     (g_malformed, \<lambda>pi. decoded_gtpu pi \<and> malformed (pi_gtp_status pi)),
     (g_user_truncated, \<lambda>pi. decoded_gtpu pi \<and> decode_status_is_truncation (pi_gtp_status pi) \<and> pi_gtp_msg_ok pi),
     (g_user_malformed, \<lambda>pi. decoded_gtpu pi \<and> malformed (pi_gtp_status pi) \<and> pi_gtp_msg_ok pi)]"

definition ticks_by :: "(('s \<Rightarrow> u64) \<times> ('p \<Rightarrow> bool)) list \<Rightarrow> 'p \<Rightarrow> 's \<Rightarrow> 's \<Rightarrow> bool" where
  "ticks_by counters p s s' \<longleftrightarrow> (\<forall>(sel, P)\<in>set counters. sel s' = sel s + tick (P p))"

definition status_tick :: "bool \<Rightarrow> decode_status \<Rightarrow> u64 list \<Rightarrow> u64 list \<Rightarrow> bool" where
  "status_tick b st xs ys \<longleftrightarrow> length ys = 28 \<and>
     (\<forall>st'. st' \<noteq> DEC_STATUS_COUNT \<longrightarrow> ys ! status_num st' = xs ! status_num st' + tick (b \<and> st = st'))"

lemma status_num_inj: "status_num a = status_num b \<longleftrightarrow> a = b"
  by (cases a; cases b) simp_all

lemma status_num_less: "status_num st < 28 \<longleftrightarrow> st \<noteq> DEC_STATUS_COUNT"
  by (cases st) simp_all

lemma count_status_ok:
  assumes "length xs = 28"
  shows "\<exists>ys. count_status xs st = Some ys \<and> status_tick True st xs ys"
proof (cases "st = DEC_STATUS_COUNT")
  case True
  then show ?thesis using assms by (simp add: count_status_def status_tick_def)
next
  case False
  then have "status_num st < 28" by (simp add: status_num_less)
  with assms show ?thesis
    by (auto simp: count_status_def status_tick_def wr_def nth_list_update status_num_inj)
qed

lemma status_tick_none: "length xs = 28 \<Longrightarrow> status_tick False st xs xs"
  by (simp add: status_tick_def)

lemma add_gtpu_ok:
  assumes "length (g_by_status g) = 28"
  shows "\<exists>g'. add_gtpu g pi = Some g' \<and> ticks_by gtpu_counters pi g g' \<and>
    status_tick (decoded_gtpu pi) (pi_gtp_status pi) (g_by_status g) (g_by_status g')"
proof (cases "decoded_gtpu pi")
  case False
  then show ?thesis
    using assms by (auto simp: add_gtpu_def ticks_by_def gtpu_counters_def decoded_gtpu_def v1u_def user_l4_def status_tick_none)
next
  case True
  then have run: "add_gtpu g pi = (count_status (g_by_status g) (pi_gtp_status pi) \<bind> (\<lambda>by_status.
      let g = gtpu_problem pi (g\<lparr>g_packets := g_packets g + 1, g_by_status := by_status\<rparr>) in
      Some (if \<not> pi_gtp_v1u pi
        then if pi_gtp_status pi = DEC_OK then g\<lparr>g_not_v1u := g_not_v1u g + 1\<rparr> else g
        else gtpu_user pi (gtpu_options_seen pi (gtpu_message pi g)))))"
    by (auto simp: add_gtpu_def decoded_gtpu_def Let_def)
  obtain bs where bs: "count_status (g_by_status g) (pi_gtp_status pi) = Some bs"
      "status_tick True (pi_gtp_status pi) (g_by_status g) bs"
    using count_status_ok [OF assms] by blast
  have nf: "tick (pi_frag pi = FRAG_FIRST \<and> decode_is_gtpu_port pi) = 0" using True by (simp add: decoded_gtpu_def)
  show ?thesis
  proof (cases "pi_gtp_v1u pi")
    case v: True
    from bs True v show ?thesis
      by (simp add: run nf ticks_by_def gtpu_counters_def v1u_def user_l4_def gtpu_problem_ticks gtpu_message_ticks
          gtpu_options_seen_ticks gtpu_user_ticks Let_def)
  next
    case v: False
    from bs True v show ?thesis
      by (auto simp: run nf ticks_by_def gtpu_counters_def v1u_def user_l4_def gtpu_problem_ticks Let_def)
  qed
qed

section \<open>What each counter counts\<close>

definition l4_seen :: "packet_info \<Rightarrow> bool" where
  "l4_seen pi \<longleftrightarrow> pi_has_l3 pi \<and> \<not> ext_broken (pi_status pi)"

definition non_ip :: "packet_info \<Rightarrow> bool" where
  "non_ip pi \<longleftrightarrow> pi_has_l2 pi \<and> \<not> pi_has_l3 pi \<and>
     ucast (pi_ethertype pi) \<noteq> ETHERTYPE_IPV4 \<and> ucast (pi_ethertype pi) \<noteq> ETHERTYPE_IPV6"

definition stats_counters :: "((stats \<Rightarrow> u64) \<times> (packet_info \<Rightarrow> bool)) list" where
  "stats_counters = [
     (s_packets, \<lambda>pi. True),
     (s_ipv4, \<lambda>pi. pi_has_l3 pi \<and> pi_ip_version pi = 4),
     (s_ipv6, \<lambda>pi. pi_has_l3 pi \<and> pi_ip_version pi \<noteq> 4),
     (s_non_ip, non_ip),
     (s_vlan_tagged, \<lambda>pi. pi_vlan_count pi > 0),
     (s_tcp, \<lambda>pi. l4_seen pi \<and> pi_ip_proto pi = IPPROTO_NUM_TCP),
     (s_udp, \<lambda>pi. l4_seen pi \<and> pi_ip_proto pi = IPPROTO_NUM_UDP),
     (s_icmp, \<lambda>pi. l4_seen pi \<and> pi_ip_proto pi = IPPROTO_NUM_ICMP),
     (s_icmpv6, \<lambda>pi. l4_seen pi \<and> pi_ip_proto pi = IPPROTO_NUM_ICMPV6),
     (s_other_l4, \<lambda>pi. l4_seen pi \<and> \<not> known_l4 (pi_ip_proto pi)),
     (s_frag_first, \<lambda>pi. pi_has_l3 pi \<and> pi_frag pi = FRAG_FIRST),
     (s_frag_later, \<lambda>pi. pi_has_l3 pi \<and> pi_frag pi = FRAG_LATER),
     (s_truncated, \<lambda>pi. decode_status_is_truncation (pi_status pi)),
     (s_malformed, \<lambda>pi. malformed (pi_status pi))]"

lemma stats_totals_ticks:
  "stats_totals cap wire ts s = s\<lparr>
     s_first_ts_ns := (if s_packets s = 0 \<or> ts < s_first_ts_ns s then ts else s_first_ts_ns s),
     s_last_ts_ns := (if s_packets s = 0 \<or> ts > s_last_ts_ns s then ts else s_last_ts_ns s),
     s_packets := s_packets s + 1, s_wire_bytes := s_wire_bytes s + ucast wire,
     s_captured_bytes := s_captured_bytes s + ucast cap\<rparr>"
  by (cases s) (simp add: stats_totals_def Let_def)

lemma stats_problem_ticks:
  "stats_problem pi s = s\<lparr>
     s_truncated := s_truncated s + tick (decode_status_is_truncation (pi_status pi)),
     s_malformed := s_malformed s + tick (malformed (pi_status pi))\<rparr>"
  using trunc_not_ok [of "pi_status pi"] by (cases s) (auto simp: stats_problem_def malformed_def)

lemma stats_vlan_ticks: "stats_vlan pi s = s\<lparr>s_vlan_tagged := s_vlan_tagged s + tick (pi_vlan_count pi > 0)\<rparr>"
  by (cases s) (simp add: stats_vlan_def)

lemma stats_l3_ticks:
  "stats_l3 pi s = s\<lparr>
     s_ipv4 := s_ipv4 s + tick (pi_ip_version pi = 4), s_ipv6 := s_ipv6 s + tick (pi_ip_version pi \<noteq> 4),
     s_frag_first := s_frag_first s + tick (pi_frag pi = FRAG_FIRST),
     s_frag_later := s_frag_later s + tick (pi_frag pi = FRAG_LATER)\<rparr>"
  by (cases s) (simp add: stats_l3_def Let_def)

lemma stats_l4_ticks:
  "stats_l4 pi s = s\<lparr>
     s_tcp := s_tcp s + tick (pi_ip_proto pi = IPPROTO_NUM_TCP), s_udp := s_udp s + tick (pi_ip_proto pi = IPPROTO_NUM_UDP),
     s_icmp := s_icmp s + tick (pi_ip_proto pi = IPPROTO_NUM_ICMP),
     s_icmpv6 := s_icmpv6 s + tick (pi_ip_proto pi = IPPROTO_NUM_ICMPV6),
     s_other_l4 := s_other_l4 s + tick (\<not> known_l4 (pi_ip_proto pi))\<rparr>"
  by (cases s) (simp add: stats_l4_def known_l4_def)

lemma stats_layers_alt:
  "stats_layers pi s =
     (if \<not> pi_has_l3 pi then (if non_ip pi then s\<lparr>s_non_ip := s_non_ip s + 1\<rparr> else s)
      else if ext_broken (pi_status pi) then stats_l3 pi s else stats_l4 pi (stats_l3 pi s))"
  by (simp add: stats_layers_def non_ip_def ext_broken_def Let_def)

text \<open>The same for the whole of \<open>stats_add\<close>: the counters of the table, the arrays, the sums
  and the times.\<close>

definition stats_ok :: "stats \<Rightarrow> bool" where
  "stats_ok s \<longleftrightarrow> length (s_by_status s) = 28 \<and> length (g_by_status (s_gtpu s)) = 28"

definition stats_step :: "packet_info \<Rightarrow> u32 \<Rightarrow> u32 \<Rightarrow> u64 \<Rightarrow> stats \<Rightarrow> stats \<Rightarrow> bool" where
  "stats_step pi cap wire ts s s' \<longleftrightarrow>
     ticks_by stats_counters pi s s' \<and> ticks_by gtpu_counters pi (s_gtpu s) (s_gtpu s') \<and>
     status_tick True (pi_status pi) (s_by_status s) (s_by_status s') \<and>
     status_tick (decoded_gtpu pi) (pi_gtp_status pi) (g_by_status (s_gtpu s)) (g_by_status (s_gtpu s')) \<and>
     s_frag_matched s' = s_frag_matched s \<and> s_wire_bytes s' = s_wire_bytes s + ucast wire \<and> s_captured_bytes s' = s_captured_bytes s + ucast cap \<and>
     s_first_ts_ns s' = (if s_packets s = 0 \<or> ts < s_first_ts_ns s then ts else s_first_ts_ns s) \<and>
     s_last_ts_ns s' = (if s_packets s = 0 \<or> ts > s_last_ts_ns s then ts else s_last_ts_ns s)"

lemma stats_add_ok:
  assumes "stats_ok s"
  shows "\<exists>s'. stats_add s pi cap wire ts = Some s' \<and> stats_step pi cap wire ts s s'"
proof -
  obtain bs where bs: "count_status (s_by_status s) (pi_status pi) = Some bs"
      "status_tick True (pi_status pi) (s_by_status s) bs"
    using count_status_ok [of "s_by_status s"] assms by (auto simp: stats_ok_def)
  obtain g where g: "add_gtpu (s_gtpu s) pi = Some g" "ticks_by gtpu_counters pi (s_gtpu s) g"
      "status_tick (decoded_gtpu pi) (pi_gtp_status pi) (g_by_status (s_gtpu s)) (g_by_status g)"
    using add_gtpu_ok [of "s_gtpu s" pi] assms by (auto simp: stats_ok_def)
  let ?s = "stats_vlan pi (stats_problem pi ((stats_totals cap wire ts s)\<lparr>s_by_status := bs\<rparr>))\<lparr>s_gtpu := g\<rparr>"
  have "stats_add s pi cap wire ts = Some (stats_layers pi ?s)"
    using bs(1) g(1) by (simp add: stats_add_def stats_totals_ticks stats_problem_ticks stats_vlan_ticks)
  moreover have "stats_step pi cap wire ts s (stats_layers pi ?s)"
    using bs(2) g(2,3)
    by (cases "pi_has_l3 pi"; cases "ext_broken (pi_status pi)")
      (simp_all add: stats_step_def stats_layers_alt ticks_by_def stats_counters_def non_ip_def l4_seen_def
        stats_totals_ticks stats_problem_ticks stats_vlan_ticks stats_l3_ticks stats_l4_ticks Let_def)
  ultimately show ?thesis by blast
qed

section \<open>Sequences of packets\<close>

text \<open>A decoded packet with its captured length, its length on the wire and its time.\<close>

type_synonym pkt = "packet_info \<times> u32 \<times> u32 \<times> u64"

definition pk_cap :: "pkt \<Rightarrow> u32" where "pk_cap p = fst (snd p)"
definition pk_wire :: "pkt \<Rightarrow> u32" where "pk_wire p = fst (snd (snd p))"
definition pk_ts :: "pkt \<Rightarrow> u64" where "pk_ts p = snd (snd (snd p))"

primrec stats_run :: "stats \<Rightarrow> pkt list \<Rightarrow> stats option" where
  "stats_run s [] = Some s"
| "stats_run s (p # ps) = do { s' \<leftarrow> stats_add s (fst p) (pk_cap p) (pk_wire p) (pk_ts p); stats_run s' ps }"

text \<open>The number of packets with a property, as a 64-bit counter.\<close>

definition tally :: "(packet_info \<Rightarrow> bool) \<Rightarrow> pkt list \<Rightarrow> u64" where
  "tally P ps = of_nat (length (filter (\<lambda>p. P (fst p)) ps))"

lemma tally_snoc: "tally P (ps @ [p]) = tally P ps + tick (P (fst p))"
  by (simp add: tally_def)

lemma tally_Nil [simp]: "tally P [] = 0"
  by (simp add: tally_def)

definition stats_counts :: "pkt list \<Rightarrow> stats \<Rightarrow> bool" where
  "stats_counts ps s \<longleftrightarrow>
     (\<forall>(sel, P)\<in>set stats_counters. sel s = tally P ps) \<and>
     (\<forall>(sel, P)\<in>set gtpu_counters. sel (s_gtpu s) = tally P ps) \<and>
     (\<forall>st. st \<noteq> DEC_STATUS_COUNT \<longrightarrow> s_by_status s ! status_num st = tally (\<lambda>pi. pi_status pi = st) ps) \<and>
     (\<forall>st. st \<noteq> DEC_STATUS_COUNT \<longrightarrow>
        g_by_status (s_gtpu s) ! status_num st = tally (\<lambda>pi. decoded_gtpu pi \<and> pi_gtp_status pi = st) ps) \<and>
     s_wire_bytes s = sum_list (map (\<lambda>p. ucast (pk_wire p)) ps) \<and>
     s_captured_bytes s = sum_list (map (\<lambda>p. ucast (pk_cap p)) ps) \<and>
     (ps \<noteq> [] \<and> length ps < 2 ^ 64 \<longrightarrow>
        s_first_ts_ns s = Min (pk_ts ` set ps) \<and> s_last_ts_ns s = Max (pk_ts ` set ps))"

lemma ticks_by_tally:
  "ticks_by counters (fst p) s s' \<Longrightarrow> \<forall>(sel, P)\<in>set counters. sel s = tally P ps \<Longrightarrow>
   \<forall>(sel, P)\<in>set counters. sel s' = tally P (ps @ [p])"
  by (fastforce simp: ticks_by_def tally_snoc)

lemma status_tick_tally:
  "status_tick b st xs ys \<Longrightarrow> (\<And>st'. P st' (fst p) \<longleftrightarrow> b \<and> st = st') \<Longrightarrow>
   \<forall>st'. st' \<noteq> DEC_STATUS_COUNT \<longrightarrow> xs ! status_num st' = tally (P st') ps \<Longrightarrow>
   \<forall>st'. st' \<noteq> DEC_STATUS_COUNT \<longrightarrow> ys ! status_num st' = tally (P st') (ps @ [p])"
  by (simp add: status_tick_def tally_snoc)

lemma of_nat_u64_0: "n < 2 ^ 64 \<Longrightarrow> (of_nat n :: u64) = 0 \<longleftrightarrow> n = 0"
  by (auto simp: word_of_nat_eq_0_iff dest: dvd_imp_le)

lemma stats_counts_step:
  assumes "stats_counts ps s" "stats_step (fst p) (pk_cap p) (pk_wire p) (pk_ts p) s s'"
  shows "stats_counts (ps @ [p]) s'"
proof -
  note c = assms(1) [unfolded stats_counts_def] and st = assms(2) [unfolded stats_step_def]
  have "s_packets s = of_nat (length ps)" using c by (simp add: stats_counters_def tally_def)
  then have zero: "s_packets s = 0 \<longleftrightarrow> ps = []" if "length ps < 2 ^ 64"
    using that of_nat_u64_0 [of "length ps"] by simp
  have times: "s_first_ts_ns s' = Min (pk_ts ` set (ps @ [p])) \<and> s_last_ts_ns s' = Max (pk_ts ` set (ps @ [p]))"
    if len: "length (ps @ [p]) < 2 ^ 64"
  proof (cases "ps = []")
    case True
    then show ?thesis using st zero by simp
  next
    case False
    then have old: "s_first_ts_ns s = Min (pk_ts ` set ps)" "s_last_ts_ns s = Max (pk_ts ` set ps)" using c len by simp_all
    have "s_first_ts_ns s' = min (pk_ts p) (s_first_ts_ns s)" "s_last_ts_ns s' = max (pk_ts p) (s_last_ts_ns s)"
      using st zero False len by (auto simp: min_def max_def)
    with old False show ?thesis by simp
  qed
  show ?thesis
    unfolding stats_counts_def
  proof (intro conjI)
    show "\<forall>(sel, P)\<in>set stats_counters. sel s' = tally P (ps @ [p])" using c st by (intro ticks_by_tally) auto
    show "\<forall>(sel, P)\<in>set gtpu_counters. sel (s_gtpu s') = tally P (ps @ [p])" using c st by (intro ticks_by_tally) auto
    show "\<forall>st. st \<noteq> DEC_STATUS_COUNT \<longrightarrow> s_by_status s' ! status_num st = tally (\<lambda>pi. pi_status pi = st) (ps @ [p])"
      using c st by (intro status_tick_tally [where P = "\<lambda>st pi. pi_status pi = st"]) auto
    show "\<forall>st. st \<noteq> DEC_STATUS_COUNT \<longrightarrow> g_by_status (s_gtpu s') ! status_num st =
        tally (\<lambda>pi. decoded_gtpu pi \<and> pi_gtp_status pi = st) (ps @ [p])"
      using c st by (intro status_tick_tally [where P = "\<lambda>st pi. decoded_gtpu pi \<and> pi_gtp_status pi = st"]) auto
  qed (use c st times in simp_all)
qed

lemma stats_step_ok: "stats_step pi cap wire ts s s' \<Longrightarrow> stats_ok s'"
  by (simp add: stats_step_def stats_ok_def status_tick_def)

lemma stats_init_counts: "stats_ok stats_init" "stats_counts [] stats_init"
proof -
  show "stats_ok stats_init" by (simp add: stats_ok_def stats_init_def gtpu_stats0_def status_zeros_def)
  show "stats_counts [] stats_init"
    by (simp add: stats_counts_def stats_counters_def gtpu_counters_def stats_init_def gtpu_stats0_def status_zeros_def
        nth_replicate status_num_less del: replicate.simps)
qed

lemma stats_run_from:
  assumes "stats_ok s" "stats_counts qs s"
  shows "\<exists>s'. stats_run s ps = Some s' \<and> stats_counts (qs @ ps) s' \<and> stats_ok s'"
  using assms
proof (induction ps arbitrary: s qs)
  case (Cons p ps)
  obtain s1 where s1: "stats_add s (fst p) (pk_cap p) (pk_wire p) (pk_ts p) = Some s1"
      "stats_step (fst p) (pk_cap p) (pk_wire p) (pk_ts p) s s1"
    using stats_add_ok [OF Cons.prems(1)] by blast
  from Cons.IH [OF stats_step_ok [OF s1(2)] stats_counts_step [OF Cons.prems(2) s1(2)]] s1(1)
  show ?case by simp
qed simp

lemma stats_init_matched: "s_frag_matched stats_init = 0"
  by (simp add: stats_init_def)

lemma stats_run_matched: "stats_ok s \<Longrightarrow> stats_run s ps = Some s' \<Longrightarrow> s_frag_matched s' = s_frag_matched s"
proof (induction ps arbitrary: s)
  case (Cons p ps)
  obtain s1 where s1: "stats_add s (fst p) (pk_cap p) (pk_wire p) (pk_ts p) = Some s1"
      "stats_step (fst p) (pk_cap p) (pk_wire p) (pk_ts p) s s1"
    using stats_add_ok [OF Cons.prems(1)] by blast
  then show ?case using Cons.IH [OF stats_step_ok [OF s1(2)]] Cons.prems(2) by (simp add: stats_step_def)
qed simp

section \<open>Properties\<close>

text \<open>
  C19. The counters mean what they say. After any sequence of packets from fresh counters,
  every counter of \<open>struct stats\<close> and of \<open>struct gtpu_stats\<close> that \<open>stats_add\<close> maintains is the number of
  packets with its documented property (the tables \<open>stats_counters\<close> and \<open>gtpu_counters\<close>), each
  element of the two \<open>by_status\<close> arrays is the number of packets with that status, the byte
  totals are the sums of the lengths (all modulo 2^64), and, for fewer than 2^64 packets, the first and last
  time are the true minimum and maximum. The one counter that is not \<open>stats_add\<close>'s, \<open>frag_matched\<close>, is left alone: it is
  incremented by \<open>analysis_account\<close>, and C5 says what it counts.
\<close>

theorem stats_count_packets:
  "\<exists>s. stats_run stats_init ps = Some s \<and> stats_counts ps s \<and> s_frag_matched s = 0"
  using stats_run_from [OF stats_init_counts, of ps] stats_run_matched [OF stats_init_counts(1), of ps] stats_init_matched by fastforce

lemma tally_sum:
  assumes "\<And>p. p \<in> set ps \<Longrightarrow> tick (P (fst p)) = sum_list (map (\<lambda>Q. tick (Q (fst p))) Qs)"
  shows "tally P ps = sum_list (map (\<lambda>Q. tally Q ps) Qs)"
  using assms
proof (induction ps rule: rev_induct)
  case (snoc p ps)
  then show ?case by (simp add: tally_snoc sum_list_addf)
qed (simp add: sum_list_0)

text \<open>
  C23. Balance. For packets that the decoder produced, the counters add up: every packet is
  counted under exactly one status, and as decoded, truncated or malformed; every packet
  with a valid IP header is counted under exactly one IP version, and under exactly one
  transport protocol unless its IPv6 extension chain is broken.
\<close>

theorem stats_balance:
  assumes "\<forall>p\<in>set ps. frame_info False (fst p)"
  shows "\<exists>s. stats_run stats_init ps = Some s \<and>
    s_packets s = s_by_status s ! status_num DEC_OK + s_truncated s + s_malformed s \<and>
    s_ipv4 s + s_ipv6 s = s_tcp s + s_udp s + s_icmp s + s_icmpv6 s + s_other_l4 s +
      s_by_status s ! status_num DEC_TRUNC_IPV6_EXT + s_by_status s ! status_num DEC_BAD_IPV6_EXT"
proof -
  obtain s where s: "stats_run stats_init ps = Some s" "stats_counts ps s"
    using stats_run_from [OF stats_init_counts, of ps] by auto
  let ?l4 = "\<lambda>proto pi. l4_seen pi \<and> pi_ip_proto pi = proto"
  let ?st = "\<lambda>st pi. pi_status pi = st"
  have 1: "tally (\<lambda>_. True) ps = sum_list (map (\<lambda>Q. tally Q ps)
      [?st DEC_OK, \<lambda>pi. decode_status_is_truncation (pi_status pi), \<lambda>pi. malformed (pi_status pi)])"
  proof (rule tally_sum)
    fix p :: pkt
    show "tick True = sum_list (map (\<lambda>Q. tick (Q (fst p)))
      [?st DEC_OK, \<lambda>pi. decode_status_is_truncation (pi_status pi), \<lambda>pi. malformed (pi_status pi)])"
      by (cases "pi_status (fst p)") (simp_all add: malformed_def)
  qed
  have 2: "tally pi_has_l3 ps = sum_list (map (\<lambda>Q. tally Q ps)
      [\<lambda>pi. pi_has_l3 pi \<and> pi_ip_version pi = 4, \<lambda>pi. pi_has_l3 pi \<and> pi_ip_version pi \<noteq> 4])"
    by (rule tally_sum) (simp add: tick_def)
  have 3: "tally pi_has_l3 ps = sum_list (map (\<lambda>Q. tally Q ps)
      [?l4 IPPROTO_NUM_TCP, ?l4 IPPROTO_NUM_UDP, ?l4 IPPROTO_NUM_ICMP, ?l4 IPPROTO_NUM_ICMPV6,
       \<lambda>pi. l4_seen pi \<and> \<not> known_l4 (pi_ip_proto pi), ?st DEC_TRUNC_IPV6_EXT, ?st DEC_BAD_IPV6_EXT])"
  proof (rule tally_sum)
    fix p assume "p \<in> set ps"
    then have "ext_broken (pi_status (fst p)) \<Longrightarrow> pi_has_l3 (fst p)"
      using assms by (auto simp: frame_info_def ext_broken_def)
    then show "tick (pi_has_l3 (fst p)) = sum_list (map (\<lambda>Q. tick (Q (fst p)))
      [?l4 IPPROTO_NUM_TCP, ?l4 IPPROTO_NUM_UDP, ?l4 IPPROTO_NUM_ICMP, ?l4 IPPROTO_NUM_ICMPV6,
       \<lambda>pi. l4_seen pi \<and> \<not> known_l4 (pi_ip_proto pi), ?st DEC_TRUNC_IPV6_EXT, ?st DEC_BAD_IPV6_EXT])"
      by (cases "ext_broken (pi_status (fst p))") (auto simp: l4_seen_def known_l4_def ext_broken_def tick_def)
  qed
  have status: "s_by_status s ! status_num st = tally (?st st) ps" if "st \<noteq> DEC_STATUS_COUNT" for st
    using s(2) that by (simp add: stats_counts_def)
  show ?thesis
    using s(1) 1 2 3 s(2) [unfolded stats_counts_def stats_counters_def]
      status [of DEC_OK] status [of DEC_TRUNC_IPV6_EXT] status [of DEC_BAD_IPV6_EXT]
    by (intro exI [of _ s]) (simp add: add.assoc)
qed

definition sample_ok :: packet_info where
  "sample_ok = packet_info0\<lparr>pi_has_l2 := True\<rparr>"

lemma sample_ok_info: "frame_info False sample_ok"
  using gtp_fresh_info [of sample_ok]
  by (simp add: frame_info_def gtp_fresh_def sample_ok_def packet_info0_def)

theorem stats_balance_witness:
  "\<exists>s. stats_run stats_init [(sample_ok, 60, 60, 5)] = Some s \<and>
    s_packets s = s_by_status s ! status_num DEC_OK + s_truncated s + s_malformed s"
  using stats_balance [of "[(sample_ok, 60, 60, 5)]"] sample_ok_info by auto

lemma frame_info_gtpu:
  assumes "frame_info full pi"
  shows "decoded_gtpu pi = pi_is_gtpu pi"
    "decoded_gtpu pi \<Longrightarrow> ext_broken (pi_gtp_status pi) \<Longrightarrow> v1u pi \<and> pi_has_inner pi"
proof -
  note f = assms [unfolded frame_info_def gtp_info_def]
  from f have "pi_is_gtpu pi \<longrightarrow> pi_frag pi = FRAG_NONE" by blast
  then show "decoded_gtpu pi = pi_is_gtpu pi" by (auto simp: decoded_gtpu_def)
  from f have "ext_broken (pi_gtp_status pi) \<longrightarrow> pi_has_inner pi" unfolding ext_broken_def by blast
  moreover from f have "pi_has_inner pi \<longrightarrow> pi_gtp_v1u pi" by blast
  moreover assume "decoded_gtpu pi" "ext_broken (pi_gtp_status pi)"
  ultimately show "v1u pi \<and> pi_has_inner pi" by (simp add: v1u_def)
qed

text \<open>
  C24. Balance inside the tunnels. For packets that the decoder produced, every GTP-U message
  is counted as decoded, truncated or malformed; under exactly one message type, as not
  GTPv1-U, or as stopped before its first 8 bytes were read; and every user packet with a
  valid IP header under exactly one transport protocol unless its extension chain is broken.
\<close>

theorem gtpu_balance:
  assumes "\<forall>p\<in>set ps. frame_info False (fst p)"
  shows "\<exists>s g. stats_run stats_init ps = Some s \<and> g = s_gtpu s \<and>
    g_packets g = g_by_status g ! status_num DEC_OK + g_truncated g + g_malformed g \<and>
    g_packets g = g_gpdu g + g_echo_request g + g_echo_response g + g_error_indication g + g_end_marker g +
      g_other_type g + g_not_v1u g + tally (\<lambda>pi. pi_is_gtpu pi \<and> \<not> pi_gtp_v1u pi \<and> pi_gtp_status pi \<noteq> DEC_OK) ps \<and>
    g_inner_ipv4 g + g_inner_ipv6 g = g_inner_tcp g + g_inner_udp g + g_inner_icmp g + g_inner_icmpv6 g +
      g_inner_other g + g_by_status g ! status_num DEC_TRUNC_IPV6_EXT + g_by_status g ! status_num DEC_BAD_IPV6_EXT"
proof -
  obtain s where s: "stats_run stats_init ps = Some s" "stats_counts ps s"
    using stats_run_from [OF stats_init_counts, of ps] by auto
  have info: "decoded_gtpu (fst p) = pi_is_gtpu (fst p)"
    "decoded_gtpu (fst p) \<Longrightarrow> ext_broken (pi_gtp_status (fst p)) \<Longrightarrow> v1u (fst p) \<and> pi_has_inner (fst p)"
    if "p \<in> set ps" for p
    using frame_info_gtpu [OF bspec [OF assms that]] by blast+
  let ?l4 = "\<lambda>proto pi. user_l4 pi \<and> pi_inner_proto pi = proto"
  let ?ty = "\<lambda>ty pi. v1u pi \<and> pi_gtp_msg_type pi = ty"
  let ?st = "\<lambda>st pi. decoded_gtpu pi \<and> pi_gtp_status pi = st"
  have 1: "tally decoded_gtpu ps = sum_list (map (\<lambda>Q. tally Q ps)
      [?st DEC_OK, \<lambda>pi. decoded_gtpu pi \<and> decode_status_is_truncation (pi_gtp_status pi),
       \<lambda>pi. decoded_gtpu pi \<and> malformed (pi_gtp_status pi)])"
  proof (rule tally_sum)
    fix p :: pkt
    show "tick (decoded_gtpu (fst p)) = sum_list (map (\<lambda>Q. tick (Q (fst p)))
      [?st DEC_OK, \<lambda>pi. decoded_gtpu pi \<and> decode_status_is_truncation (pi_gtp_status pi),
       \<lambda>pi. decoded_gtpu pi \<and> malformed (pi_gtp_status pi)])"
      by (cases "pi_gtp_status (fst p)") (simp_all add: malformed_def)
  qed
  have 2: "tally decoded_gtpu ps = sum_list (map (\<lambda>Q. tally Q ps)
      [?ty GTPU_MSG_GPDU, ?ty GTPU_MSG_ECHO_REQUEST, ?ty GTPU_MSG_ECHO_RESPONSE, ?ty GTPU_MSG_ERROR_INDICATION,
       ?ty GTPU_MSG_END_MARKER, \<lambda>pi. v1u pi \<and> \<not> known_type (pi_gtp_msg_type pi),
       \<lambda>pi. decoded_gtpu pi \<and> \<not> pi_gtp_v1u pi \<and> pi_gtp_status pi = DEC_OK,
       \<lambda>pi. pi_is_gtpu pi \<and> \<not> pi_gtp_v1u pi \<and> pi_gtp_status pi \<noteq> DEC_OK])"
    by (rule tally_sum) (auto simp: info(1) v1u_def known_type_def tick_def)
  have 3: "tally (\<lambda>pi. v1u pi \<and> pi_has_inner pi) ps = sum_list (map (\<lambda>Q. tally Q ps)
      [\<lambda>pi. v1u pi \<and> pi_has_inner pi \<and> pi_inner_version pi = 4, \<lambda>pi. v1u pi \<and> pi_has_inner pi \<and> pi_inner_version pi \<noteq> 4])"
    by (rule tally_sum) (simp add: tick_def)
  have 4: "tally (\<lambda>pi. v1u pi \<and> pi_has_inner pi) ps = sum_list (map (\<lambda>Q. tally Q ps)
      [?l4 IPPROTO_NUM_TCP, ?l4 IPPROTO_NUM_UDP, ?l4 IPPROTO_NUM_ICMP, ?l4 IPPROTO_NUM_ICMPV6,
       \<lambda>pi. user_l4 pi \<and> \<not> known_l4 (pi_inner_proto pi), ?st DEC_TRUNC_IPV6_EXT, ?st DEC_BAD_IPV6_EXT])"
  proof (rule tally_sum)
    fix p assume "p \<in> set ps"
    from info(2) [OF this] show "tick (v1u (fst p) \<and> pi_has_inner (fst p)) = sum_list (map (\<lambda>Q. tick (Q (fst p)))
      [?l4 IPPROTO_NUM_TCP, ?l4 IPPROTO_NUM_UDP, ?l4 IPPROTO_NUM_ICMP, ?l4 IPPROTO_NUM_ICMPV6,
       \<lambda>pi. user_l4 pi \<and> \<not> known_l4 (pi_inner_proto pi), ?st DEC_TRUNC_IPV6_EXT, ?st DEC_BAD_IPV6_EXT])"
      by (cases "ext_broken (pi_gtp_status (fst p))")
        (auto simp: user_l4_def known_l4_def ext_broken_def v1u_def tick_def)
  qed
  have status: "g_by_status (s_gtpu s) ! status_num st = tally (?st st) ps" if "st \<noteq> DEC_STATUS_COUNT" for st
    using s(2) that by (simp add: stats_counts_def)
  show ?thesis
    using s(1) 1 2 3 4 s(2) [unfolded stats_counts_def gtpu_counters_def]
      status [of DEC_OK] status [of DEC_TRUNC_IPV6_EXT] status [of DEC_BAD_IPV6_EXT]
    by (intro exI [of _ s] exI [of _ "s_gtpu s"]) (simp add: add.assoc)
qed

text \<open>An echo request.\<close>

definition sample_echo :: packet_info where
  "sample_echo = packet_info0\<lparr>pi_has_l2 := True, pi_has_l3 := True, pi_has_l4 := True, pi_ip_version := 4, pi_ip_proto := 17,
     pi_src_port := 2152, pi_is_gtpu := True, pi_gtp_v1u := True, pi_gtp_msg_type := 1, pi_gtp_msg_ok := True\<rparr>"

lemma sample_echo_info: "frame_info False sample_echo"
  by (simp add: frame_info_def gtp_info_def gtp_header_problems_def decode_is_gtpu_port_def sample_echo_def packet_info0_def)

theorem gtpu_balance_witness:
  "\<exists>s g. stats_run stats_init [(sample_echo, 60, 60, 5)] = Some s \<and> g = s_gtpu s \<and> g_packets g = 1 \<and> g_echo_request g = 1 \<and>
    g_packets g = g_by_status g ! status_num DEC_OK + g_truncated g + g_malformed g"
proof -
  obtain s where s: "stats_run stats_init [(sample_echo, 60, 60, 5)] = Some s" "stats_counts [(sample_echo, 60, 60, 5)] s"
    using stats_run_from [OF stats_init_counts, of "[(sample_echo, 60, 60, 5)]"] by auto
  have "g_packets (s_gtpu s) = 1 \<and> g_echo_request (s_gtpu s) = 1"
    using s(2) by (simp add: stats_counts_def gtpu_counters_def tally_def v1u_def decoded_gtpu_def sample_echo_def packet_info0_def)
  with s(1) show ?thesis using gtpu_balance [of "[(sample_echo, 60, 60, 5)]"] sample_echo_info by auto
qed

end
