(* ===== verification/Reader.thy ===== *)
theory Reader
  imports Bytes
begin

text \<open>
  \<open>pcap_reader.h\<close> and \<open>pcap_reader.c\<close>: the reader of classic capture files, from a
  stream or from memory, translated function by function. What it uses of the C library is
  modelled on the state of a stream: the bytes it will still deliver, whether reading past
  them fails, and its error indicator. The block that \<open>malloc\<close> returns is an argument,
  \<open>None\<close> when it fails, otherwise with whatever bytes it holds. A read or a store outside
  a buffer, or through a null pointer, has no value.

  A pointer to packet bytes is represented by the bytes it points to at that moment; for a
  stream they live in the record buffer and are overwritten by the next call.
\<close>

section \<open>Constants and data\<close>

abbreviation (input) PCAP_GLOBAL_HDR_LEN :: size_t where "PCAP_GLOBAL_HDR_LEN \<equiv> 24"
abbreviation (input) PCAP_RECORD_HDR_LEN :: size_t where "PCAP_RECORD_HDR_LEN \<equiv> 16"
abbreviation (input) PCAP_MAX_CAPLEN :: u32 where "PCAP_MAX_CAPLEN \<equiv> 262144"
abbreviation (input) PCAP_LINKTYPE_ETHERNET :: u32 where "PCAP_LINKTYPE_ETHERNET \<equiv> 1"
abbreviation (input) MAGIC_USEC :: u32 where "MAGIC_USEC \<equiv> 0xA1B2C3D4"
abbreviation (input) MAGIC_NSEC :: u32 where "MAGIC_NSEC \<equiv> 0xA1B23C4D"
abbreviation (input) MAGIC_USEC_SWAPPED :: u32 where "MAGIC_USEC_SWAPPED \<equiv> 0xD4C3B2A1"
abbreviation (input) MAGIC_NSEC_SWAPPED :: u32 where "MAGIC_NSEC_SWAPPED \<equiv> 0x4D3CB2A1"
abbreviation (input) MAGIC_PCAPNG :: u32 where "MAGIC_PCAPNG \<equiv> 0x0A0D0D0A"
abbreviation (input) LINKTYPE_MASK :: u32 where "LINKTYPE_MASK \<equiv> 0x03FFFFFF"

datatype pcap_status =
    PCAP_OK
  | PCAP_EOF
  | PCAP_ERR_OPEN
  | PCAP_ERR_IO
  | PCAP_ERR_NOMEM
  | PCAP_ERR_SHORT_HEADER
  | PCAP_ERR_BAD_MAGIC
  | PCAP_ERR_PCAPNG
  | PCAP_ERR_BAD_VERSION
  | PCAP_ERR_BAD_LINKTYPE
  | PCAP_ERR_TRUNC_RECORD_HDR
  | PCAP_ERR_TRUNC_RECORD
  | PCAP_ERR_BAD_CAPLEN

record pcap_file_info =
  i_big_endian :: bool
  i_nsec :: bool
  i_version_major :: u16
  i_version_minor :: u16
  i_snaplen :: u32
  i_linktype :: u32

record pcap_record =
  rec_ts_ns :: u64
  rec_caplen :: u32
  rec_wirelen :: u32
  rec_data :: "u8 list option"

text \<open>An open stream: the bytes it delivers, whether a read past them fails (and the
  \<open>errno\<close> of that failure) or meets the end of the file, and the error indicator.\<close>

record stdio_file =
  fp_rest :: "u8 list"
  fp_fault :: bool
  fp_errno :: int
  fp_error :: bool

record pcap_reader =
  r_fp :: "stdio_file option"
  r_mem :: "u8 list"
  r_mem_len :: size_t
  r_mem_pos :: size_t
  r_buf :: "u8 list option"
  r_info :: pcap_file_info
  r_records :: u64
  r_error :: pcap_status
  r_sys_errno :: int

section \<open>Headers\<close>

definition rd32 :: "u8 list \<Rightarrow> nat \<Rightarrow> bool \<Rightarrow> u32 option" where
  "rd32 b p big_endian = (if big_endian then load_be32 b p else load_le32 b p)"

definition rd16 :: "u8 list \<Rightarrow> nat \<Rightarrow> bool \<Rightarrow> u16 option" where
  "rd16 b p big_endian = (if big_endian then load_be16 b p else load_le16 b p)"

text \<open>\<open>memset(info, 0, sizeof *info)\<close>.\<close>

definition file_info0 :: pcap_file_info where
  "file_info0 = \<lparr>i_big_endian = False, i_nsec = False, i_version_major = 0, i_version_minor = 0,
     i_snaplen = 0, i_linktype = 0\<rparr>"

text \<open>The switch on the magic number: an error, or the byte order and the time resolution.\<close>

definition magic_kind :: "u32 \<Rightarrow> pcap_status + bool \<times> bool" where
  "magic_kind magic =
     (if magic = MAGIC_USEC then Inr (False, False)
      else if magic = MAGIC_NSEC then Inr (False, True)
      else if magic = MAGIC_USEC_SWAPPED then Inr (True, False)
      else if magic = MAGIC_NSEC_SWAPPED then Inr (True, True)
      else if magic = MAGIC_PCAPNG then Inl PCAP_ERR_PCAPNG
      else Inl PCAP_ERR_BAD_MAGIC)"

definition pcap_parse_global_header :: "u8 list \<Rightarrow> size_t \<Rightarrow> (pcap_status \<times> pcap_file_info) option" where
  "pcap_parse_global_header hdr len =
     (if len < 4 then Some (PCAP_ERR_SHORT_HEADER, file_info0)
      else do {
        magic \<leftarrow> load_le32 hdr 0;
        case magic_kind magic of
          Inl st \<Rightarrow> Some (st, file_info0)
        | Inr (be, nsec) \<Rightarrow>
            let info = file_info0\<lparr>i_big_endian := be, i_nsec := nsec\<rparr> in
            if len < PCAP_GLOBAL_HDR_LEN then Some (PCAP_ERR_SHORT_HEADER, info)
            else do {
              version_major \<leftarrow> rd16 hdr 4 be;
              version_minor \<leftarrow> rd16 hdr 6 be;
              snaplen \<leftarrow> rd32 hdr 16 be;
              linktype \<leftarrow> rd32 hdr 20 be;
              let info = info\<lparr>i_version_major := version_major, i_version_minor := version_minor,
                              i_snaplen := snaplen, i_linktype := linktype AND LINKTYPE_MASK\<rparr>;
              Some (if i_version_major info \<noteq> 2 \<or> i_version_minor info \<noteq> 4 then PCAP_ERR_BAD_VERSION
                    else if i_linktype info \<noteq> PCAP_LINKTYPE_ETHERNET then PCAP_ERR_BAD_LINKTYPE
                    else PCAP_OK, info) }})"

definition pcap_parse_record_header ::
    "pcap_file_info \<Rightarrow> u8 list \<Rightarrow> pcap_record \<Rightarrow> (pcap_status \<times> pcap_record) option" where
  "pcap_parse_record_header info hdr rec = do {
     let be = i_big_endian info;
     sec \<leftarrow> rd32 hdr 0 be;
     frac \<leftarrow> rd32 hdr 4 be;
     caplen \<leftarrow> rd32 hdr 8 be;
     wirelen \<leftarrow> rd32 hdr 12 be;
     let rec = rec\<lparr>rec_caplen := caplen, rec_wirelen := wirelen, rec_data := None\<rparr>;
     if rec_caplen rec > PCAP_MAX_CAPLEN then Some (PCAP_ERR_BAD_CAPLEN, rec)
     else
       let rec = (if rec_wirelen rec < rec_caplen rec then rec\<lparr>rec_wirelen := rec_caplen rec\<rparr> else rec);
           frac_ns = (if i_nsec info then ucast frac else ucast frac * 1000 :: u64)
       in Some (PCAP_OK, rec\<lparr>rec_ts_ns := ucast sec * 1000000000 + frac_ns\<rparr>) }"

section \<open>Input\<close>

definition reader_reset :: pcap_reader where
  "reader_reset = \<lparr>r_fp = None, r_mem = [], r_mem_len = 0, r_mem_pos = 0, r_buf = None,
     r_info = file_info0, r_records = 0, r_error = PCAP_OK, r_sys_errno = 0\<rparr>"

text \<open>\<open>fread(buf, 1, n, fp)\<close>: the bytes delivered, fewer than \<open>n\<close> only at the end of the
  file or when reading fails, which sets the error indicator.\<close>

definition fread :: "size_t \<Rightarrow> stdio_file \<Rightarrow> u8 list \<times> stdio_file" where
  "fread n fp =
     (if unat n \<le> length (fp_rest fp)
      then (take (unat n) (fp_rest fp), fp\<lparr>fp_rest := drop (unat n) (fp_rest fp)\<rparr>)
      else (fp_rest fp, fp\<lparr>fp_rest := [], fp_error := fp_error fp \<or> fp_fault fp\<rparr>))"

text \<open>\<open>take\<close>: the next \<open>n\<close> bytes (or \<open>None\<close> for \<open>NULL\<close>), and \<open>*got\<close>. The buffer
  given to \<open>fread\<close> must have room for \<open>n\<close> bytes.\<close>

definition take_input :: "pcap_reader \<Rightarrow> size_t \<Rightarrow> (u8 list option \<times> size_t \<times> pcap_reader) option" where
  "take_input r n =
     (case r_fp r of
        Some fp \<Rightarrow> do {
          buf \<leftarrow> r_buf r;
          if length buf < unat n then None
          else
            let (bytes, fp') = fread n fp;
                got = of_nat (length bytes);
                buf' = set_prefix buf bytes
            in Some (if got = n then Some (take (unat n) buf') else None, got,
                     r\<lparr>r_fp := Some fp', r_buf := Some buf'\<rparr>) }
      | None \<Rightarrow>
          let left = r_mem_len r - r_mem_pos r in
          if n > left then Some (None, left, r\<lparr>r_mem_pos := r_mem_len r\<rparr>)
          else do {
            p \<leftarrow> rdn (r_mem r) (unat (r_mem_pos r)) (unat n);
            Some (Some p, n, r\<lparr>r_mem_pos := r_mem_pos r + n\<rparr>) })"

definition short_read_status :: "pcap_reader \<Rightarrow> pcap_status \<Rightarrow> pcap_status \<times> pcap_reader" where
  "short_read_status r at_eof =
     (case r_fp r of
        Some fp \<Rightarrow> if fp_error fp then (PCAP_ERR_IO, r\<lparr>r_sys_errno := fp_errno fp\<rparr>) else (at_eof, r)
      | None \<Rightarrow> (at_eof, r))"

definition read_global_header :: "pcap_reader \<Rightarrow> (pcap_status \<times> pcap_reader) option" where
  "read_global_header r = do {
     (p, got, r) \<leftarrow> take_input r PCAP_GLOBAL_HDR_LEN;
     case p of
       None \<Rightarrow>
         (case short_read_status r PCAP_ERR_SHORT_HEADER of (st, r) \<Rightarrow>
            if st = PCAP_ERR_SHORT_HEADER \<and> got \<ge> 4
            then do {
              partial \<leftarrow> (if r_fp r \<noteq> None then r_buf r else Some (r_mem r));
              (st, tmp) \<leftarrow> pcap_parse_global_header partial got;
              Some (st, r) }
            else Some (st, r))
     | Some hdr \<Rightarrow> do {
         (st, info) \<leftarrow> pcap_parse_global_header hdr PCAP_GLOBAL_HDR_LEN;
         Some (st, r\<lparr>r_info := info\<rparr>) }}"

section \<open>Opening and closing\<close>

text \<open>The stream that is closed, if any, and the reader afterwards.\<close>

definition pcap_close :: "pcap_reader \<Rightarrow> stdio_file option \<times> pcap_reader" where
  "pcap_close r = (r_fp r, reader_reset)"

text \<open>The status, the reader, and the stream that was closed on failure.\<close>

definition open_stream ::
    "u8 list option \<Rightarrow> pcap_reader \<Rightarrow> stdio_file \<Rightarrow> (pcap_status \<times> pcap_reader \<times> stdio_file option) option" where
  "open_stream malloc r fp = do {
     let r = r\<lparr>r_fp := Some fp, r_buf := malloc\<rparr>;
     (st, r) \<leftarrow> (if r_buf r = None then Some (PCAP_ERR_NOMEM, r) else read_global_header r);
     if st \<noteq> PCAP_OK
     then let saved_errno = r_sys_errno r; (closed, r) = pcap_close r
          in Some (st, r\<lparr>r_sys_errno := saved_errno, r_error := st\<rparr>, closed)
     else Some (st, r, None) }"

text \<open>\<open>fopen\<close> gives an \<open>errno\<close> or a stream.\<close>

definition pcap_open_file ::
    "u8 list option \<Rightarrow> int + stdio_file \<Rightarrow> (pcap_status \<times> pcap_reader \<times> stdio_file option) option" where
  "pcap_open_file malloc fopen =
     (case fopen of
        Inl err \<Rightarrow> Some (PCAP_ERR_OPEN, reader_reset\<lparr>r_sys_errno := err, r_error := PCAP_ERR_OPEN\<rparr>, None)
      | Inr fp \<Rightarrow> open_stream malloc reader_reset fp)"

definition pcap_open_stream ::
    "u8 list option \<Rightarrow> stdio_file option \<Rightarrow> (pcap_status \<times> pcap_reader \<times> stdio_file option) option" where
  "pcap_open_stream malloc fpo =
     (case fpo of
        None \<Rightarrow> Some (PCAP_ERR_OPEN, reader_reset\<lparr>r_error := PCAP_ERR_OPEN\<rparr>, None)
      | Some fp \<Rightarrow> open_stream malloc reader_reset fp)"

definition pcap_open_mem :: "u8 list \<Rightarrow> size_t \<Rightarrow> (pcap_status \<times> pcap_reader) option" where
  "pcap_open_mem data len = do {
     (st, r) \<leftarrow> read_global_header (reader_reset\<lparr>r_mem := data, r_mem_len := len\<rparr>);
     Some (st, if st \<noteq> PCAP_OK then r\<lparr>r_error := st\<rparr> else r) }"

section \<open>Records\<close>

definition pcap_next :: "pcap_reader \<Rightarrow> pcap_record \<Rightarrow> (pcap_status \<times> pcap_reader \<times> pcap_record) option" where
  "pcap_next r rec =
     (if r_error r \<noteq> PCAP_OK then Some (r_error r, r, rec)
      else do {
        (p, got, r) \<leftarrow> take_input r PCAP_RECORD_HDR_LEN;
        case p of
          None \<Rightarrow>
            (case short_read_status r (if got = 0 then PCAP_EOF else PCAP_ERR_TRUNC_RECORD_HDR) of
               (st, r) \<Rightarrow> Some (st, r\<lparr>r_error := st\<rparr>, rec))
        | Some hdr \<Rightarrow> do {
            (st, rec) \<leftarrow> pcap_parse_record_header (r_info r) hdr rec;
            if st \<noteq> PCAP_OK then Some (st, r\<lparr>r_error := st\<rparr>, rec)
            else do {
              (p, got, r) \<leftarrow> take_input r (ucast (rec_caplen rec));
              case p of
                None \<Rightarrow>
                  (case short_read_status r PCAP_ERR_TRUNC_RECORD of
                     (st, r) \<Rightarrow> Some (st, r\<lparr>r_error := st\<rparr>, rec))
              | Some data \<Rightarrow>
                  Some (PCAP_OK, r\<lparr>r_records := r_records r + 1\<rparr>, rec\<lparr>rec_data := Some data\<rparr>) }}})"

primrec pcap_status_str :: "pcap_status \<Rightarrow> string" where
  "pcap_status_str PCAP_OK = ''ok''"
| "pcap_status_str PCAP_EOF = ''end of file''"
| "pcap_status_str PCAP_ERR_OPEN = ''cannot open file''"
| "pcap_status_str PCAP_ERR_IO = ''read error''"
| "pcap_status_str PCAP_ERR_NOMEM = ''out of memory''"
| "pcap_status_str PCAP_ERR_SHORT_HEADER = ''file too short for a pcap global header''"
| "pcap_status_str PCAP_ERR_BAD_MAGIC = ''not a pcap file (unknown magic number)''"
| "pcap_status_str PCAP_ERR_PCAPNG =
    ''pcapng files are not supported (convert with: editcap -F pcap in.pcapng out.pcap)''"
| "pcap_status_str PCAP_ERR_BAD_VERSION = ''unsupported pcap version (expected 2.4)''"
| "pcap_status_str PCAP_ERR_BAD_LINKTYPE = ''unsupported link type (only Ethernet, linktype 1, is supported)''"
| "pcap_status_str PCAP_ERR_TRUNC_RECORD_HDR = ''truncated file: record header cut short''"
| "pcap_status_str PCAP_ERR_TRUNC_RECORD = ''truncated file: packet data cut short''"
| "pcap_status_str PCAP_ERR_BAD_CAPLEN = ''corrupt record: captured length exceeds 262144 bytes''"

end
