(* ===== verification/Reader_Spec.thy ===== *)
theory Reader_Spec
  imports Reader
begin

text \<open>
  What a capture file means, independently of how it is read: \<open>next_record\<close> splits the
  first record off a list of bytes or says why there is none, and \<open>capture_records\<close> is the
  list of all records with the reason the list ends. \<open>pcap_input\<close> is the interface of the
  two kinds of input: what \<open>take\<close> and \<open>short_read_status\<close> do, in terms of the bytes
  that are left. From it follows that \<open>pcap_next\<close> implements \<open>next_record\<close>; memory and
  streams interpret it.
\<close>

section \<open>The meaning of a capture\<close>

definition word32 :: "bool \<Rightarrow> u8 list \<Rightarrow> nat \<Rightarrow> u32" where
  "word32 be b i = (if be then be32 (b ! i) (b ! (i + 1)) (b ! (i + 2)) (b ! (i + 3))
                    else be32 (b ! (i + 3)) (b ! (i + 2)) (b ! (i + 1)) (b ! i))"

text \<open>Capture time in nanoseconds, computed without bounds.\<close>

definition time_ns :: "bool \<Rightarrow> u32 \<Rightarrow> u32 \<Rightarrow> nat" where
  "time_ns nsec sec frac = unat sec * 1000000000 + unat frac * (if nsec then 1 else 1000)"

definition next_record :: "pcap_file_info \<Rightarrow> u8 list \<Rightarrow> pcap_status + pcap_record \<times> u8 list" where
  "next_record info bs =
     (let be = i_big_endian info; caplen = word32 be bs 8; n = 16 + unat caplen in
      if bs = [] then Inl PCAP_EOF
      else if length bs < 16 then Inl PCAP_ERR_TRUNC_RECORD_HDR
      else if unat caplen > 262144 then Inl PCAP_ERR_BAD_CAPLEN
      else if length bs < n then Inl PCAP_ERR_TRUNC_RECORD
      else Inr (\<lparr>rec_ts_ns = of_nat (time_ns (i_nsec info) (word32 be bs 0) (word32 be bs 4)),
                 rec_caplen = caplen, rec_wirelen = max caplen (word32 be bs 12),
                 rec_data = Some (take (unat caplen) (drop 16 bs))\<rparr>, drop n bs))"

lemma next_record_shrinks: "next_record info bs = Inr (rec, bs') \<Longrightarrow> length bs' + 16 \<le> length bs"
  by (auto simp: next_record_def Let_def split: if_splits)

lemma next_record_bounds:
  "next_record info bs = Inr (x, bs') \<Longrightarrow> unat (rec_caplen x) \<le> 262144 \<and> rec_caplen x \<le> rec_wirelen x \<and>
    (\<exists>data. rec_data x = Some data \<and> length data = unat (rec_caplen x))"
  by (auto simp: next_record_def Let_def split: if_splits)

function capture_records :: "pcap_file_info \<Rightarrow> u8 list \<Rightarrow> pcap_record list \<times> pcap_status" where
  "capture_records info bs =
     (case next_record info bs of
        Inl st \<Rightarrow> ([], st)
      | Inr (rec, bs') \<Rightarrow> (case capture_records info bs' of (recs, st) \<Rightarrow> (rec # recs, st)))"
  by pat_completeness auto
termination
proof (relation "measure (\<lambda>(info, bs). length bs)", goal_cases)
  case (2 info bs p rec bs')
  then show ?case using next_record_shrinks [of info bs rec bs'] by auto
qed simp

declare capture_records.simps [simp del]

lemma capture_records_Inl: "next_record info bs = Inl st \<Longrightarrow> capture_records info bs = ([], st)"
  by (simp add: capture_records.simps)

lemma capture_records_Inr:
  "next_record info bs = Inr (rec, bs') \<Longrightarrow>
   capture_records info bs = (case capture_records info bs' of (recs, st) \<Rightarrow> (rec # recs, st))"
  by (subst capture_records.simps) simp

text \<open>The times fit in 64 bits, as the comment in the code computes.\<close>

lemma time_ns_bound: "time_ns nsec sec frac < 2 ^ 63"
  using unat_u32 [of sec] unat_u32 [of frac] by (simp add: time_ns_def)

lemma ts_ns_exact:
  "ucast sec * 1000000000 + (if nsec then ucast frac else ucast frac * 1000) = (of_nat (time_ns nsec sec frac) :: u64)"
  by (simp add: time_ns_def)

section \<open>The record header\<close>

lemma rd32_in: "p + 3 < length b \<Longrightarrow> rd32 b p be = Some (word32 be b p)"
  by (simp add: rd32_def word32_def safe_intro)

lemma word32_take: "i + 3 < n \<Longrightarrow> word32 be (take n b) i = word32 be b i"
  by (simp add: word32_def)

text \<open>The record without its bytes, as the header gives it, and the rest of \<open>pcap_next\<close>
  after a good header.\<close>

definition header :: "pcap_file_info \<Rightarrow> u8 list \<Rightarrow> pcap_record" where
  "header info bs = (let be = i_big_endian info in
     \<lparr>rec_ts_ns = of_nat (time_ns (i_nsec info) (word32 be bs 0) (word32 be bs 4)), rec_caplen = word32 be bs 8,
      rec_wirelen = max (word32 be bs 8) (word32 be bs 12), rec_data = None\<rparr>)"

definition next_data :: "pcap_record \<Rightarrow> pcap_reader \<Rightarrow> (pcap_status \<times> pcap_reader \<times> pcap_record) option" where
  "next_data h r = do {
     (p, got, r) \<leftarrow> take_input r (ucast (rec_caplen h));
     case p of
       None \<Rightarrow> (case short_read_status r PCAP_ERR_TRUNC_RECORD of (st, r) \<Rightarrow> Some (st, r\<lparr>r_error := st\<rparr>, h))
     | Some data \<Rightarrow> Some (PCAP_OK, r\<lparr>r_records := r_records r + 1\<rparr>, h\<lparr>rec_data := Some data\<rparr>) }"

lemma header_caplen: "rec_caplen (header info bs) = word32 (i_big_endian info) bs 8"
  by (simp add: header_def Let_def)

lemma next_record_header:
  "next_record info bs =
     (if bs = [] then Inl PCAP_EOF
      else if length bs < 16 then Inl PCAP_ERR_TRUNC_RECORD_HDR
      else let h = header info bs in
        if unat (rec_caplen h) > 262144 then Inl PCAP_ERR_BAD_CAPLEN
        else if length (drop 16 bs) < unat (rec_caplen h) then Inl PCAP_ERR_TRUNC_RECORD
        else Inr (h\<lparr>rec_data := Some (take (unat (rec_caplen h)) (drop 16 bs))\<rparr>, drop (unat (rec_caplen h)) (drop 16 bs)))"
  by (auto simp: next_record_def header_def Let_def add.commute)

lemma record_all_fields:
  "rec\<lparr>rec_ts_ns := t, rec_caplen := c, rec_wirelen := w, rec_data := d\<rparr> =
     \<lparr>rec_ts_ns = t, rec_caplen = c, rec_wirelen = w, rec_data = d\<rparr>" for rec :: pcap_record
  by simp

lemma parse_record_header_take:
  assumes "16 \<le> length bs"
  shows "pcap_parse_record_header info (take 16 bs) rec =
    (if unat (rec_caplen (header info bs)) > 262144
     then Some (PCAP_ERR_BAD_CAPLEN, rec\<lparr>rec_caplen := word32 (i_big_endian info) bs 8,
       rec_wirelen := word32 (i_big_endian info) bs 12, rec_data := None\<rparr>)
     else Some (PCAP_OK, header info bs))"
  using assms
  by (simp add: pcap_parse_record_header_def rd32_in word32_take ts_ns_exact [symmetric] word_less_nat_alt
      header_def Let_def max_def not_less word_le_nat_alt del: of_nat_add)

section \<open>The global header\<close>

definition word16 :: "bool \<Rightarrow> u8 list \<Rightarrow> nat \<Rightarrow> u16" where
  "word16 be b i = (if be then be16 (b ! i) (b ! (i + 1)) else be16 (b ! (i + 1)) (b ! i))"

text \<open>What the first bytes of a capture say, however few there are.\<close>

definition global_header :: "u8 list \<Rightarrow> pcap_status \<times> pcap_file_info" where
  "global_header bs =
     (if length bs < 4 then (PCAP_ERR_SHORT_HEADER, file_info0)
      else case magic_kind (word32 False bs 0) of
        Inl st \<Rightarrow> (st, file_info0)
      | Inr (be, nsec) \<Rightarrow>
          let info = file_info0\<lparr>i_big_endian := be, i_nsec := nsec\<rparr> in
          if length bs < 24 then (PCAP_ERR_SHORT_HEADER, info)
          else (if (word16 be bs 4, word16 be bs 6) \<noteq> (2, 4) then PCAP_ERR_BAD_VERSION
                else if word32 be bs 20 AND LINKTYPE_MASK \<noteq> PCAP_LINKTYPE_ETHERNET then PCAP_ERR_BAD_LINKTYPE
                else PCAP_OK,
                info\<lparr>i_version_major := word16 be bs 4, i_version_minor := word16 be bs 6,
                     i_snaplen := word32 be bs 16, i_linktype := word32 be bs 20 AND LINKTYPE_MASK\<rparr>))"

lemma word16_take: "i + 1 < n \<Longrightarrow> word16 be (take n b) i = word16 be b i"
  by (simp add: word16_def)

lemma rd16_in: "p + 1 < length b \<Longrightarrow> rd16 b p be = Some (word16 be b p)"
  by (simp add: rd16_def word16_def safe_intro)

lemma load_le32_word32: "p + 3 < length b \<Longrightarrow> load_le32 b p = Some (word32 False b p)"
  by (simp add: word32_def safe_intro)

lemma global_header_take: "24 \<le> n \<Longrightarrow> global_header (take n bs) = global_header bs"
proof -
  assume n: "24 \<le> n"
  then have "length (take n bs) < 4 \<longleftrightarrow> length bs < 4" "length (take n bs) < 24 \<longleftrightarrow> length bs < 24" by auto
  with n show ?thesis by (auto simp: global_header_def word32_take word16_take Let_def simp del: length_take split: sum.split)
qed

lemma parse_global_header_ok:
  assumes "unat len \<le> length b" "len \<le> 24"
  shows "pcap_parse_global_header b len = Some (global_header (take (unat len) b))"
proof -
  have len: "len < 4 \<longleftrightarrow> unat len < 4" "len < 24 \<longleftrightarrow> unat len < 24" by (simp_all add: word_less_nat_alt)
  show ?thesis
  proof (cases "unat len < 4")
    case True
    then show ?thesis using assms by (simp add: pcap_parse_global_header_def global_header_def len)
  next
    case False
    then have w: "word32 False (take (unat len) b) 0 = word32 False b 0" by (simp add: word32_def)
    show ?thesis
    proof (cases "unat len < 24")
      case True
      then show ?thesis using assms False
        by (simp add: pcap_parse_global_header_def global_header_def len load_le32_word32 w split: sum.split)
    next
      case long: False
      then have "unat len = 24" using assms(2) by (simp add: word_le_nat_alt)
      then show ?thesis using assms False
        by (auto simp: pcap_parse_global_header_def global_header_def len load_le32_word32 w rd16_in rd32_in Let_def
            word32_def word16_def split: sum.split)
    qed
  qed
qed

lemma unat_numeral_16: "unat (16 :: size_t) = 16"
  by simp

section \<open>Sequences of calls\<close>

primrec read_calls :: "nat \<Rightarrow> pcap_reader \<Rightarrow> pcap_record \<Rightarrow> (pcap_status \<times> pcap_record option) list option" where
  "read_calls 0 r rec = Some []"
| "read_calls (Suc n) r rec = do {
     (st, r', rec') \<leftarrow> pcap_next r rec;
     xs \<leftarrow> read_calls n r' rec';
     Some ((st, if st = PCAP_OK then Some rec' else None) # xs) }"

lemma pcap_next_stuck: "r_error r \<noteq> PCAP_OK \<Longrightarrow> pcap_next r rec = Some (r_error r, r, rec)"
  by (simp add: pcap_next_def)

lemma read_calls_stuck:
  "r_error r \<noteq> PCAP_OK \<Longrightarrow> read_calls n r rec = Some (replicate n (r_error r, None))"
  by (induction n) (simp_all add: pcap_next_stuck)

lemma next_record_Inl: "next_record info bs = Inl st \<Longrightarrow> st \<noteq> PCAP_OK"
  by (auto simp: next_record_def Let_def split: if_splits)

section \<open>Inputs\<close>

definition meta :: "pcap_reader \<Rightarrow> pcap_file_info \<times> u64 \<times> pcap_status" where
  "meta r = (r_info r, r_records r, r_error r)"

text \<open>
  \<open>ok\<close> is the invariant of an input, \<open>rest\<close> the bytes that are left and \<open>fault\<close> whether
  reading past them is an error of the operating system. The record keeping of the reader
  is no part of its input.
\<close>

locale pcap_input =
  fixes ok :: "pcap_reader \<Rightarrow> bool" and rest :: "pcap_reader \<Rightarrow> u8 list" and fault :: "pcap_reader \<Rightarrow> bool"
  assumes take_law: "ok r \<Longrightarrow> unat n \<le> 262144 \<Longrightarrow> \<exists>r'. take_input r n =
      Some (if unat n \<le> length (rest r) then Some (take (unat n) (rest r)) else None,
            of_nat (min (unat n) (length (rest r))), r') \<and>
      ok r' \<and> rest r' = drop (unat n) (rest r) \<and> fault r' = fault r \<and> meta r' = meta r \<and>
      (length (rest r) < unat n \<longrightarrow> (\<forall>st. \<exists>r''. short_read_status r' st = (if fault r then PCAP_ERR_IO else st, r'') \<and>
         ok r'' \<and> rest r'' = rest r' \<and> fault r'' = fault r' \<and> meta r'' = meta r'))"
    and books: "ok (r\<lparr>r_error := e, r_records := k, r_info := i\<rparr>) = ok r"
      "rest (r\<lparr>r_error := e, r_records := k, r_info := i\<rparr>) = rest r"
      "fault (r\<lparr>r_error := e, r_records := k, r_info := i\<rparr>) = fault r"
begin

lemma error_books [simp]:
  "ok (r\<lparr>r_error := e\<rparr>) = ok r" "rest (r\<lparr>r_error := e\<rparr>) = rest r" "fault (r\<lparr>r_error := e\<rparr>) = fault r"
  using books [where r = r and e = e and k = "r_records r" and i = "r_info r"] by simp_all

lemma records_books [simp]:
  "ok (r\<lparr>r_records := k\<rparr>) = ok r" "rest (r\<lparr>r_records := k\<rparr>) = rest r" "fault (r\<lparr>r_records := k\<rparr>) = fault r"
  using books [where r = r and e = "r_error r" and k = k and i = "r_info r"] by simp_all

lemma info_books [simp]:
  "ok (r\<lparr>r_info := i\<rparr>) = ok r" "rest (r\<lparr>r_info := i\<rparr>) = rest r" "fault (r\<lparr>r_info := i\<rparr>) = fault r"
  using books [where r = r and e = "r_error r" and k = "r_records r" and i = i] by simp_all

text \<open>The two ways a \<open>take\<close> ends.\<close>

lemma take_all:
  assumes "ok r" "unat n \<le> 262144" "unat n \<le> length (rest r)"
  obtains r' where "take_input r n = Some (Some (take (unat n) (rest r)), n, r')" "ok r'"
    "rest r' = drop (unat n) (rest r)" "fault r' = fault r" "meta r' = meta r"
  using take_law [OF assms(1,2)] assms(3) by (auto simp: min_absorb1)

lemma take_short:
  assumes "ok r" "unat n \<le> 262144" "length (rest r) < unat n"
  obtains r' r'' where "take_input r n = Some (None, of_nat (length (rest r)), r')"
    "\<And>st. \<exists>r''. short_read_status r' st = (if fault r then PCAP_ERR_IO else st, r'') \<and> ok r'' \<and>
      rest r'' = [] \<and> fault r'' = fault r \<and> meta r'' = meta r"
  using take_law [OF assms(1,2)] assms(3) by (auto simp: min_absorb2 not_le)

text \<open>What a reader reports where the input ends: a failure to read hides the reason.\<close>

definition at_end :: "pcap_reader \<Rightarrow> pcap_status \<Rightarrow> pcap_status" where
  "at_end r st = (if fault r \<and> st \<in> {PCAP_EOF, PCAP_ERR_TRUNC_RECORD_HDR, PCAP_ERR_TRUNC_RECORD}
                  then PCAP_ERR_IO else st)"

lemma next_short:
  assumes r: "ok r" "r_error r = PCAP_OK" and short: "length (rest r) < 16"
  shows "\<exists>r' rec'. pcap_next r rec = Some (at_end r (if rest r = [] then PCAP_EOF else PCAP_ERR_TRUNC_RECORD_HDR), r', rec') \<and>
    ok r' \<and> meta r' = (r_info r, r_records r, at_end r (if rest r = [] then PCAP_EOF else PCAP_ERR_TRUNC_RECORD_HDR))"
proof -
  let ?st = "if rest r = [] then PCAP_EOF else PCAP_ERR_TRUNC_RECORD_HDR"
  have got: "(of_nat (length (rest r)) :: size_t) = 0 \<longleftrightarrow> rest r = []"
    using short by (simp add: size_t_of_nat_0)
  from r(1) short obtain r' where t: "take_input r 16 = Some (None, of_nat (length (rest r)), r')"
    and s: "\<And>st. \<exists>r''. short_read_status r' st = (if fault r then PCAP_ERR_IO else st, r'') \<and> ok r'' \<and>
      rest r'' = [] \<and> fault r'' = fault r \<and> meta r'' = meta r"
    by (elim take_short [where n = 16]) auto
  from s [of ?st] obtain r'' where "short_read_status r' ?st = (if fault r then PCAP_ERR_IO else ?st, r'')" "ok r''" "meta r'' = meta r"
    by blast
  then show ?thesis using t r(2) got by (auto simp: pcap_next_def at_end_def meta_def)
qed

lemma next_header:
  assumes "ok r" "r_error r = PCAP_OK" "16 \<le> length (rest r)"
  obtains r1 rec' where "ok r1" "rest r1 = drop 16 (rest r)" "fault r1 = fault r" "meta r1 = meta r"
    "pcap_next r rec =
       (if unat (rec_caplen (header (r_info r) (rest r))) > 262144
        then Some (PCAP_ERR_BAD_CAPLEN, r1\<lparr>r_error := PCAP_ERR_BAD_CAPLEN\<rparr>, rec')
        else next_data (header (r_info r) (rest r)) r1)"
proof -
  have "unat (16 :: size_t) \<le> 262144" "unat (16 :: size_t) \<le> length (rest r)" using assms(3) by simp_all
  from take_all [OF assms(1) this] obtain r1 where t: "take_input r 16 = Some (Some (take 16 (rest r)), 16, r1)" "ok r1"
    "rest r1 = drop 16 (rest r)" "fault r1 = fault r" "meta r1 = meta r"
    by (metis unat_numeral_16)
  then have "r_info r1 = r_info r" by (simp add: meta_def)
  with t assms(2) parse_record_header_take [OF assms(3), of "r_info r" rec]
  have "pcap_next r rec =
       (if unat (rec_caplen (header (r_info r) (rest r))) > 262144
        then Some (PCAP_ERR_BAD_CAPLEN, r1\<lparr>r_error := PCAP_ERR_BAD_CAPLEN\<rparr>,
          rec\<lparr>rec_caplen := word32 (i_big_endian (r_info r)) (rest r) 8,
            rec_wirelen := word32 (i_big_endian (r_info r)) (rest r) 12, rec_data := None\<rparr>)
        else next_data (header (r_info r) (rest r)) r1)"
    by (simp add: pcap_next_def next_data_def)
  with t that show ?thesis by blast
qed

lemma next_Inl:
  assumes r: "ok r" "r_error r = PCAP_OK" and none: "next_record (r_info r) (rest r) = Inl st"
  shows "\<exists>r' rec'. pcap_next r rec = Some (at_end r st, r', rec') \<and> ok r' \<and> meta r' = (r_info r, r_records r, at_end r st)"
proof (cases "length (rest r) < 16")
  case True
  then show ?thesis using next_short [OF r True, of rec] none
    by (auto simp: next_record_header split: if_splits)
next
  case False
  let ?h = "header (r_info r) (rest r)"
  from next_header [OF r, of rec] False obtain r1 rec' where r1: "ok r1" "rest r1 = drop 16 (rest r)" "fault r1 = fault r"
    "meta r1 = meta r" and run: "pcap_next r rec = (if unat (rec_caplen ?h) > 262144
        then Some (PCAP_ERR_BAD_CAPLEN, r1\<lparr>r_error := PCAP_ERR_BAD_CAPLEN\<rparr>, rec') else next_data ?h r1)"
    by (metis not_less)
  show ?thesis
  proof (cases "unat (rec_caplen ?h) > 262144")
    case True
    with none False have "st = PCAP_ERR_BAD_CAPLEN" by (auto simp: next_record_header Let_def split: if_splits)
    with True r(2) r1 run show ?thesis by (auto simp: at_end_def meta_def)
  next
    case small: False
    with none False have st: "st = PCAP_ERR_TRUNC_RECORD" and len: "length (rest r1) < unat (rec_caplen ?h)"
      using r1(2) by (auto simp: next_record_header Let_def split: if_splits)
    from r1(1) len small obtain r' where t: "take_input r1 (ucast (rec_caplen ?h)) = Some (None, of_nat (length (rest r1)), r')"
      and s: "\<And>st. \<exists>r''. short_read_status r' st = (if fault r1 then PCAP_ERR_IO else st, r'') \<and> ok r'' \<and>
        rest r'' = [] \<and> fault r'' = fault r1 \<and> meta r'' = meta r1"
      by (elim take_short [where n = "ucast (rec_caplen ?h)"]) auto
    from s [of PCAP_ERR_TRUNC_RECORD] obtain r'' where
      "short_read_status r' PCAP_ERR_TRUNC_RECORD = (if fault r1 then PCAP_ERR_IO else PCAP_ERR_TRUNC_RECORD, r'')"
      "ok r''" "meta r'' = meta r1" by blast
    then show ?thesis using r1 t run small by (auto simp: next_data_def at_end_def st meta_def)
  qed
qed

lemma next_Inr:
  assumes r: "ok r" "r_error r = PCAP_OK" and some: "next_record (r_info r) (rest r) = Inr (x, bs)"
  shows "\<exists>r'. pcap_next r rec = Some (PCAP_OK, r', x) \<and> ok r' \<and> rest r' = bs \<and> fault r' = fault r \<and>
    meta r' = (r_info r, r_records r + 1, PCAP_OK)"
proof -
  let ?h = "header (r_info r) (rest r)"
  from some have long: "16 \<le> length (rest r)" and small: "\<not> unat (rec_caplen ?h) > 262144"
    and data: "unat (rec_caplen ?h) \<le> length (drop 16 (rest r))"
    and x: "x = ?h\<lparr>rec_data := Some (take (unat (rec_caplen ?h)) (drop 16 (rest r)))\<rparr>"
    and bs: "bs = drop (unat (rec_caplen ?h)) (drop 16 (rest r))"
    by (auto simp: next_record_header Let_def not_less split: if_splits)
  from next_header [OF r long, of rec] obtain r1 rec' where r1: "ok r1" "rest r1 = drop 16 (rest r)" "fault r1 = fault r"
    "meta r1 = meta r" and run: "pcap_next r rec = (if unat (rec_caplen ?h) > 262144
        then Some (PCAP_ERR_BAD_CAPLEN, r1\<lparr>r_error := PCAP_ERR_BAD_CAPLEN\<rparr>, rec') else next_data ?h r1)" .
  have n: "unat (ucast (rec_caplen ?h) :: size_t) = unat (rec_caplen ?h)" by simp
  have "unat (rec_caplen ?h) \<le> 262144" "unat (rec_caplen ?h) \<le> length (rest r1)" using small data r1(2) by simp_all
  from take_all [of r1 "ucast (rec_caplen ?h)", unfolded n, OF r1(1) this]
  obtain r2 where "take_input r1 (ucast (rec_caplen ?h)) =
      Some (Some (take (unat (rec_caplen ?h)) (rest r1)), ucast (rec_caplen ?h), r2)" "ok r2"
    "rest r2 = drop (unat (rec_caplen ?h)) (rest r1)" "fault r2 = fault r1" "meta r2 = meta r1" .
  then show ?thesis using r1 run small r(2) x bs by (auto simp: next_data_def meta_def)
qed

lemma next_bounds:
  assumes "ok r"
  shows "\<exists>st r' rec'. pcap_next r rec = Some (st, r', rec') \<and> ok r' \<and>
    (st = PCAP_OK \<longrightarrow> unat (rec_caplen rec') \<le> 262144 \<and> rec_caplen rec' \<le> rec_wirelen rec' \<and>
      (\<exists>data. rec_data rec' = Some data \<and> length data = unat (rec_caplen rec')) \<and> r_records r' = r_records r + 1)"
proof (cases "r_error r = PCAP_OK")
  case True
  show ?thesis
  proof (cases "next_record (r_info r) (rest r)")
    case (Inl st)
    then have "at_end r st \<noteq> PCAP_OK" using next_record_Inl [OF Inl] by (auto simp: at_end_def)
    with next_Inl [OF assms True Inl, of rec] show ?thesis by blast
  next
    case (Inr p)
    then obtain x bs where p: "next_record (r_info r) (rest r) = Inr (x, bs)" by (cases p) auto
    with next_Inr [OF assms True p, of rec] next_record_bounds [OF p] show ?thesis by (auto simp: meta_def)
  qed
qed (use assms in \<open>simp add: pcap_next_stuck\<close>)

lemma at_end_not_ok [simp]: "at_end r st = PCAP_OK \<longleftrightarrow> st = PCAP_OK"
  by (auto simp: at_end_def)

text \<open>Any number of calls: the records of the capture in order, then the reason it ends,
  again and again.\<close>

lemma read_calls_ok:
  assumes "ok r" "r_error r = PCAP_OK"
  shows "read_calls n r rec = (case capture_records (r_info r) (rest r) of (recs, st) \<Rightarrow>
    Some (take n (map (\<lambda>x. (PCAP_OK, Some x)) recs @ replicate n (at_end r st, None))))"
  using assms
proof (induction n arbitrary: r rec)
  case (Suc n)
  note cr = capture_records.simps [of "r_info r" "rest r"]
  show ?case
  proof (cases "next_record (r_info r) (rest r)")
    case (Inl st)
    obtain r' rec' where run: "pcap_next r rec = Some (at_end r st, r', rec')" "r_error r' = at_end r st"
      using next_Inl [OF Suc.prems Inl, of rec] by (auto simp: meta_def)
    have "st \<noteq> PCAP_OK" using Inl by (rule next_record_Inl)
    with run read_calls_stuck [of r' n rec'] show ?thesis by (simp add: cr Inl)
  next
    case (Inr p)
    then obtain x bs where p: "next_record (r_info r) (rest r) = Inr (x, bs)" by (cases p) auto
    obtain r' where run: "pcap_next r rec = Some (PCAP_OK, r', x)" "ok r'" "rest r' = bs" "fault r' = fault r"
      "meta r' = (r_info r, r_records r + 1, PCAP_OK)"
      using next_Inr [OF Suc.prems p, of rec] by blast
    then have "r_error r' = PCAP_OK" "r_info r' = r_info r" by (simp_all add: meta_def)
    with Suc.IH [of r' x] run show ?thesis
      by (auto simp: cr p at_end_def replicate_append_same [symmetric] split: prod.split)
  qed
qed simp

end

text \<open>An input whose first bytes can still be seen when there are too few of them.\<close>

locale pcap_source = pcap_input +
  fixes fresh :: "pcap_reader \<Rightarrow> bool"
  assumes fresh_ok: "fresh r \<Longrightarrow> ok r"
    and partial_law: "fresh r \<Longrightarrow> length (rest r) < 24 \<Longrightarrow> take_input r 24 = Some (None, got, r') \<Longrightarrow>
      short_read_status r' PCAP_ERR_SHORT_HEADER = (st, r'') \<Longrightarrow>
      \<exists>b. (if r_fp r'' \<noteq> None then r_buf r'' else Some (r_mem r'')) = Some b \<and>
        length (rest r) \<le> length b \<and> take (length (rest r)) b = rest r"
begin

lemma read_global_header_ok:
  assumes "fresh r"
  shows "\<exists>r'. read_global_header r =
      Some (if fault r \<and> length (rest r) < 24 then PCAP_ERR_IO else fst (global_header (rest r)), r') \<and>
    ok r' \<and> rest r' = drop 24 (rest r) \<and> fault r' = fault r \<and> r_error r' = r_error r \<and> r_records r' = r_records r \<and>
    (24 \<le> length (rest r) \<longrightarrow> r_info r' = snd (global_header (rest r)))"
proof (cases "length (rest r) < 24")
  case True
  then have len: "length (rest r) < unat (24 :: size_t)" by simp
  obtain r1 where t: "take_input r 24 = Some (None, of_nat (length (rest r)), r1)"
    and s: "\<And>st. \<exists>r''. short_read_status r1 st = (if fault r then PCAP_ERR_IO else st, r'') \<and> ok r'' \<and>
      rest r'' = [] \<and> fault r'' = fault r \<and> meta r'' = meta r"
    by (rule take_short [OF fresh_ok [OF assms] _ len]) (simp, blast)
  from s [of PCAP_ERR_SHORT_HEADER] obtain r2 where
    r2: "short_read_status r1 PCAP_ERR_SHORT_HEADER = (if fault r then PCAP_ERR_IO else PCAP_ERR_SHORT_HEADER, r2)"
    "ok r2" "rest r2 = []" "fault r2 = fault r" "meta r2 = meta r" by blast
  from partial_law [OF assms True t r2(1)] obtain b where
    b: "(if r_fp r2 \<noteq> None then r_buf r2 else Some (r_mem r2)) = Some b" "length (rest r) \<le> length b"
      "take (length (rest r)) b = rest r" by blast
  have n: "unat (of_nat (length (rest r)) :: size_t) = length (rest r)"
    using True by (simp add: unsigned_of_nat take_bit_nat_eq_self)
  have "pcap_parse_global_header b (of_nat (length (rest r))) = Some (global_header (rest r))"
    using parse_global_header_ok [of "of_nat (length (rest r))" b] b(2,3) True n by (simp add: word_le_nat_alt)
  moreover have "(4 :: size_t) \<le> of_nat (length (rest r)) \<longleftrightarrow> \<not> length (rest r) < 4"
    using n by (simp add: word_le_nat_alt not_less)
  ultimately show ?thesis using t r2 b(1) True
    by (cases "global_header (rest r)") (auto simp: read_global_header_def meta_def global_header_def)
next
  case False
  then have len: "unat (24 :: size_t) \<le> length (rest r)" by simp
  obtain r1 where t: "take_input r 24 = Some (Some (take (unat (24 :: size_t)) (rest r)), 24, r1)" "ok r1"
    "rest r1 = drop (unat (24 :: size_t)) (rest r)" "fault r1 = fault r" "meta r1 = meta r"
    by (rule take_all [OF fresh_ok [OF assms] _ len]) (simp, blast)
  have "pcap_parse_global_header (take 24 (rest r)) 24 = Some (global_header (rest r))"
    using parse_global_header_ok [of 24 "take 24 (rest r)"] False by (simp add: global_header_take)
  then show ?thesis using t False
    by (cases "global_header (rest r)") (auto simp: read_global_header_def meta_def)
qed

end

end
