(* ===== verification/Reader_Props.thy ===== *)
theory Reader_Props
  imports Reader_Spec
begin

text \<open>
  Memory and streams as inputs of the reader (\<open>mem\<close> and \<open>stream\<close> interpret the interfaces
  of \<open>Reader_Spec\<close>), and the properties of the reader: it implements the meaning of a
  capture, from memory and from a stream alike; its errors are sticky; its buffer is never
  overrun; it reads back what a writer of the format has written, and a file cut short at
  any point yields the records before the cut.
\<close>

section \<open>Memory\<close>

definition mem_ok :: "pcap_reader \<Rightarrow> bool" where
  "mem_ok r \<longleftrightarrow> r_fp r = None \<and> unat (r_mem_len r) = length (r_mem r) \<and> r_mem_pos r \<le> r_mem_len r"

definition mem_rest :: "pcap_reader \<Rightarrow> u8 list" where
  "mem_rest r = drop (unat (r_mem_pos r)) (r_mem r)"

definition mem_fresh :: "pcap_reader \<Rightarrow> bool" where
  "mem_fresh r \<longleftrightarrow> mem_ok r \<and> r_mem_pos r = 0"

text \<open>Reading memory never fails.\<close>

definition mem_fault :: "pcap_reader \<Rightarrow> bool" where
  "mem_fault r = False"

lemma mem_take:
  assumes "mem_ok r"
  shows "take_input r n =
    (if unat n \<le> length (mem_rest r) then Some (Some (take (unat n) (mem_rest r)), n, r\<lparr>r_mem_pos := r_mem_pos r + n\<rparr>)
     else Some (None, of_nat (length (mem_rest r)), r\<lparr>r_mem_pos := r_mem_len r\<rparr>))"
proof -
  have left: "unat (r_mem_len r - r_mem_pos r) = length (mem_rest r)"
    using assms by (simp add: mem_ok_def mem_rest_def unat_minus)
  then have "r_mem_len r - r_mem_pos r = of_nat (length (mem_rest r))" by (simp flip: left)
  with left assms show ?thesis
    by (auto simp: take_input_def mem_ok_def mem_rest_def word_less_nat_alt rdn_def Let_def not_less)
qed

lemma mem_advance:
  assumes "mem_ok r" "unat n \<le> length (mem_rest r)"
  shows "mem_ok (r\<lparr>r_mem_pos := r_mem_pos r + n\<rparr>)" "mem_rest (r\<lparr>r_mem_pos := r_mem_pos r + n\<rparr>) = drop (unat n) (mem_rest r)"
proof -
  have "unat (r_mem_pos r) + unat n \<le> unat (r_mem_len r)"
    using assms by (auto simp: mem_ok_def mem_rest_def word_le_nat_alt)
  moreover from this have "unat (r_mem_pos r + n) = unat (r_mem_pos r) + unat n"
    using unsigned_less [of "r_mem_len r", where ?'a = nat] by (simp add: unat_word_ariths)
  ultimately show "mem_ok (r\<lparr>r_mem_pos := r_mem_pos r + n\<rparr>)"
    "mem_rest (r\<lparr>r_mem_pos := r_mem_pos r + n\<rparr>) = drop (unat n) (mem_rest r)"
    using assms(1) by (simp_all add: mem_ok_def mem_rest_def word_le_nat_alt add.commute)
qed

interpretation mem: pcap_source mem_ok mem_rest mem_fault mem_fresh
proof (unfold_locales, goal_cases)
  case (1 r n)
  show ?case
  proof (cases "unat n \<le> length (mem_rest r)")
    case True
    with mem_take [OF 1(1), of n] mem_advance [OF 1(1) True] show ?thesis
      by (intro exI [of _ "r\<lparr>r_mem_pos := r_mem_pos r + n\<rparr>"]) (simp add: meta_def mem_fault_def)
  next
    case False
    then show ?thesis using mem_take [OF 1(1), of n] 1(1)
      by (intro exI [of _ "r\<lparr>r_mem_pos := r_mem_len r\<rparr>"])
        (auto simp: meta_def mem_ok_def mem_rest_def mem_fault_def short_read_status_def)
  qed
next
  case (6 r got r' st r'')
  then show ?case using mem_take [of r 24]
    by (auto simp: mem_fresh_def mem_ok_def short_read_status_def mem_rest_def)
qed (auto simp: mem_ok_def mem_rest_def mem_fresh_def mem_fault_def)

section \<open>Streams\<close>

definition file_ok :: "pcap_reader \<Rightarrow> bool" where
  "file_ok r \<longleftrightarrow> r_fp r \<noteq> None \<and> (\<exists>buf. r_buf r = Some buf \<and> length buf = 262144)"

definition file_rest :: "pcap_reader \<Rightarrow> u8 list" where
  "file_rest r = (case r_fp r of None \<Rightarrow> [] | Some fp \<Rightarrow> fp_rest fp)"

text \<open>Reading past the end fails, or the error indicator has been set before.\<close>

definition file_fault :: "pcap_reader \<Rightarrow> bool" where
  "file_fault r = (case r_fp r of None \<Rightarrow> False | Some fp \<Rightarrow> fp_fault fp \<or> fp_error fp)"

text \<open>The two outcomes of \<open>fread\<close> for a reader of a stream.\<close>

definition file_got :: "pcap_reader \<Rightarrow> stdio_file \<Rightarrow> u8 list \<Rightarrow> nat \<Rightarrow> pcap_reader" where
  "file_got r fp buf n = r\<lparr>r_fp := Some (fp\<lparr>fp_rest := drop n (fp_rest fp)\<rparr>),
     r_buf := Some (set_prefix buf (take n (fp_rest fp)))\<rparr>"

definition file_ended :: "pcap_reader \<Rightarrow> stdio_file \<Rightarrow> u8 list \<Rightarrow> pcap_reader" where
  "file_ended r fp buf = r\<lparr>r_fp := Some (fp\<lparr>fp_rest := [], fp_error := fp_error fp \<or> fp_fault fp\<rparr>),
     r_buf := Some (set_prefix buf (fp_rest fp))\<rparr>"

lemma file_take:
  assumes "r_fp r = Some fp" "r_buf r = Some buf" "unat n \<le> length buf"
  shows "take_input r n =
    (if unat n \<le> length (fp_rest fp) then Some (Some (take (unat n) (fp_rest fp)), n, file_got r fp buf (unat n))
     else Some (None, of_nat (length (fp_rest fp)), file_ended r fp buf))"
proof -
  consider "unat n \<le> length (fp_rest fp)" | "length (fp_rest fp) < unat n" by linarith
  then show ?thesis
  proof cases
    case 1
    have "take (unat n) (set_prefix buf (take (unat n) (fp_rest fp))) = take (unat n) (fp_rest fp)"
      using 1 by (simp add: set_prefix_def)
    with 1 assms show ?thesis by (simp add: take_input_def fread_def file_got_def Let_def)
  next
    case 2
    have "unat (of_nat (length (fp_rest fp)) :: size_t) \<le> length (fp_rest fp)" by (simp add: unsigned_of_nat)
    with 2 have "(of_nat (length (fp_rest fp)) :: size_t) \<noteq> n" by auto
    with 2 assms show ?thesis by (simp add: take_input_def fread_def file_ended_def Let_def)
  qed
qed

lemma file_ok_E:
  assumes "file_ok r"
  obtains fp buf where "r_fp r = Some fp" "r_buf r = Some buf" "length buf = 262144"
  using assms by (auto simp: file_ok_def)

lemmas file_defs = file_ok_def file_rest_def file_fault_def file_got_def file_ended_def meta_def

interpretation stream: pcap_source file_ok file_rest file_fault file_ok
proof (unfold_locales, goal_cases)
  case (1 r n)
  obtain fp buf where r: "r_fp r = Some fp" "r_buf r = Some buf" "length buf = 262144"
    using 1(1) by (rule file_ok_E)
  show ?case
  proof (cases "unat n \<le> length (fp_rest fp)")
    case True
    with r file_take [OF r(1,2)] 1(2) show ?thesis by (simp add: file_defs min_absorb1)
  next
    case False
    with r file_take [OF r(1,2)] 1(2) show ?thesis
      by (auto simp: file_defs short_read_status_def)
  qed
next
  case (6 r got r' st r'')
  obtain fp buf where r: "r_fp r = Some fp" "r_buf r = Some buf" "length buf = 262144"
    using 6(1) by (rule file_ok_E)
  from 6 r file_take [OF r(1,2), of 24] show ?case
    by (auto simp: short_read_status_def file_ended_def file_rest_def set_prefix_def split: if_splits)
qed (auto simp: file_ok_def file_rest_def file_fault_def)

section \<open>Opening\<close>

text \<open>The meaning of a whole file, and what any number of calls to \<open>pcap_next\<close> then return.\<close>

definition capture :: "u8 list \<Rightarrow> pcap_record list \<times> pcap_status" where
  "capture data = (case global_header data of (st, info) \<Rightarrow>
     if st = PCAP_OK then capture_records info (drop 24 data) else ([], st))"

definition calls :: "nat \<Rightarrow> pcap_record list \<times> pcap_status \<Rightarrow> (pcap_status \<times> pcap_record option) list" where
  "calls n c = (case c of (recs, st) \<Rightarrow> take n (map (\<lambda>x. (PCAP_OK, Some x)) recs @ replicate n (st, None)))"

text \<open>What a stream that cannot be read past these bytes makes of it: where the file seems to
  end, an error is reported.\<close>

definition faulty :: "bool \<Rightarrow> pcap_record list \<times> pcap_status \<Rightarrow> pcap_record list \<times> pcap_status" where
  "faulty f c = (case c of (recs, st) \<Rightarrow>
     (recs, if f \<and> st \<in> {PCAP_EOF, PCAP_ERR_TRUNC_RECORD_HDR, PCAP_ERR_TRUNC_RECORD} then PCAP_ERR_IO else st))"

definition stream_capture :: "bool \<Rightarrow> u8 list \<Rightarrow> pcap_record list \<times> pcap_status" where
  "stream_capture f data = (if f \<and> length data < 24 then ([], PCAP_ERR_IO) else faulty f (capture data))"

definition header_status :: "bool \<Rightarrow> u8 list \<Rightarrow> pcap_status" where
  "header_status f data = (if f \<and> length data < 24 then PCAP_ERR_IO else fst (global_header data))"

lemma calls_stuck: "r_error r = st \<Longrightarrow> st \<noteq> PCAP_OK \<Longrightarrow> read_calls n r rec = Some (calls n ([], st))"
  using read_calls_stuck [of r n rec] by (simp add: calls_def)

lemma global_header_ok_length: "fst (global_header data) = PCAP_OK \<Longrightarrow> 24 \<le> length data"
  by (rule ccontr) (auto simp: global_header_def magic_kind_def Let_def split: if_splits sum.splits)

lemma global_header_status:
  "fst (global_header data) \<notin> {PCAP_EOF, PCAP_ERR_TRUNC_RECORD_HDR, PCAP_ERR_TRUNC_RECORD, PCAP_ERR_IO, PCAP_ERR_NOMEM}"
  by (auto simp: global_header_def magic_kind_def Let_def split: if_splits sum.splits)

lemma capture_records_status: "capture_records info bs = (recs, st) \<Longrightarrow> st \<noteq> PCAP_ERR_NOMEM \<and> st \<noteq> PCAP_OK"
proof (induction info bs arbitrary: recs rule: capture_records.induct)
  case (1 info bs)
  show ?case
  proof (cases "next_record info bs")
    case (Inl st')
    then have "st = st'" using "1.prems" by (simp add: capture_records_Inl [OF Inl])
    with Inl show ?thesis by (auto simp: next_record_def Let_def split: if_splits)
  next
    case (Inr p)
    then obtain x bs' where p: "next_record info bs = Inr (x, bs')" by (cases p) auto
    then show ?thesis using "1.prems" "1.IH" [OF p] by (auto simp: capture_records_Inr [OF p] split: prod.splits)
  qed
qed

lemma capture_status: "capture data = (recs, st) \<Longrightarrow> st \<noteq> PCAP_ERR_NOMEM \<and> st \<noteq> PCAP_OK"
  using capture_records_status global_header_status [of data]
  by (auto simp: capture_def split: prod.splits if_splits)

lemma open_mem_reads:
  assumes "unat len = length data"
  shows "\<exists>r. pcap_open_mem data len = Some (fst (global_header data), r) \<and> mem_ok r \<and> r_records r = 0 \<and>
    r_error r = fst (global_header data) \<and>
    (fst (global_header data) = PCAP_OK \<longrightarrow> r_info r = snd (global_header data) \<and> mem_rest r = drop 24 data) \<and>
    (\<forall>n rec. read_calls n r rec = Some (calls n (capture data)))"
proof -
  let ?r = "reader_reset\<lparr>r_mem := data, r_mem_len := len\<rparr>"
  have "mem_fresh ?r" using assms by (simp add: mem_fresh_def mem_ok_def reader_reset_def)
  moreover have rest: "mem_rest ?r = data" "\<not> mem_fault ?r" by (simp_all add: mem_rest_def mem_fault_def reader_reset_def)
  ultimately obtain r where r: "read_global_header ?r = Some (fst (global_header data), r)" "mem_ok r"
    "mem_rest r = drop 24 data" "r_error r = PCAP_OK" "r_records r = 0" "24 \<le> length data \<longrightarrow> r_info r = snd (global_header data)"
    using mem.read_global_header_ok [of ?r] by (auto simp: reader_reset_def)
  show ?thesis
  proof (cases "fst (global_header data) = PCAP_OK")
    case True
    then have info: "r_info r = snd (global_header data)" using r(6) global_header_ok_length by auto
    have "read_calls n r rec = Some (calls n (capture data))" for n rec
      using mem.read_calls_ok [OF r(2,4), of n rec] True
      by (simp add: info r(3) capture_def calls_def mem.at_end_def mem_fault_def case_prod_beta)
    with True r info show ?thesis by (simp add: pcap_open_mem_def)
  next
    case False
    then have "capture data = ([], fst (global_header data))" by (simp add: capture_def case_prod_beta)
    with False r calls_stuck [of "r\<lparr>r_error := fst (global_header data)\<rparr>"] show ?thesis
      by (simp add: pcap_open_mem_def)
  qed
qed

lemma open_stream_reads:
  assumes "length buf = 262144"
  shows "\<exists>r closed. open_stream (Some buf) reader_reset fp = Some (header_status (fp_fault fp \<or> fp_error fp) (fp_rest fp), r, closed) \<and>
    r_records r = 0 \<and> r_error r = header_status (fp_fault fp \<or> fp_error fp) (fp_rest fp) \<and>
    (if header_status (fp_fault fp \<or> fp_error fp) (fp_rest fp) = PCAP_OK
     then file_ok r \<and> closed = None \<and> r_info r = snd (global_header (fp_rest fp)) \<and> file_rest r = drop 24 (fp_rest fp) \<and>
       file_fault r = (fp_fault fp \<or> fp_error fp)
     else r_fp r = None \<and> r_buf r = None \<and> closed \<noteq> None) \<and>
    (\<forall>n rec. read_calls n r rec = Some (calls n (stream_capture (fp_fault fp \<or> fp_error fp) (fp_rest fp))))"
proof -
  let ?r = "reader_reset\<lparr>r_fp := Some fp, r_buf := Some buf\<rparr>"
  let ?f = "fp_fault fp \<or> fp_error fp" and ?data = "fp_rest fp"
  let ?st = "header_status ?f ?data"
  have "file_ok ?r" using assms by (simp add: file_ok_def)
  moreover have rest: "file_rest ?r = ?data" "file_fault ?r = ?f" by (simp_all add: file_rest_def file_fault_def)
  ultimately obtain r where r: "read_global_header ?r = Some (?st, r)" "file_ok r" "file_rest r = drop 24 ?data"
      "file_fault r = ?f" "r_error r = PCAP_OK" "r_records r = 0" "24 \<le> length ?data \<longrightarrow> r_info r = snd (global_header ?data)"
    using stream.read_global_header_ok [of ?r] by (auto simp: reader_reset_def header_status_def)
  show ?thesis
  proof (cases "?st = PCAP_OK")
    case True
    then have ok: "fst (global_header ?data) = PCAP_OK" by (simp add: header_status_def split: if_splits)
    then have long: "24 \<le> length ?data" by (rule global_header_ok_length)
    then have info: "r_info r = snd (global_header ?data)" using r(7) by simp
    have "read_calls n r rec = Some (calls n (stream_capture ?f ?data))" for n rec
      using stream.read_calls_ok [OF r(2,5), of n rec] ok long
      by (simp add: info r(3,4) stream_capture_def capture_def calls_def faulty_def stream.at_end_def case_prod_beta)
    with True r info show ?thesis by (simp add: open_stream_def)
  next
    case False
    have "stream_capture ?f ?data = ([], ?st)" using False global_header_status [of ?data]
      by (auto simp: stream_capture_def capture_def header_status_def faulty_def case_prod_beta split: if_splits)
    moreover obtain fp' where "r_fp r = Some fp'" using r(2) by (auto simp: file_ok_def)
    ultimately show ?thesis
      using False r calls_stuck [of "reader_reset\<lparr>r_sys_errno := r_sys_errno r, r_error := ?st\<rparr>"]
      by (simp add: open_stream_def pcap_close_def reader_reset_def)
  qed
qed

section \<open>Writing captures\<close>

text \<open>The format of \<open>pcap_reader.h\<close> as a writer of either byte order produces it. A packet
  has its seconds, its fraction, its length on the wire and its captured bytes.\<close>

type_synonym packet = "u32 \<times> u32 \<times> u32 \<times> u8 list"

definition enc32 :: "bool \<Rightarrow> u32 \<Rightarrow> u8 list" where
  "enc32 be x = (if be then enc_be32 x else rev (enc_be32 x))"

definition enc16 :: "bool \<Rightarrow> u16 \<Rightarrow> u8 list" where
  "enc16 be x = (if be then enc_be16 x else rev (enc_be16 x))"

definition header_bytes :: "bool \<Rightarrow> bool \<Rightarrow> u32 \<Rightarrow> u8 list" where
  "header_bytes be nsec snaplen =
     enc32 be (if nsec then MAGIC_NSEC else MAGIC_USEC) @ enc16 be 2 @ enc16 be 4 @
     enc32 be 0 @ enc32 be 0 @ enc32 be snaplen @ enc32 be PCAP_LINKTYPE_ETHERNET"

definition packet_bytes :: "bool \<Rightarrow> packet \<Rightarrow> u8 list" where
  "packet_bytes be = (\<lambda>(sec, frac, wirelen, data).
     enc32 be sec @ enc32 be frac @ enc32 be (of_nat (length data)) @ enc32 be wirelen @ data)"

definition capture_bytes :: "bool \<Rightarrow> bool \<Rightarrow> u32 \<Rightarrow> packet list \<Rightarrow> u8 list" where
  "capture_bytes be nsec snaplen ps = header_bytes be nsec snaplen @ concat (map (packet_bytes be) ps)"

text \<open>The record that the reader should make of a packet.\<close>

definition packet_record :: "bool \<Rightarrow> packet \<Rightarrow> pcap_record" where
  "packet_record nsec = (\<lambda>(sec, frac, wirelen, data).
     \<lparr>rec_ts_ns = of_nat (time_ns nsec sec frac), rec_caplen = of_nat (length data),
      rec_wirelen = max (of_nat (length data)) wirelen, rec_data = Some data\<rparr>)"

definition packet_ok :: "packet \<Rightarrow> bool" where
  "packet_ok = (\<lambda>(sec, frac, wirelen, data). length data \<le> 262144)"

text \<open>What is left of the packets when the file is cut after \<open>n\<close> bytes of records.\<close>

fun survivors :: "packet list \<Rightarrow> nat \<Rightarrow> packet list \<times> pcap_status" where
  "survivors [] n = ([], PCAP_EOF)"
| "survivors (p # ps) n =
     (let len = 16 + length (snd (snd (snd p))) in
      if n = 0 then ([], PCAP_EOF)
      else if n < 16 then ([], PCAP_ERR_TRUNC_RECORD_HDR)
      else if n < len then ([], PCAP_ERR_TRUNC_RECORD)
      else case survivors ps (n - len) of (qs, st) \<Rightarrow> (p # qs, st))"

lemma length_enc [simp]: "length (enc32 be x) = 4" "length (enc16 be y) = 2"
  by (simp_all add: enc32_def enc16_def enc_be32_def enc_be16_def)

lemma enc_not_Nil [simp]: "enc32 be x \<noteq> []"
  using length_enc(1) [of be x] by (metis list.size(3) zero_neq_numeral)

lemma word32_enc: "word32 be (enc32 be x @ ys) 0 = x"
  using be32_enc [of x] by (simp add: word32_def enc32_def enc_be32_def)

lemma word16_enc: "word16 be (enc16 be x @ ys) 0 = x"
  using be16_enc [of x] by (simp add: word16_def enc16_def enc_be16_def)

lemma word32_skip: "length xs = i \<Longrightarrow> word32 be (xs @ ys) (i + j) = word32 be ys j"
  by (simp add: word32_def nth_append add.assoc)

lemma word16_skip: "length xs = i \<Longrightarrow> word16 be (xs @ ys) (i + j) = word16 be ys j"
  by (simp add: word16_def nth_append add.assoc)

text \<open>The fields of an encoded record header, found at their offsets.\<close>

lemma packet_fields:
  "word32 be (enc32 be a @ enc32 be b @ enc32 be c @ enc32 be d @ ys) 0 = a"
  "word32 be (enc32 be a @ enc32 be b @ enc32 be c @ enc32 be d @ ys) 4 = b"
  "word32 be (enc32 be a @ enc32 be b @ enc32 be c @ enc32 be d @ ys) 8 = c"
  "word32 be (enc32 be a @ enc32 be b @ enc32 be c @ enc32 be d @ ys) 12 = d"
  using word32_enc [of be a] word32_skip [of "enc32 be a" 4 be _ 0] word32_enc [of be b]
    word32_skip [of "enc32 be a @ enc32 be b" 8 be _ 0] word32_enc [of be c]
    word32_skip [of "enc32 be a @ enc32 be b @ enc32 be c" 12 be _ 0] word32_enc [of be d]
  by simp_all

lemma packet_bytes_append:
  "packet_bytes be (sec, frac, wirelen, data) @ ys =
     enc32 be sec @ enc32 be frac @ enc32 be (of_nat (length data)) @ enc32 be wirelen @ data @ ys"
  by (simp add: packet_bytes_def)

lemma length_packet_bytes: "length (packet_bytes be p) = 16 + length (snd (snd (snd p)))"
  by (cases p) (simp add: packet_bytes_def)

lemma unat_data_length: "length data \<le> 262144 \<Longrightarrow> unat (of_nat (length data) :: u32) = length data"
  by (simp add: unsigned_of_nat take_bit_nat_eq_self)

lemma next_record_packet:
  assumes "packet_ok p"
  shows "next_record info (packet_bytes (i_big_endian info) p @ ys) = Inr (packet_record (i_nsec info) p, ys)"
proof -
  obtain sec frac wirelen data where p: "p = (sec, frac, wirelen, data)" by (cases p)
  have n: "unat (of_nat (length data) :: u32) = length data" using assms p by (intro unat_data_length) (simp add: packet_ok_def)
  let ?bs = "packet_bytes (i_big_endian info) p @ ys"
  have "length ?bs = 16 + length data + length ys" "take (length data) (drop 16 ?bs) = data"
    "drop (16 + length data) ?bs = ys" "?bs \<noteq> []"
    using length_packet_bytes [of "i_big_endian info" p] by (auto simp: p packet_bytes_def)
  then show ?thesis
    using assms n by (simp add: next_record_def packet_fields packet_record_def packet_ok_def Let_def
        p packet_bytes_append [of "i_big_endian info" sec frac wirelen data ys])
qed

lemma next_record_cut:
  assumes "packet_ok p" "n < 16 + length (snd (snd (snd p)))"
  shows "next_record info (take n (packet_bytes (i_big_endian info) p @ ys)) =
    Inl (if n = 0 then PCAP_EOF else if n < 16 then PCAP_ERR_TRUNC_RECORD_HDR else PCAP_ERR_TRUNC_RECORD)"
proof -
  obtain sec frac wirelen data where p: "p = (sec, frac, wirelen, data)" by (cases p)
  let ?be = "i_big_endian info"
  let ?bs = "packet_bytes ?be p @ ys"
  have len: "length (take n ?bs) = n" using assms(2) length_packet_bytes [of ?be p] by simp
  have "word32 ?be (take n ?bs) 8 = of_nat (length data)" if "16 \<le> n"
    using that word32_take [of 8 n ?be ?bs] by (simp add: p packet_bytes_append packet_fields)
  then have "unat (word32 ?be (take n ?bs) 8) = length data" if "16 \<le> n"
    using that assms(1) p by (simp add: packet_ok_def unat_data_length)
  moreover have "take n ?bs = [] \<longleftrightarrow> n = 0" using len by (metis length_0_conv)
  ultimately show ?thesis using assms p len unfolding next_record_def Let_def
    by (cases "n < 16") (auto simp: packet_ok_def)
qed

lemma capture_records_cut:
  assumes "\<forall>p\<in>set ps. packet_ok p"
  shows "capture_records info (take n (concat (map (packet_bytes (i_big_endian info)) ps))) =
    (case survivors ps n of (qs, st) \<Rightarrow> (map (packet_record (i_nsec info)) qs, st))"
  using assms
proof (induction ps arbitrary: n)
  case Nil
  show ?case by (simp add: capture_records_Inl [of _ "[]" PCAP_EOF] next_record_def Let_def)
next
  case (Cons p ps)
  let ?len = "16 + length (snd (snd (snd p)))"
  let ?ys = "concat (map (packet_bytes (i_big_endian info)) ps)"
  show ?case
  proof (cases "n < ?len")
    case True
    with capture_records_Inl [OF next_record_cut [of p n info ?ys]] Cons.prems show ?thesis by (simp add: Let_def)
  next
    case False
    then have "take n (packet_bytes (i_big_endian info) p @ ?ys) = packet_bytes (i_big_endian info) p @ take (n - ?len) ?ys"
      using length_packet_bytes [of "i_big_endian info" p] by simp
    with False Cons capture_records_Inr [OF next_record_packet [of p info "take (n - ?len) ?ys"]] show ?thesis
      by (auto simp: Let_def simp del: take_append split: prod.split)
  qed
qed

lemma length_header_bytes [simp]: "length (header_bytes be nsec snaplen) = 24"
  by (simp add: header_bytes_def)

lemma global_header_bytes:
  "global_header (header_bytes be nsec snaplen @ ys) =
    (PCAP_OK, \<lparr>i_big_endian = be, i_nsec = nsec, i_version_major = 2, i_version_minor = 4,
      i_snaplen = snaplen, i_linktype = 1\<rparr>)"
proof -
  let ?m = "if nsec then MAGIC_NSEC else MAGIC_USEC"
  let ?bs = "header_bytes be nsec snaplen @ ys"
  have "magic_kind (word32 False ?bs 0) = Inr (be, nsec)"
    by (cases be; cases nsec)
      (simp_all add: header_bytes_def enc32_def enc_be32_def word32_def be32_def magic_kind_def)
  moreover have "word16 be ?bs 4 = 2" "word16 be ?bs 6 = 4"
    using word16_skip [of "enc32 be ?m" 4 be _ 0] word16_skip [of "enc32 be ?m @ enc16 be 2" 6 be _ 0]
      word16_enc [of be 2] word16_enc [of be 4] by (simp_all add: header_bytes_def)
  moreover have "word32 be ?bs 16 = snaplen" "word32 be ?bs 20 = 1"
    using word32_skip [of "enc32 be ?m @ enc16 be 2 @ enc16 be 4 @ enc32 be 0 @ enc32 be 0" 16 be _ 0]
      word32_skip [of "enc32 be ?m @ enc16 be 2 @ enc16 be 4 @ enc32 be 0 @ enc32 be 0 @ enc32 be snaplen" 20 be _ 0]
      word32_enc [of be snaplen] word32_enc [of be 1] by (simp_all add: header_bytes_def)
  ultimately show ?thesis by (simp add: global_header_def file_info0_def)
qed

lemma capture_cut:
  assumes "\<forall>p\<in>set ps. packet_ok p"
  shows "global_header (take (24 + n) (capture_bytes be nsec snaplen ps)) =
      (PCAP_OK, \<lparr>i_big_endian = be, i_nsec = nsec, i_version_major = 2, i_version_minor = 4,
        i_snaplen = snaplen, i_linktype = 1\<rparr>)"
    "capture (take (24 + n) (capture_bytes be nsec snaplen ps)) =
      (case survivors ps n of (qs, st) \<Rightarrow> (map (packet_record nsec) qs, st))"
proof -
  let ?info = "\<lparr>i_big_endian = be, i_nsec = nsec, i_version_major = 2, i_version_minor = 4,
        i_snaplen = snaplen, i_linktype = 1\<rparr>"
  have cut: "take (24 + n) (capture_bytes be nsec snaplen ps) =
      header_bytes be nsec snaplen @ take n (concat (map (packet_bytes be) ps))"
    by (simp add: capture_bytes_def)
  show hdr: "global_header (take (24 + n) (capture_bytes be nsec snaplen ps)) = (PCAP_OK, ?info)"
    unfolding cut by (rule global_header_bytes)
  show "capture (take (24 + n) (capture_bytes be nsec snaplen ps)) =
      (case survivors ps n of (qs, st) \<Rightarrow> (map (packet_record nsec) qs, st))"
    using capture_records_cut [OF assms, of ?info n] by (simp add: capture_def hdr) (simp add: cut)
qed

lemma survivors_all: "length (concat (map (packet_bytes be) ps)) \<le> n \<Longrightarrow> survivors ps n = (ps, PCAP_EOF)"
  by (induction ps arbitrary: n) (auto simp: length_packet_bytes Let_def split: prod.split)

section \<open>Properties\<close>

text \<open>
  C11. The reader implements the format. Opening a capture in memory reports what its global
  header says; then any number of calls of \<open>pcap_next\<close> return the records of the capture in
  order and after them, at every further call, the reason why the capture ends: a clean end,
  a record header or a record that is cut off, or a corrupt length. Every read stays inside
  the buffer, for every content and length.
\<close>

theorem mem_reader_refines_format:
  assumes "unat len = length data"
  shows "\<exists>r. pcap_open_mem data len = Some (fst (global_header data), r) \<and>
    (\<forall>n rec. read_calls n r rec = Some (calls n (capture data)))"
  using open_mem_reads [OF assms] by blast

definition sample_capture :: "u8 list" where
  "sample_capture = capture_bytes False False 65535 [(7, 5, 60, [1, 2, 3])]"

lemma sample_capture_length: "length sample_capture = 43"
  by (simp add: sample_capture_def capture_bytes_def length_packet_bytes)

theorem mem_reader_refines_format_witness:
  "\<exists>r. pcap_open_mem sample_capture 43 = Some (fst (global_header sample_capture), r) \<and>
    (\<forall>n rec. read_calls n r rec = Some (calls n (capture sample_capture)))"
  by (rule mem_reader_refines_format) (simp add: sample_capture_length)

text \<open>
  C13. One code path, two sources. Reading a capture through a stream that delivers its bytes
  without a read error returns the same open status and the same results, call by call, as
  reading the same bytes from memory.
\<close>

theorem stream_reader_equals_mem_reader:
  assumes "length buf = 262144" "\<not> fp_fault fp" "\<not> fp_error fp" "unat len = length (fp_rest fp)"
  shows "\<exists>st r closed r'. pcap_open_stream (Some buf) (Some fp) = Some (st, r, closed) \<and>
    pcap_open_mem (fp_rest fp) len = Some (st, r') \<and> (\<forall>n rec rec'. read_calls n r rec = read_calls n r' rec') \<and>
    (\<forall>n rec. read_calls n r rec \<noteq> None)"
proof -
  have "stream_capture False (fp_rest fp) = capture (fp_rest fp)" "header_status False (fp_rest fp) = fst (global_header (fp_rest fp))"
    by (simp_all add: stream_capture_def faulty_def header_status_def case_prod_beta)
  with open_stream_reads [OF assms(1), of fp] open_mem_reads [OF assms(4)] assms(2,3) show ?thesis
    unfolding pcap_open_stream_def by auto
qed

definition sample_file :: stdio_file where
  "sample_file = \<lparr>fp_rest = sample_capture, fp_fault = False, fp_errno = 0, fp_error = False\<rparr>"

theorem stream_reader_equals_mem_reader_witness:
  "\<exists>st r closed r'. pcap_open_stream (Some (replicate 262144 0)) (Some sample_file) = Some (st, r, closed) \<and>
    pcap_open_mem sample_capture 43 = Some (st, r') \<and> (\<forall>n rec rec'. read_calls n r rec = read_calls n r' rec')"
  using stream_reader_equals_mem_reader [of "replicate 262144 0" sample_file 43] sample_capture_length
  by (auto simp: sample_file_def)

lemma open_file_parts:
  assumes "length buf = 262144"
  shows "\<exists>st r closed. pcap_open_file (Some buf) (Inr fp) = Some (st, r, closed) \<and>
      st = header_status (fp_fault fp \<or> fp_error fp) (fp_rest fp) \<and> r_error r = st \<and>
      (if st = PCAP_OK then r_fp r \<noteq> None \<and> closed = None else r_fp r = None \<and> r_buf r = None \<and> closed \<noteq> None) \<and>
      (\<forall>n rec. read_calls n r rec = Some (calls n (stream_capture (fp_fault fp \<or> fp_error fp) (fp_rest fp))))"
    "\<exists>r. pcap_open_file None (Inr fp) = Some (PCAP_ERR_NOMEM, r, Some fp) \<and> r_fp r = None \<and> r_error r = PCAP_ERR_NOMEM"
    "\<exists>r. pcap_open_file m (Inl err) = Some (PCAP_ERR_OPEN, r, None) \<and> r_error r = PCAP_ERR_OPEN \<and> r_sys_errno r = err"
  using open_stream_reads [OF assms, of fp]
  by (auto simp: pcap_open_file_def file_ok_def open_stream_def pcap_close_def reader_reset_def split: if_splits)

text \<open>
  C14. Opening a file, with every failure. Without a record buffer the open fails as out of
  memory and closes the stream. With it, the reader owns the stream exactly if the open
  succeeds; otherwise the stream has been closed, no buffer is held, and every later call
  returns the same error. Where reading fails, the records before the failure are
  returned and then \<open>PCAP_ERR_IO\<close>, never a clean end.
\<close>

theorem open_file_ownership:
  assumes "length buf = 262144"
  shows "(\<exists>st r closed. pcap_open_file (Some buf) (Inr fp) = Some (st, r, closed) \<and>
      st = header_status (fp_fault fp \<or> fp_error fp) (fp_rest fp) \<and> r_error r = st \<and>
      (if st = PCAP_OK then r_fp r \<noteq> None \<and> closed = None else r_fp r = None \<and> r_buf r = None \<and> closed \<noteq> None) \<and>
      (\<forall>n rec. read_calls n r rec = Some (calls n (stream_capture (fp_fault fp \<or> fp_error fp) (fp_rest fp))))) \<and>
    (\<exists>r. pcap_open_file None (Inr fp) = Some (PCAP_ERR_NOMEM, r, Some fp) \<and> r_fp r = None \<and> r_error r = PCAP_ERR_NOMEM) \<and>
    (\<exists>r. pcap_open_file m (Inl err) = Some (PCAP_ERR_OPEN, r, None) \<and> r_error r = PCAP_ERR_OPEN \<and> r_sys_errno r = err)"
  using open_file_parts [OF assms] by blast

theorem open_file_ownership_witness:
  "\<exists>st r closed. pcap_open_file (Some (replicate 262144 0)) (Inr (sample_file\<lparr>fp_fault := True\<rparr>)) = Some (st, r, closed) \<and>
    (\<forall>n rec. read_calls n r rec = Some (calls n (stream_capture True sample_capture)))"
  using open_file_ownership [THEN conjunct1, of "replicate 262144 0" "sample_file\<lparr>fp_fault := True\<rparr>"]
  by (auto simp: sample_file_def)

text \<open>
  C12. Round trip, and files cut short. Write any packets in either byte order and time
  resolution and cut the file anywhere behind the global header: the reader opens it,
  returns exactly the packets that are still complete, with their bytes, lengths and times
  in nanoseconds, and then a clean end if the cut is on a record boundary, otherwise that a
  record header or a record is cut short. The uncut file gives every packet back.
\<close>

theorem capture_round_trip:
  assumes "\<forall>p\<in>set ps. packet_ok p" "data = take (24 + n) (capture_bytes be nsec snaplen ps)" "unat len = length data"
  shows "\<exists>r. pcap_open_mem data len = Some (PCAP_OK, r) \<and>
    (\<forall>k rec. read_calls k r rec = Some (calls k (case survivors ps n of (qs, st) \<Rightarrow> (map (packet_record nsec) qs, st)))) \<and>
    (length (concat (map (packet_bytes be) ps)) \<le> n \<longrightarrow> survivors ps n = (ps, PCAP_EOF))"
  using open_mem_reads [OF assms(3)] capture_cut [OF assms(1), of n be nsec snaplen] survivors_all [of be ps n]
  unfolding assms(2) by auto

definition sample_record :: pcap_record where
  "sample_record = \<lparr>rec_ts_ns = 7000005000, rec_caplen = 3, rec_wirelen = 60, rec_data = Some [1, 2, 3]\<rparr>"

theorem capture_round_trip_witness:
  "\<exists>r. pcap_open_mem sample_capture 43 = Some (PCAP_OK, r) \<and>
    read_calls 2 r sample_record = Some [(PCAP_OK, Some sample_record), (PCAP_EOF, None)]"
proof -
  have "sample_capture = take (24 + 19) (capture_bytes False False 65535 [(7, 5, 60, [1, 2, 3])])"
    using sample_capture_length by (simp add: sample_capture_def)
  moreover have "\<forall>p\<in>set [(7, 5, 60, [1, 2, 3])]. packet_ok p" by (simp add: packet_ok_def)
  moreover have "unat (43 :: size_t) = length sample_capture" by (simp add: sample_capture_length)
  ultimately have "\<exists>r. pcap_open_mem sample_capture 43 = Some (PCAP_OK, r) \<and>
    (\<forall>k rec. read_calls k r rec = Some (calls k (case survivors [(7, 5, 60, [1, 2, 3])] 19 of (qs, st) \<Rightarrow>
      (map (packet_record False) qs, st))))"
    using capture_round_trip [of "[(7, 5, 60, [1, 2, 3])]" sample_capture 19 False False 65535 43] by blast
  moreover have "survivors [(7, 5, 60, [1, 2, 3])] 19 = ([(7, 5, 60, [1, 2, 3])], PCAP_EOF)" by simp
  moreover have "packet_record False (7, 5, 60, [1, 2, 3]) = sample_record"
    by (simp add: packet_record_def sample_record_def time_ns_def max_def)
  moreover have "calls 2 ([x], st) = [(PCAP_OK, Some x), (st, None)]" for x st
    by (simp add: calls_def numeral_2_eq_2)
  ultimately show ?thesis by auto
qed

lemma pcap_next_sets_error:
  "pcap_next r rec = Some (st, r', rec') \<Longrightarrow> st \<noteq> PCAP_OK \<Longrightarrow> r_error r' = st"
  by (auto simp: pcap_next_def some_iff case_prod_beta split: if_splits option.splits)

text \<open>
  Errors are sticky. Whatever the state of a reader, once a call of \<open>pcap_next\<close> has
  returned anything but \<open>PCAP_OK\<close>, every later call returns the same status, reads nothing
  and changes nothing.
\<close>

theorem reader_errors_sticky:
  assumes "pcap_next r rec = Some (st, r', rec')" "st \<noteq> PCAP_OK"
  shows "pcap_next r' rec'' = Some (st, r', rec'') \<and> read_calls n r' rec'' = Some (replicate n (st, None))"
  using pcap_next_sets_error [OF assms] assms(2) by (auto simp: pcap_next_stuck read_calls_stuck)

theorem reader_errors_sticky_witness:
  "pcap_next reader_reset sample_record = Some (PCAP_EOF, reader_reset\<lparr>r_error := PCAP_EOF\<rparr>, sample_record) \<and>
   read_calls 3 (reader_reset\<lparr>r_error := PCAP_EOF\<rparr>) sample_record = Some (replicate 3 (PCAP_EOF, None))"
proof -
  have run: "pcap_next reader_reset sample_record = Some (PCAP_EOF, reader_reset\<lparr>r_error := PCAP_EOF\<rparr>, sample_record)"
    by (simp add: pcap_next_def reader_reset_def take_input_def short_read_status_def)
  with reader_errors_sticky [OF run, of sample_record 3] show ?thesis by simp
qed

text \<open>
  C26. Bounds of a record. A reader of memory or of a stream with its record buffer always
  returns from \<open>pcap_next\<close>, without a read outside the input or a store outside the record
  buffer, and stays such a reader; a record it returns has exactly \<open>caplen\<close> bytes, at most
  262144, and is at least that long on the wire.
\<close>

theorem pcap_next_bounds:
  assumes "mem_ok r \<or> file_ok r"
  shows "\<exists>st r' rec'. pcap_next r rec = Some (st, r', rec') \<and> (mem_ok r' \<or> file_ok r') \<and>
    (st = PCAP_OK \<longrightarrow> unat (rec_caplen rec') \<le> 262144 \<and> rec_caplen rec' \<le> rec_wirelen rec' \<and>
      (\<exists>data. rec_data rec' = Some data \<and> length data = unat (rec_caplen rec')) \<and> r_records r' = r_records r + 1)"
  using mem.next_bounds [of r rec] stream.next_bounds [of r rec] assms by blast

theorem pcap_next_bounds_witness:
  "\<exists>st r' rec'. pcap_next reader_reset sample_record = Some (st, r', rec') \<and> (mem_ok r' \<or> file_ok r')"
  using pcap_next_bounds [of reader_reset sample_record] by (auto simp: mem_ok_def reader_reset_def)


text \<open>
  C27. Record headers and times. A record header of 16 bytes is accepted exactly if its
  captured length is at most 262144. Then the time in nanoseconds is the mathematical value
  of seconds and fraction: nothing wraps, also not for a fraction that is out of range, and
  the length on the wire is the one of the header, raised to the captured length.
\<close>

theorem record_time_exact:
  assumes "length hdr = 16" "be = i_big_endian info"
  shows "\<exists>st rec'. pcap_parse_record_header info hdr rec = Some (st, rec') \<and>
    (st = PCAP_OK \<longleftrightarrow> unat (word32 be hdr 8) \<le> 262144) \<and> rec_caplen rec' = word32 be hdr 8 \<and>
    (if st = PCAP_OK
     then unat (rec_ts_ns rec') = unat (word32 be hdr 0) * 1000000000 + unat (word32 be hdr 4) * (if i_nsec info then 1 else 1000) \<and>
       unat (rec_ts_ns rec') < 2 ^ 63 \<and> rec_wirelen rec' = max (word32 be hdr 8) (word32 be hdr 12)
     else st = PCAP_ERR_BAD_CAPLEN)"
proof -
  have "take 16 hdr = hdr" using assms(1) by simp
  moreover have "unat (of_nat (time_ns (i_nsec info) (word32 be hdr 0) (word32 be hdr 4)) :: u64) =
      time_ns (i_nsec info) (word32 be hdr 0) (word32 be hdr 4)"
    using time_ns_bound [of "i_nsec info" "word32 be hdr 0" "word32 be hdr 4"]
    by (simp add: unsigned_of_nat take_bit_nat_eq_self)
  moreover have "16 \<le> length hdr" using assms(1) by simp
  ultimately show ?thesis
    using parse_record_header_take [of hdr info rec] time_ns_bound [of "i_nsec info" "word32 be hdr 0" "word32 be hdr 4"] assms(2)
    by (auto simp: header_def time_ns_def Let_def simp del: of_nat_add of_nat_mult)
qed

theorem record_time_exact_witness:
  "\<exists>st rec'. pcap_parse_record_header file_info0 (replicate 16 0xFF) sample_record = Some (st, rec') \<and> st = PCAP_ERR_BAD_CAPLEN"
  using record_time_exact [of "replicate 16 0xFF" False file_info0 sample_record]
  by (auto simp: file_info0_def word32_def be32_def)

end
