(* ===== verification/Analyze.thy ===== *)
theory Analyze
  imports Reader Frag Flow Stats
begin

text \<open>
  \<open>analyze.h\<close> and \<open>analyze.c\<close>: the pipeline that reads every record, decodes it and
  accounts it. Each allocation may succeed or fail: \<open>analysis_init\<close> takes the outcome of
  its three allocations, and the loop takes, for every packet, the allocators of the two
  tables. The loop of \<open>analysis_run\<close> is a partial function: that it ends is a theorem.
\<close>

abbreviation (input) INITIAL_FLOW_SLOTS :: size_t where "INITIAL_FLOW_SLOTS \<equiv> 1024"
abbreviation (input) INITIAL_TUNNEL_SLOTS :: size_t where "INITIAL_TUNNEL_SLOTS \<equiv> 64"

record analysis =
  a_stats :: stats
  a_flows :: flow_table
  a_tunnels :: flow_table
  a_frags :: frag_cache

definition analysis_init :: "alloc \<Rightarrow> alloc \<Rightarrow> bool \<Rightarrow> analysis \<Rightarrow> (int \<times> analysis) option" where
  "analysis_init al_flows al_tunnels al_frags a = do {
     let a = a\<lparr>a_stats := stats_init\<rparr>;
     (r, t) \<leftarrow> flow_table_init al_flows INITIAL_FLOW_SLOTS;
     let a = a\<lparr>a_flows := t\<rparr>;
     if r \<noteq> 0 then Some (-1, a)
     else do {
       (r, t) \<leftarrow> flow_table_init al_tunnels INITIAL_TUNNEL_SLOTS;
       let a = a\<lparr>a_tunnels := t\<rparr>;
       if r \<noteq> 0 then Some (-1, a\<lparr>a_flows := flow_table_free (a_flows a)\<rparr>)
       else
         case frag_cache_init al_frags of (r, c) \<Rightarrow>
           let a = a\<lparr>a_frags := c\<rparr> in
           if r \<noteq> 0
           then Some (-1, a\<lparr>a_tunnels := flow_table_free (a_tunnels a), a_flows := flow_table_free (a_flows a)\<rparr>)
           else Some (0, a) }}"

text \<open>The result, the analysis, and the packet as it was modified.\<close>

definition analysis_account ::
    "alloc \<Rightarrow> alloc \<Rightarrow> analysis \<Rightarrow> packet_info \<Rightarrow> u32 \<Rightarrow> u32 \<Rightarrow> u64 \<Rightarrow> (int \<times> analysis \<times> packet_info) option" where
  "analysis_account al_flows al_tunnels a pi caplen wirelen ts_ns = do {
     (matched, c, pi) \<leftarrow> frag_cache_apply (a_frags a) pi;
     let a = a\<lparr>a_frags := c\<rparr>;
     let a = (if matched
              then a\<lparr>a_stats := (a_stats a)\<lparr>s_frag_matched := s_frag_matched (a_stats a) + 1\<rparr>\<rparr> else a);
     s \<leftarrow> stats_add (a_stats a) pi caplen wirelen ts_ns;
     let a = a\<lparr>a_stats := s\<rparr>;
     if pi_status pi \<noteq> DEC_OK then Some (0, a, pi)
     else do {
       (r, t) \<leftarrow> flow_table_add_packet al_flows (a_flows a) pi wirelen ts_ns;
       let a = a\<lparr>a_flows := t\<rparr>;
       if r \<noteq> 0 then Some (-1, a, pi)
       else if pi_is_gtpu pi \<and> pi_gtp_v1u pi \<and> pi_gtp_msg_ok pi \<and> pi_gtp_msg_type pi = GTPU_MSG_GPDU
       then do {
         (r, t) \<leftarrow> flow_table_add_tunnel al_tunnels (a_tunnels a) pi wirelen ts_ns;
         let a = a\<lparr>a_tunnels := t\<rparr>;
         Some (if r \<noteq> 0 then -1 else 0, a, pi) }
       else Some (0, a, pi) }}"

text \<open>The loop, from packet number \<open>k\<close> on.\<close>

partial_function (option) analysis_loop ::
    "(nat \<Rightarrow> alloc \<times> alloc) \<Rightarrow> nat \<Rightarrow> analysis \<Rightarrow> pcap_reader \<Rightarrow> pcap_record \<Rightarrow> (pcap_status \<times> analysis \<times> pcap_reader) option" where
  "analysis_loop al k a r rec =
     Option.bind (pcap_next r rec) (\<lambda>(st, r, rec).
       if st \<noteq> PCAP_OK then Some (st, a, r)
       else
         Option.bind (rec_data rec) (\<lambda>data.
         Option.bind (decode_frame data (ucast (rec_caplen rec)) (ucast (rec_wirelen rec))) (\<lambda>pi.
         Option.bind (analysis_account (fst (al k)) (snd (al k)) a pi (rec_caplen rec) (rec_wirelen rec) (rec_ts_ns rec))
           (\<lambda>(x, a, pi). if x \<noteq> 0 then Some (PCAP_ERR_NOMEM, a, r) else analysis_loop al (Suc k) a r rec))))"

text \<open>\<open>rec\<close> is the uninitialised local variable.\<close>

definition analysis_run ::
    "(nat \<Rightarrow> alloc \<times> alloc) \<Rightarrow> analysis \<Rightarrow> pcap_reader \<Rightarrow> pcap_record \<Rightarrow> (pcap_status \<times> analysis \<times> pcap_reader) option" where
  "analysis_run al a r rec = analysis_loop al 0 a r rec"

definition analysis_free :: "analysis \<Rightarrow> analysis" where
  "analysis_free a = a\<lparr>a_flows := flow_table_free (a_flows a), a_tunnels := flow_table_free (a_tunnels a),
     a_frags := frag_cache_free (a_frags a)\<rparr>"

end
