(* ===== verification/Analyze_Props.thy ===== *)
theory Analyze_Props
  imports Analyze Reader_Props Decode_Props Flow_Props Stats_Props
begin

text \<open>
  The pipeline as a whole. \<open>attributed\<close> is the list of decoded packets with the ports that
  later fragments borrow; \<open>flow_events\<close> and \<open>tunnel_events\<close> are the packets that belong
  in the two tables. \<open>describes\<close> says what an analysis holds after such a list. From the
  interface of the reader follows that the loop ends, and what it leaves behind.
\<close>

section \<open>What the analysis should hold\<close>

definition attributed :: "pkt list \<Rightarrow> pkt list" where
  "attributed ps = map (\<lambda>i. (attribute (map fst (take i ps)) (fst (ps ! i)), snd (ps ! i))) [0..<length ps]"

definition matches :: "pkt list \<Rightarrow> nat" where
  "matches ps = length (filter (\<lambda>i. frag_matches (map fst (take i ps)) (fst (ps ! i))) [0..<length ps])"

definition flow_event_of :: "pkt \<Rightarrow> flow_event option" where
  "flow_event_of p = (case p of (pi, cap, wire, ts) \<Rightarrow>
     if pi_status pi \<noteq> DEC_OK then None
     else map_option (\<lambda>(key, reversed).
       (key, reversed, if pi_ip_proto pi = IPPROTO_NUM_TCP \<and> pi_has_l4 pi then pi_tcp_flags pi else 0, wire, ts))
       (flow_key_from_packet pi))"

definition in_tunnel :: "packet_info \<Rightarrow> bool" where
  "in_tunnel pi \<longleftrightarrow> pi_status pi = DEC_OK \<and> pi_is_gtpu pi \<and> pi_gtp_v1u pi \<and> pi_gtp_msg_ok pi \<and>
     pi_gtp_msg_type pi = GTPU_MSG_GPDU"

definition tunnel_event_of :: "pkt \<Rightarrow> flow_event option" where
  "tunnel_event_of p = (case p of (pi, cap, wire, ts) \<Rightarrow>
     if in_tunnel pi then map_option (\<lambda>key. (key, False, 0, wire, ts)) (tunnel_key_from_packet pi) else None)"

definition flow_events :: "pkt list \<Rightarrow> flow_event list" where
  "flow_events ps = List.map_filter flow_event_of (attributed ps)"

definition tunnel_events :: "pkt list \<Rightarrow> flow_event list" where
  "tunnel_events ps = List.map_filter tunnel_event_of (attributed ps)"

text \<open>The counters, with the number of matched fragments kept apart.\<close>

definition counted :: "pkt list \<Rightarrow> stats \<Rightarrow> bool" where
  "counted ps s \<longleftrightarrow> stats_ok s \<and> stats_counts (attributed ps) (s\<lparr>s_frag_matched := 0\<rparr>) \<and>
     s_frag_matched s = of_nat (matches ps)"

text \<open>The analysis after the packets \<open>ps\<close>, with the packets \<open>fs\<close> in the flow table and
  \<open>ts\<close> in the tunnel table.\<close>

definition describes :: "pkt list \<Rightarrow> pkt list \<Rightarrow> pkt list \<Rightarrow> analysis \<Rightarrow> bool" where
  "describes ps fs ts a \<longleftrightarrow> (\<forall>p\<in>set ps. addr_ok (fst p)) \<and> frag_rep (a_frags a) (map fst ps) \<and>
     counted ps (a_stats a) \<and> table.holds (a_flows a) (flow_events fs) \<and> table.holds (a_tunnels a) (tunnel_events ts)"

lemma attributed_snoc: "attributed (ps @ [p]) = attributed ps @ [(attribute (map fst ps) (fst p), snd p)]"
  by (auto simp: attributed_def nth_append)

lemma matches_snoc: "matches (ps @ [p]) = matches ps + (if frag_matches (map fst ps) (fst p) then 1 else 0)"
proof -
  have "filter (\<lambda>i. frag_matches (map fst (take i (ps @ [p]))) (fst ((ps @ [p]) ! i))) [0..<length ps] =
    filter (\<lambda>i. frag_matches (map fst (take i ps)) (fst (ps ! i))) [0..<length ps]"
    by (rule filter_cong) (auto simp: nth_append)
  then show ?thesis by (simp add: matches_def)
qed

lemma event_of_snoc:
  "flow_events (ps @ [p]) = flow_events ps @ (case flow_event_of (attribute (map fst ps) (fst p), snd p) of None \<Rightarrow> [] | Some e \<Rightarrow> [e])"
  "tunnel_events (ps @ [p]) = tunnel_events ps @ (case tunnel_event_of (attribute (map fst ps) (fst p), snd p) of None \<Rightarrow> [] | Some e \<Rightarrow> [e])"
  by (auto simp: flow_events_def tunnel_events_def attributed_snoc List.map_filter_def split: option.split)

lemma attribute_sels [simp]:
  "pi_status (attribute ps pi) = pi_status pi" "addr_ok (attribute ps pi) = addr_ok pi"
  "pi_has_l3 (attribute ps pi) = pi_has_l3 pi" "pi_ip_proto (attribute ps pi) = pi_ip_proto pi"
  "pi_has_l4 (attribute ps pi) = pi_has_l4 pi" "pi_tcp_flags (attribute ps pi) = pi_tcp_flags pi"
  "in_tunnel (attribute ps pi) = in_tunnel pi"
  by (auto simp: attribute_def addr_ok_def in_tunnel_def split: option.split)

section \<open>One packet\<close>

lemma stats_step_unmatched:
  "stats_step pi cap wire ts s s' \<Longrightarrow> stats_step pi cap wire ts (s\<lparr>s_frag_matched := 0\<rparr>) (s'\<lparr>s_frag_matched := 0\<rparr>)"
  by (simp add: stats_step_def ticks_by_def stats_counters_def)

lemma stats_step_matched: "stats_step pi cap wire ts s s' \<Longrightarrow> s_frag_matched s' = s_frag_matched s"
  by (simp add: stats_step_def ticks_by_def stats_counters_def)

lemma counted_step:
  assumes "counted ps s"
  shows "\<exists>s'. stats_add (if frag_matches (map fst ps) (fst p) then s\<lparr>s_frag_matched := s_frag_matched s + 1\<rparr> else s)
      (attribute (map fst ps) (fst p)) (pk_cap p) (pk_wire p) (pk_ts p) = Some s' \<and> counted (ps @ [p]) s'"
proof -
  let ?s = "if frag_matches (map fst ps) (fst p) then s\<lparr>s_frag_matched := s_frag_matched s + 1\<rparr> else s"
  let ?p = "(attribute (map fst ps) (fst p), snd p)"
  have s: "stats_ok ?s" "?s\<lparr>s_frag_matched := 0\<rparr> = s\<lparr>s_frag_matched := 0\<rparr>"
    "s_frag_matched ?s = of_nat (matches (ps @ [p]))"
    using assms by (simp_all add: counted_def stats_ok_def matches_snoc)
  obtain s' where s': "stats_add ?s (fst ?p) (pk_cap ?p) (pk_wire ?p) (pk_ts ?p) = Some s'"
      "stats_step (fst ?p) (pk_cap ?p) (pk_wire ?p) (pk_ts ?p) ?s s'"
    using stats_add_ok [OF s(1)] by blast
  have "stats_counts (attributed ps) (?s\<lparr>s_frag_matched := 0\<rparr>)" using assms s(2) by (simp add: counted_def)
  from stats_counts_step [OF this stats_step_unmatched [OF s'(2)]] s' s(3) stats_step_ok [OF s'(2)] stats_step_matched [OF s'(2)]
  have "counted (ps @ [p]) s'" by (simp add: counted_def attributed_snoc)
  with s'(1) show ?thesis by (auto simp: pk_cap_def pk_wire_def pk_ts_def)
qed

text \<open>An optional event for a table.\<close>

definition add_event :: "alloc \<Rightarrow> flow_table \<Rightarrow> flow_event option \<Rightarrow> (int \<times> flow_table) option" where
  "add_event al t eo = (case eo of None \<Rightarrow> Some (0, t) | Some e \<Rightarrow> table_add al t e)"

lemma add_event_ok:
  assumes "table.holds t es" "\<And>e. eo = Some e \<Longrightarrow> key_ok (ev_key e)"
  shows "\<exists>r t'. add_event al t eo = Some (r, t') \<and>
    (if r = 0 then table.holds t' (es @ (case eo of None \<Rightarrow> [] | Some e \<Rightarrow> [e])) else r = -1 \<and> t' = t)"
proof (cases eo)
  case (Some e)
  show ?thesis unfolding add_event_def Some option.case by (rule table.holds_add [OF assms(1) assms(2) [OF Some]])
qed (use assms(1) in \<open>simp add: add_event_def\<close>)

lemma add_event_room:
  assumes "table.holds t es" "\<And>e. eo = Some e \<Longrightarrow> key_ok (ev_key e)" "\<forall>n. al n" "0 < table_room t"
  shows "\<exists>t'. add_event al t eo = Some (0, t') \<and> table_room t \<le> Suc (table_room t')"
  using table_with_room.room_law [of t _ al] assms by (cases eo) (auto simp: add_event_def table.holds_def)

lemma add_packet_event:
  "pi_status pi = DEC_OK \<Longrightarrow> flow_table_add_packet al t pi wire ts = add_event al t (flow_event_of (pi, cap, wire, ts))"
  by (auto simp: flow_table_add_packet_def flow_event_of_def add_event_def table_add_def Let_def
      ev_rev_def ev_flags_def ev_len_def ev_ts_def split: option.split)

lemma add_tunnel_event:
  "in_tunnel pi \<Longrightarrow> flow_table_add_tunnel al t pi wire ts = add_event al t (tunnel_event_of (pi, cap, wire, ts))"
  by (auto simp: flow_table_add_tunnel_def tunnel_event_of_def add_event_def table_add_def
      ev_rev_def ev_flags_def ev_len_def ev_ts_def split: option.split)

lemma event_keys_ok:
  "addr_ok (fst q) \<Longrightarrow> flow_event_of q = Some e \<Longrightarrow> key_ok (ev_key e)"
  "addr_ok (fst q) \<Longrightarrow> tunnel_event_of q = Some e \<Longrightarrow> key_ok (ev_key e)"
  by (auto simp: flow_event_of_def tunnel_event_of_def dest: flow_key_ok tunnel_key_ok split: prod.splits if_splits)

text \<open>The handler for one packet, with the effects on each part named.\<close>

lemma analysis_account_parts:
  assumes c: "frag_cache_apply (a_frags a) pi = Some (m, c, pi')"
    and s: "stats_add (if m then (a_stats a)\<lparr>s_frag_matched := s_frag_matched (a_stats a) + 1\<rparr> else a_stats a) pi' cap wire ts = Some s"
    and q: "q = (pi', cap, wire, ts)"
  shows "analysis_account alf alt a pi cap wire ts =
    (let a = a\<lparr>a_frags := c, a_stats := s\<rparr> in
     do { (r, t) \<leftarrow> add_event alf (a_flows a) (flow_event_of q);
          let a = a\<lparr>a_flows := t\<rparr>;
          if r \<noteq> 0 then Some (-1, a, pi')
          else do {
            (r, t) \<leftarrow> add_event alt (a_tunnels a) (tunnel_event_of q);
            Some (if r \<noteq> 0 then -1 else 0, a\<lparr>a_tunnels := t\<rparr>, pi') }})"
proof (cases "pi_status pi' = DEC_OK")
  case False
  then have "flow_event_of q = None" "tunnel_event_of q = None"
    by (simp_all add: q flow_event_of_def tunnel_event_of_def in_tunnel_def)
  with False c s show ?thesis by (simp add: analysis_account_def add_event_def split: if_splits)
next
  case True
  note fl = add_packet_event [OF True, of alf _ wire ts cap]
  obtain rf tf where f: "add_event alf (a_flows a) (flow_event_of q) = None \<or> add_event alf (a_flows a) (flow_event_of q) = Some (rf, tf)"
    by (metis option.exhaust surj_pair)
  show ?thesis
  proof (cases "in_tunnel pi'")
    case yes: True
    then have cond: "pi_is_gtpu pi' \<and> pi_gtp_v1u pi' \<and> pi_gtp_msg_ok pi' \<and> pi_gtp_msg_type pi' = GTPU_MSG_GPDU"
      by (simp add: in_tunnel_def)
    show ?thesis using f True c s cond
      by (cases m; cases "rf = 0") (auto simp: analysis_account_def fl add_tunnel_event [OF yes, of _ _ wire ts cap] q Let_def)
  next
    case no: False
    then have cond: "\<not> (pi_is_gtpu pi' \<and> pi_gtp_v1u pi' \<and> pi_gtp_msg_ok pi' \<and> pi_gtp_msg_type pi' = GTPU_MSG_GPDU)"
      and none: "tunnel_event_of q = None"
      using True by (auto simp: in_tunnel_def tunnel_event_of_def q)
    show ?thesis using f True c s cond none
      by (cases m; cases "rf = 0") (auto simp: analysis_account_def fl q Let_def add_event_def [of _ _ None])
  qed
qed

lemma analysis_account_ok:
  assumes d: "describes ps ps ps a" and p: "addr_ok (fst p)"
  shows "\<exists>r a' pi'. analysis_account alf alt a (fst p) (pk_cap p) (pk_wire p) (pk_ts p) = Some (r, a', pi') \<and>
    (if r = 0 then describes (ps @ [p]) (ps @ [p]) (ps @ [p]) a'
     else r = -1 \<and> (describes (ps @ [p]) ps ps a' \<or> describes (ps @ [p]) (ps @ [p]) ps a')) \<and>
    ((\<forall>n. alf n \<and> alt n) \<and> 0 < table_room (a_flows a) \<and> 0 < table_room (a_tunnels a) \<longrightarrow> r = 0 \<and>
       table_room (a_flows a) \<le> Suc (table_room (a_flows a')) \<and> table_room (a_tunnels a) \<le> Suc (table_room (a_tunnels a')))"
proof -
  note d = d [unfolded describes_def]
  let ?pi = "attribute (map fst ps) (fst p)"
  let ?q = "(?pi, snd p)"
  have q: "?q = (?pi, pk_cap p, pk_wire p, pk_ts p)" by (simp add: pk_cap_def pk_wire_def pk_ts_def)
  have addrs: "\<forall>x\<in>set (map fst ps). addr_ok x" "\<forall>x\<in>set (ps @ [p]). addr_ok (fst x)" using d p by auto
  obtain c where c: "frag_cache_apply (a_frags a) (fst p) = Some (frag_matches (map fst ps) (fst p), c, ?pi)"
      "frag_rep c (map fst (ps @ [p]))"
    using frag_apply_attribute [OF _ addrs(1) p, of "a_frags a"] d by auto
  obtain s where s: "stats_add (if frag_matches (map fst ps) (fst p) then (a_stats a)\<lparr>s_frag_matched := s_frag_matched (a_stats a) + 1\<rparr> else a_stats a)
      ?pi (pk_cap p) (pk_wire p) (pk_ts p) = Some s" "counted (ps @ [p]) s"
    using counted_step [of ps "a_stats a" p] d by auto
  note run = analysis_account_parts [OF c(1) s(1) q, of alf alt]
  have keys: "flow_event_of ?q = Some e \<Longrightarrow> key_ok (ev_key e)" "tunnel_event_of ?q = Some e \<Longrightarrow> key_ok (ev_key e)" for e
    using event_keys_ok [of ?q] p by auto
  have hf: "table.holds (a_flows a) (flow_events ps)" and ht: "table.holds (a_tunnels a) (tunnel_events ps)" using d by auto
  obtain rf tf where f: "add_event alf (a_flows a) (flow_event_of ?q) = Some (rf, tf)"
      "if rf = 0 then table.holds tf (flow_events (ps @ [p])) else rf = -1 \<and> tf = a_flows a"
    using add_event_ok [OF hf, of "flow_event_of ?q" alf, OF keys(1)] unfolding event_of_snoc(1) by blast
  obtain rt tt where t: "add_event alt (a_tunnels a) (tunnel_event_of ?q) = Some (rt, tt)"
      "if rt = 0 then table.holds tt (tunnel_events (ps @ [p])) else rt = -1 \<and> tt = a_tunnels a"
    using add_event_ok [OF ht, of "tunnel_event_of ?q" alt, OF keys(2)] unfolding event_of_snoc(2) by blast
  have roomf: "rf = 0 \<and> table_room (a_flows a) \<le> Suc (table_room tf)" if "\<forall>n. alf n" "0 < table_room (a_flows a)"
    using add_event_room [OF hf, of "flow_event_of ?q", OF keys(1) that] f(1) by auto
  have roomt: "rt = 0 \<and> table_room (a_tunnels a) \<le> Suc (table_room tt)" if "\<forall>n. alt n" "0 < table_room (a_tunnels a)"
    using add_event_room [OF ht, of "tunnel_event_of ?q", OF keys(2) that] t(1) by auto
  show ?thesis
    using f t c(2) s(2) addrs(2) hf ht roomf roomt unfolding run
    by (cases "rf = 0"; cases "rt = 0") (auto simp: describes_def Let_def)
qed

section \<open>The loop\<close>

text \<open>The packet that a record decodes to.\<close>

definition decoded :: "pcap_record \<Rightarrow> pkt" where
  "decoded rec = (case rec_data rec of
     Some data \<Rightarrow> (case decode_frame data (ucast (rec_caplen rec)) (ucast (rec_wirelen rec)) of Some pi \<Rightarrow> pi | None \<Rightarrow> packet_info0)
   | None \<Rightarrow> packet_info0, rec_caplen rec, rec_wirelen rec, rec_ts_ns rec)"

lemma decoded_ok:
  assumes "rec_data rec = Some data" "length data = unat (rec_caplen rec)"
  shows "decode_frame data (ucast (rec_caplen rec)) (ucast (rec_wirelen rec)) = Some (fst (decoded rec)) \<and>
    frame_info False (fst (decoded rec)) \<and> addr_ok (fst (decoded rec)) \<and> pk_cap (decoded rec) = rec_caplen rec \<and> pk_wire (decoded rec) = rec_wirelen rec \<and>
    pk_ts (decoded rec) = rec_ts_ns rec"
proof -
  let ?full = "(ucast (rec_wirelen rec) :: size_t) \<le> ucast (rec_caplen rec)"
  have "wp (decode_frame data (ucast (rec_caplen rec)) (ucast (rec_wirelen rec))) (frame_info ?full)"
    using assms(2) by (intro decode_frame_run) simp
  then obtain pi where pi: "decode_frame data (ucast (rec_caplen rec)) (ucast (rec_wirelen rec)) = Some pi" "frame_info ?full pi"
    by (rule wpE)
  moreover from pi(2) have "frame_info False pi" unfolding frame_info_def by blast
  ultimately show ?thesis
    using frame_info_addr_ok [OF pi(2)] assms(1)
    by (simp add: decoded_def pk_cap_def pk_wire_def pk_ts_def)
qed

text \<open>Accounting a list of records, one after the other.\<close>

primrec analysis_over ::
    "(nat \<Rightarrow> alloc \<times> alloc) \<Rightarrow> nat \<Rightarrow> analysis \<Rightarrow> pcap_record list \<Rightarrow> pcap_status \<Rightarrow> (pcap_status \<times> analysis) option" where
  "analysis_over al k a [] st = Some (st, a)"
| "analysis_over al k a (rec # recs) st =
     Option.bind (rec_data rec) (\<lambda>data.
     Option.bind (decode_frame data (ucast (rec_caplen rec)) (ucast (rec_wirelen rec))) (\<lambda>pi.
     Option.bind (analysis_account (fst (al k)) (snd (al k)) a pi (rec_caplen rec) (rec_wirelen rec) (rec_ts_ns rec))
       (\<lambda>(c, a, pi). if c \<noteq> 0 then Some (PCAP_ERR_NOMEM, a) else analysis_over al (Suc k) a recs st)))"

context pcap_input
begin

text \<open>The loop ends, and what it leaves: all records, or, after a failed allocation, those up
  to the one whose flow or tunnel could not be stored.\<close>

lemma analysis_loop_ok:
  assumes "ok r" "r_error r = PCAP_OK" "describes ps ps ps a" "capture_records (r_info r) (rest r) = (recs, st)"
  shows "\<exists>st' a' r' m. analysis_loop al k a r rec = Some (st', a', r') \<and> ok r' \<and> m \<le> length recs \<and>
    (let qs = ps @ map decoded (take m recs) in
     (m = length recs \<and> st' = at_end r st \<and> describes qs qs qs a') \<or>
     (0 < m \<and> st' = PCAP_ERR_NOMEM \<and> (describes qs (butlast qs) (butlast qs) a' \<or> describes qs qs (butlast qs) a'))) \<and>
    ((\<forall>k n. fst (al k) n \<and> snd (al k) n) \<and> length recs \<le> table_room (a_flows a) \<and> length recs \<le> table_room (a_tunnels a) \<longrightarrow>
       st' = at_end r st)"
  using assms
proof (induction recs arbitrary: r ps a k rec)
  case Nil
  then have "next_record (r_info r) (rest r) = Inl st"
    by (auto simp: capture_records.simps [of "r_info r"] split: sum.splits prod.splits)
  moreover from this have "st \<noteq> PCAP_OK" by (rule next_record_Inl)
  ultimately show ?case using next_Inl [OF Nil.prems(1,2), of st rec] Nil.prems(3)
    by (subst analysis_loop.simps) (auto simp: Let_def)
next
  case (Cons x recs)
  obtain bs where nx: "next_record (r_info r) (rest r) = Inr (x, bs)" and cr: "capture_records (r_info r) bs = (recs, st)"
    using Cons.prems(4) by (auto simp: capture_records.simps [of "r_info r" "rest r"] split: sum.splits prod.splits)
  obtain r1 where r1: "pcap_next r rec = Some (PCAP_OK, r1, x)" "ok r1" "rest r1 = bs" "fault r1 = fault r"
      "r_info r1 = r_info r" "r_error r1 = PCAP_OK"
    using next_Inr [OF Cons.prems(1,2) nx, of rec] by (auto simp: meta_def)
  obtain data where data: "rec_data x = Some data" "length data = unat (rec_caplen x)"
    using next_record_bounds [OF nx] by blast
  note dec = decoded_ok [OF data]
  let ?p = "decoded x"
  let ?al = "\<forall>k n. fst (al k) n \<and> snd (al k) n"
  obtain c a1 pi' where acc: "analysis_account (fst (al k)) (snd (al k)) a (fst ?p) (pk_cap ?p) (pk_wire ?p) (pk_ts ?p) = Some (c, a1, pi')"
    and d: "if c = 0 then describes (ps @ [?p]) (ps @ [?p]) (ps @ [?p]) a1
       else c = -1 \<and> (describes (ps @ [?p]) ps ps a1 \<or> describes (ps @ [?p]) (ps @ [?p]) ps a1)"
    and room: "?al \<and> 0 < table_room (a_flows a) \<and> 0 < table_room (a_tunnels a) \<longrightarrow> c = 0 \<and>
       table_room (a_flows a) \<le> Suc (table_room (a_flows a1)) \<and> table_room (a_tunnels a) \<le> Suc (table_room (a_tunnels a1))"
    using analysis_account_ok [OF Cons.prems(3), of ?p "fst (al k)" "snd (al k)"] dec by blast
  have step: "analysis_loop al k a r rec = (if c \<noteq> 0 then Some (PCAP_ERR_NOMEM, a1, r1) else analysis_loop al (Suc k) a1 r1 x)"
    using r1(1) data(1) dec acc by (subst analysis_loop.simps) simp
  show ?case
  proof (cases "c = 0")
    case False
    with d step r1(2) room show ?thesis
      by (intro exI [of _ PCAP_ERR_NOMEM] exI [of _ a1] exI [of _ r1] exI [of _ 1]) (auto simp: Let_def butlast_append)
  next
    case True
    have same: "at_end r1 st = at_end r st" using r1(4) by (simp add: at_end_def)
    have d1: "describes (ps @ [?p]) (ps @ [?p]) (ps @ [?p]) a1" using d True by simp
    have cr1: "capture_records (r_info r1) (rest r1) = (recs, st)" using cr r1(3,5) by simp
    from Cons.IH [OF r1(2,6) d1 cr1, of "Suc k" x, unfolded same] obtain st' a' r' m where
      "analysis_loop al (Suc k) a1 r1 x = Some (st', a', r')" "ok r'" "m \<le> length recs"
      and "let qs = (ps @ [?p]) @ map decoded (take m recs) in
         (m = length recs \<and> st' = at_end r st \<and> describes qs qs qs a') \<or>
         (0 < m \<and> st' = PCAP_ERR_NOMEM \<and> (describes qs (butlast qs) (butlast qs) a' \<or> describes qs qs (butlast qs) a'))"
      and "?al \<and> length recs \<le> table_room (a_flows a1) \<and> length recs \<le> table_room (a_tunnels a1) \<longrightarrow> st' = at_end r st"
      by blast
    with step True room show ?thesis
      by (intro exI [of _ st'] exI [of _ a'] exI [of _ r'] exI [of _ "Suc m"]) (auto simp: Let_def)
  qed
qed

text \<open>The loop does exactly what accounting the records of the capture one by one does.\<close>

lemma analysis_loop_over:
  assumes "ok r" "r_error r = PCAP_OK" "capture_records (r_info r) (rest r) = (recs, st)"
  shows "map_option (\<lambda>(st, a, r). (st, a)) (analysis_loop al k a r rec) = analysis_over al k a recs (at_end r st)"
  using assms
proof (induction recs arbitrary: r a k rec)
  case Nil
  then have "next_record (r_info r) (rest r) = Inl st"
    by (auto simp: capture_records.simps [of "r_info r"] split: sum.splits prod.splits)
  moreover from this have "st \<noteq> PCAP_OK" by (rule next_record_Inl)
  ultimately show ?case using next_Inl [OF Nil.prems(1,2), of st rec]
    by (subst analysis_loop.simps) auto
next
  case (Cons x recs)
  obtain bs where nx: "next_record (r_info r) (rest r) = Inr (x, bs)" and cr: "capture_records (r_info r) bs = (recs, st)"
    using Cons.prems(3) by (auto simp: capture_records.simps [of "r_info r" "rest r"] split: sum.splits prod.splits)
  obtain r1 where r1: "pcap_next r rec = Some (PCAP_OK, r1, x)" "ok r1" "rest r1 = bs" "fault r1 = fault r"
      "r_info r1 = r_info r" "r_error r1 = PCAP_OK"
    using next_Inr [OF Cons.prems(1,2) nx, of rec] by (auto simp: meta_def)
  have same: "at_end r1 st = at_end r st" using r1(4) by (simp add: at_end_def)
  have cr1: "capture_records (r_info r1) (rest r1) = (recs, st)" using cr r1(3,5) by simp
  note IH = Cons.IH [OF r1(2,6) cr1, unfolded same]
  have step: "analysis_loop al k a r rec =
     Option.bind (rec_data x) (\<lambda>data.
     Option.bind (decode_frame data (ucast (rec_caplen x)) (ucast (rec_wirelen x))) (\<lambda>pi.
     Option.bind (analysis_account (fst (al k)) (snd (al k)) a pi (rec_caplen x) (rec_wirelen x) (rec_ts_ns x))
       (\<lambda>(c, a, pi). if c \<noteq> 0 then Some (PCAP_ERR_NOMEM, a, r1) else analysis_loop al (Suc k) a r1 x)))"
    using r1(1) by (subst analysis_loop.simps) simp
  show ?case unfolding step using IH
    by (auto simp: map_option_bind comp_def split: prod.split intro!: Option.bind_cong)
qed

end

section \<open>Start and end\<close>

lemma init_describes:
  assumes "analysis_init alf alt alc a0 = Some (0, a)"
  shows "describes [] [] [] a" "table_room (a_flows a) = 2 ^ 56" "table_room (a_tunnels a) = 2 ^ 56"
proof -
  obtain r1 t1 where 1: "flow_table_init alf 1024 = Some (r1, t1)" "flow_inv t1" "flows t1 = []" "r1 = 0 \<longrightarrow> t_capacity t1 \<noteq> 0"
    using flow_table_init_ok [of alf 1024] by (auto split: if_splits)
  obtain r2 t2 where 2: "flow_table_init alt 64 = Some (r2, t2)" "flow_inv t2" "flows t2 = []" "r2 = 0 \<longrightarrow> t_capacity t2 \<noteq> 0"
    using flow_table_init_ok [of alt 64] by (auto split: if_splits)
  from assms 1(1) 2(1) have a: "r1 = 0" "r2 = 0" "alc" "a = \<lparr>a_stats = stats_init, a_flows = t1, a_tunnels = t2, a_frags = snd (frag_cache_init True)\<rparr>"
    by (auto simp: analysis_init_def frag_cache_init_def Let_def split: if_splits)
  have "table.holds t1 []" "table.holds t2 []" using 1 2 by (simp_all add: table.holds_def lookup_def)
  moreover have "counted [] stats_init"
    using stats_init_counts by (simp add: counted_def attributed_def matches_def stats_init_def)
  ultimately show "describes [] [] [] a"
    using frag_rep_init by (simp add: describes_def a flow_events_def tunnel_events_def attributed_def List.map_filter_def)
  show "table_room (a_flows a) = 2 ^ 56" "table_room (a_tunnels a) = 2 ^ 56" using 1 2 a by (simp_all add: table_room_def)
qed

lemma init_sizes: "round_up 1024 16 = Some 1024" "round_up 64 16 = Some 64"
  by (simp_all add: round_up.simps)

lemma free_flow_table [simp]: "t_slots (flow_table_free t) = []" "t_capacity (flow_table_free t) = 0"
  by (simp_all add: flow_table_free_def)

lemma init_result:
  "\<exists>r t. flow_table_init al 1024 = Some (r, t) \<and> (if al 1024 then r = 0 else r = -1 \<and> t_slots t = [])"
  "\<exists>r t. flow_table_init al 64 = Some (r, t) \<and> (if al 64 then r = 0 else r = -1 \<and> t_slots t = [])"
  by (auto simp: flow_table_init_def init_sizes calloc_ok_def unsigned_minus_1_eq_mask mask_eq_exp_minus_1)

section \<open>Balance\<close>

lemma length_map_filter: "length (List.map_filter f xs) = length (filter (\<lambda>x. f x \<noteq> None) xs)"
  by (induction xs) (auto simp: List.map_filter_def)

lemma sum_map_filter: "sum_list (map h (List.map_filter f xs)) = sum_list (map (\<lambda>x. h (the (f x))) (filter (\<lambda>x. f x \<noteq> None) xs))"
  by (induction xs) (auto simp: List.map_filter_def)

definition in_flow :: "packet_info \<Rightarrow> bool" where
  "in_flow pi \<longleftrightarrow> pi_status pi = DEC_OK \<and> pi_has_l3 pi"

lemma has_flow_event: "flow_event_of p \<noteq> None \<longleftrightarrow> in_flow (fst p)"
  by (cases p) (auto simp: flow_event_of_def in_flow_def flow_key_from_packet_def Let_def)

lemma has_tunnel_event: "tunnel_event_of p \<noteq> None \<longleftrightarrow> in_tunnel (fst p)"
  by (cases p) (auto simp: tunnel_event_of_def in_tunnel_def tunnel_key_from_packet_def)

lemma tally_attributed:
  assumes "\<And>qs pi. P (attribute qs pi) = P pi"
  shows "tally P (attributed ps) = tally P ps"
  by (induction ps rule: rev_induct) (simp_all add: tally_snoc attributed_snoc assms, simp add: attributed_def)

lemma in_flow_attribute: "in_flow (attribute qs pi) = in_flow pi"
  by (simp add: in_flow_def)

lemma event_lengths:
  "of_nat (length (flow_events ps)) = tally in_flow ps" "of_nat (length (tunnel_events ps)) = tally in_tunnel ps"
  using tally_attributed [of in_flow ps] tally_attributed [of in_tunnel ps]
  unfolding flow_events_def tunnel_events_def length_map_filter has_flow_event has_tunnel_event
  by (simp_all add: tally_def in_flow_attribute)

text \<open>The lengths of the packets with a property, added up.\<close>

definition wire_sum :: "(packet_info \<Rightarrow> bool) \<Rightarrow> pkt list \<Rightarrow> u64" where
  "wire_sum P ps = sum_list (map (\<lambda>p. ucast (pk_wire p)) (filter (\<lambda>p. P (fst p)) ps))"

lemma wire_sum_attributed:
  assumes "\<And>qs pi. P (attribute qs pi) = P pi"
  shows "wire_sum P (attributed ps) = wire_sum P ps"
proof (induction ps rule: rev_induct)
  case Nil
  then show ?case by (simp add: attributed_def)
next
  case (snoc p ps)
  then show ?case by (simp add: wire_sum_def attributed_snoc assms pk_wire_def)
qed

lemma event_len:
  "flow_event_of p = Some e \<Longrightarrow> ev_len e = pk_wire p" "tunnel_event_of p = Some e \<Longrightarrow> ev_len e = pk_wire p"
  by (auto simp: flow_event_of_def tunnel_event_of_def ev_len_def pk_wire_def split: prod.splits if_splits)

lemma event_sums:
  "sum_list (map (\<lambda>e. ucast (ev_len e)) (flow_events ps)) = wire_sum in_flow ps"
  "sum_list (map (\<lambda>e. ucast (ev_len e)) (tunnel_events ps)) = wire_sum in_tunnel ps"
proof -
  have f: "sum_list (map (\<lambda>p. ucast (ev_len (the (flow_event_of p)))) (filter (\<lambda>p. in_flow (fst p)) qs)) = wire_sum in_flow qs" for qs
    unfolding wire_sum_def by (rule arg_cong [where f = sum_list], rule map_cong) (auto simp: event_len simp flip: has_flow_event)
  have t: "sum_list (map (\<lambda>p. ucast (ev_len (the (tunnel_event_of p)))) (filter (\<lambda>p. in_tunnel (fst p)) qs)) = wire_sum in_tunnel qs" for qs
    unfolding wire_sum_def by (rule arg_cong [where f = sum_list], rule map_cong) (auto simp: event_len simp flip: has_tunnel_event)
  show "sum_list (map (\<lambda>e. ucast (ev_len e)) (flow_events ps)) = wire_sum in_flow ps"
    "sum_list (map (\<lambda>e. ucast (ev_len e)) (tunnel_events ps)) = wire_sum in_tunnel ps"
    using f t wire_sum_attributed [of in_flow ps] wire_sum_attributed [of in_tunnel ps]
    unfolding flow_events_def tunnel_events_def sum_map_filter has_flow_event has_tunnel_event
    by (simp_all add: in_flow_attribute)
qed

lemma describes_totals:
  assumes "describes qs qs qs a"
  shows "sum_list (map f_packets (flows (a_flows a))) = tally in_flow qs"
    "sum_list (map f_bytes (flows (a_flows a))) = wire_sum in_flow qs"
    "sum_list (map f_packets (flows (a_tunnels a))) = tally in_tunnel qs"
    "sum_list (map f_bytes (flows (a_tunnels a))) = wire_sum in_tunnel qs"
  using assms holds_totals [of "a_flows a" "flow_events qs"] holds_totals [of "a_tunnels a" "tunnel_events qs"]
  by (simp_all add: describes_def event_lengths event_sums)

section \<open>Properties\<close>

text \<open>
  Starting is all or nothing. \<open>analysis_init\<close> succeeds exactly if its three allocations
  do, and then the analysis describes the empty capture. If one fails, it reports that and
  holds no slots: the tables allocated before have been freed.
\<close>

theorem analysis_init_all_or_nothing:
  "\<exists>r a'. analysis_init alf alt alc a = Some (r, a') \<and> (r = 0 \<longleftrightarrow> alf 1024 \<and> alt 64 \<and> alc) \<and>
    (if r = 0 then describes [] [] [] a'
     else r = -1 \<and> t_slots (a_flows a') = [] \<and> (alf 1024 \<longrightarrow> t_slots (a_tunnels a') = []) \<and>
       (alf 1024 \<and> alt 64 \<longrightarrow> c_slots (a_frags a') = None))"
proof -
  obtain r1 t1 where 1: "flow_table_init alf 1024 = Some (r1, t1)" "if alf 1024 then r1 = 0 else r1 = -1 \<and> t_slots t1 = []"
    using init_result(1) by blast
  obtain r2 t2 where 2: "flow_table_init alt 64 = Some (r2, t2)" "if alt 64 then r2 = 0 else r2 = -1 \<and> t_slots t2 = []"
    using init_result(2) by blast
  show ?thesis
  proof (cases "alf 1024 \<and> alt 64 \<and> alc")
    case True
    then have "\<exists>a'. analysis_init alf alt alc a = Some (0, a')"
      using 1 2 by (simp add: analysis_init_def frag_cache_init_def)
    then show ?thesis using True init_describes(1) by auto
  next
    case False
    then show ?thesis using 1 2
      by (cases "alf 1024"; cases "alt 64") (auto simp: analysis_init_def frag_cache_init_def Let_def)
  qed
qed

definition sample_analysis :: analysis where
  "sample_analysis = \<lparr>a_stats = stats_init, a_flows = \<lparr>t_slots = replicate 1024 flow0, t_capacity = 1024, t_count = 0\<rparr>,
     a_tunnels = \<lparr>t_slots = replicate 64 flow0, t_capacity = 64, t_count = 0\<rparr>, a_frags = snd (frag_cache_init True)\<rparr>"

lemma sample_analysis_init: "analysis_init (\<lambda>_. True) (\<lambda>_. True) True sample_analysis = Some (0, sample_analysis)"
  by (simp add: analysis_init_def flow_table_init_def init_sizes calloc_ok_def unsigned_minus_1_eq_mask mask_eq_exp_minus_1
      frag_cache_init_def sample_analysis_def)

theorem analysis_init_all_or_nothing_witness:
  "\<exists>a'. analysis_init (\<lambda>_. True) (\<lambda>_. True) False sample_analysis = Some (-1, a') \<and> t_slots (a_flows a') = [] \<and>
    t_slots (a_tunnels a') = []"
  using analysis_init_all_or_nothing [of "\<lambda>_. True" "\<lambda>_. True" False sample_analysis] by auto

lemma analysis_run_describes:
  assumes "analysis_init alf alt alc a0 = Some (0, a)" "unat len = length data"
    "pcap_open_mem data len = Some (PCAP_OK, r)" "capture data = (recs, est)"
  shows "\<exists>st a' r' m. analysis_run al a r rec = Some (st, a', r') \<and> m \<le> length recs \<and>
    (let qs = map decoded (take m recs) in
     (m = length recs \<and> st = est \<and> describes qs qs qs a') \<or>
     (0 < m \<and> st = PCAP_ERR_NOMEM \<and> (describes qs (butlast qs) (butlast qs) a' \<or> describes qs qs (butlast qs) a'))) \<and>
    ((\<forall>k n. fst (al k) n \<and> snd (al k) n) \<and> length recs \<le> 2 ^ 56 \<longrightarrow> st = est)"
proof -
  obtain r0 where "pcap_open_mem data len = Some (fst (global_header data), r0)" "mem_ok r0" "r_error r0 = fst (global_header data)"
      "fst (global_header data) = PCAP_OK \<longrightarrow> r_info r0 = snd (global_header data) \<and> mem_rest r0 = drop 24 data"
    using open_mem_reads [OF assms(2)] by blast
  with assms(3) have r: "mem_ok r" "r_error r = PCAP_OK" "r_info r = snd (global_header data)" "mem_rest r = drop 24 data"
      "fst (global_header data) = PCAP_OK" by auto
  then have "capture_records (r_info r) (mem_rest r) = (recs, est)" using assms(4) by (simp add: capture_def case_prod_beta)
  from mem.analysis_loop_ok [OF r(1,2) init_describes(1) [OF assms(1)] this, of al 0 rec]
  show ?thesis unfolding analysis_run_def init_describes(2,3) [OF assms(1)]
    by (simp add: mem.at_end_def mem_fault_def) blast
qed

text \<open>
  C5. The analysis of a capture. For every capture in memory that opens, and every pattern
  of allocation failures, the loop ends. If it does not run out of memory, it ends with the
  reason the capture ends, and the analysis describes all its records: the counters, the
  fragment cache, the flow table and the tunnel table are those of the decoded packets. If
  it does, the counters describe every record up to the one that could not be stored, and
  the tables the ones before. As long as allocations succeed and there are at most 2^56
  records, it does not.
\<close>

theorem analysis_run_describes_capture:
  assumes "analysis_init alf alt alc a0 = Some (0, a)" "unat len = length data"
    "pcap_open_mem data len = Some (PCAP_OK, r)" "capture data = (recs, est)"
  shows "\<exists>st a' r' m. analysis_run al a r rec = Some (st, a', r') \<and> m \<le> length recs \<and>
    (let qs = map decoded (take m recs) in
     (m = length recs \<and> st = est \<and> describes qs qs qs a') \<or>
     (0 < m \<and> st = PCAP_ERR_NOMEM \<and> (describes qs (butlast qs) (butlast qs) a' \<or> describes qs qs (butlast qs) a'))) \<and>
    ((\<forall>k n. fst (al k) n \<and> snd (al k) n) \<and> length recs \<le> 2 ^ 56 \<longrightarrow> st = est)"
  using analysis_run_describes [OF assms] .

lemma sample_capture_meaning: "capture sample_capture = ([sample_record], PCAP_EOF)"
proof -
  have cut: "take (24 + 19) sample_capture = sample_capture" using sample_capture_length by simp
  have "packet_record False (7, 5, 60, [1, 2, 3]) = sample_record"
    by (simp add: packet_record_def sample_record_def time_ns_def max_def)
  then show ?thesis
    using capture_cut(2) [of "[(7, 5, 60, [1, 2, 3])]" 19 False False 65535] cut
    by (simp add: sample_capture_def packet_ok_def)
qed

lemma sample_capture_opens: "\<exists>r. pcap_open_mem sample_capture 43 = Some (PCAP_OK, r)"
proof -
  have "take (24 + 19) sample_capture = sample_capture" using sample_capture_length by simp
  then have "fst (global_header sample_capture) = PCAP_OK"
    using capture_cut(1) [of "[(7, 5, 60, [1, 2, 3])]" 19 False False 65535] by (simp add: sample_capture_def packet_ok_def)
  then show ?thesis using open_mem_reads [of 43 sample_capture] sample_capture_length by auto
qed

theorem analysis_run_describes_capture_witness:
  "\<exists>r a' r'. pcap_open_mem sample_capture 43 = Some (PCAP_OK, r) \<and>
    analysis_run (\<lambda>_. (\<lambda>_. True, \<lambda>_. True)) sample_analysis r sample_record = Some (PCAP_EOF, a', r') \<and>
    describes [decoded sample_record] [decoded sample_record] [decoded sample_record] a'"
proof -
  obtain r where r: "pcap_open_mem sample_capture 43 = Some (PCAP_OK, r)" using sample_capture_opens by blast
  from analysis_run_describes_capture [OF sample_analysis_init _ r sample_capture_meaning, of "\<lambda>_. (\<lambda>_. True, \<lambda>_. True)" sample_record]
  show ?thesis using r by (auto simp: sample_capture_length Let_def)
qed

text \<open>
  The same analysis from a file. For a stream without read errors and the same bytes in
  memory, opening gives the same status, and if it succeeds the loop gives the same status
  and the same analysis (both return), for every pattern of allocation failures.
\<close>

theorem analysis_stream_equals_mem:
  assumes "length buf = 262144" "\<not> fp_fault fp" "\<not> fp_error fp" "unat len = length (fp_rest fp)"
    "pcap_open_stream (Some buf) (Some fp) = Some (PCAP_OK, r, closed)"
    "analysis_init alf alt alc a0 = Some (0, a)"
  shows "\<exists>r' st a' rm rs. pcap_open_mem (fp_rest fp) len = Some (PCAP_OK, r') \<and>
    analysis_run al a r rec = Some (st, a', rs) \<and> analysis_run al a r' rec' = Some (st, a', rm)"
proof -
  let ?data = "fp_rest fp"
  obtain recs est where cap: "capture ?data = (recs, est)" by (cases "capture ?data")
  have st: "header_status (fp_fault fp \<or> fp_error fp) ?data = fst (global_header ?data)"
    using assms(2,3) by (simp add: header_status_def)
  have fr: "fst (global_header ?data) = PCAP_OK" "file_ok r" "r_error r = PCAP_OK" "r_info r = snd (global_header ?data)"
      "file_rest r = drop 24 ?data" "\<not> file_fault r"
    using open_stream_reads [OF assms(1), of fp] assms(2,3,5) st by (auto simp: pcap_open_stream_def)
  then have crs: "capture_records (r_info r) (file_rest r) = (recs, est)" using cap by (simp add: capture_def case_prod_beta)
  obtain r' where r': "pcap_open_mem ?data len = Some (PCAP_OK, r')" "mem_ok r'" "r_error r' = PCAP_OK"
      "r_info r' = snd (global_header ?data)" "mem_rest r' = drop 24 ?data"
    using open_mem_reads [OF assms(4)] fr(1) by auto
  then have crm: "capture_records (r_info r') (mem_rest r') = (recs, est)" using crs fr by simp
  have over: "map_option (\<lambda>(st, a, r). (st, a)) (analysis_run al a r rec) = analysis_over al 0 a recs est"
    "map_option (\<lambda>(st, a, r). (st, a)) (analysis_run al a r' rec') = analysis_over al 0 a recs est"
    using stream.analysis_loop_over [OF fr(2,3) crs, of al 0 a rec] mem.analysis_loop_over [OF r'(2,3) crm, of al 0 a rec'] fr(6)
    by (simp_all add: analysis_run_def stream.at_end_def mem.at_end_def mem_fault_def)
  obtain st' a' rm where run: "analysis_run al a r' rec' = Some (st', a', rm)"
    using analysis_run_describes [OF assms(6,4) r'(1) cap, of al rec'] by blast
  with over have "map_option (\<lambda>(st, a, r). (st, a)) (analysis_run al a r rec) = Some (st', a')" by simp
  then obtain rs where "analysis_run al a r rec = Some (st', a', rs)"
    by (cases "analysis_run al a r rec") auto
  with run r'(1) show ?thesis by blast
qed

theorem analysis_stream_equals_mem_witness:
  "\<exists>r closed r' st a' rm rs. pcap_open_stream (Some (replicate 262144 0)) (Some sample_file) = Some (PCAP_OK, r, closed) \<and>
    pcap_open_mem sample_capture 43 = Some (PCAP_OK, r') \<and>
    analysis_run (\<lambda>_. (\<lambda>_. True, \<lambda>_. True)) sample_analysis r sample_record = Some (st, a', rs) \<and>
    analysis_run (\<lambda>_. (\<lambda>_. True, \<lambda>_. True)) sample_analysis r' sample_record = Some (st, a', rm)"
proof -
  have f: "\<not> fp_fault sample_file" "\<not> fp_error sample_file" "fp_rest sample_file = sample_capture"
    "length (replicate 262144 (0 :: u8)) = 262144" by (simp_all add: sample_file_def)
  have "fst (global_header sample_capture) = PCAP_OK"
    using sample_capture_opens open_mem_reads [of 43 sample_capture] sample_capture_length by auto
  then obtain r closed where r: "pcap_open_stream (Some (replicate 262144 0)) (Some sample_file) = Some (PCAP_OK, r, closed)"
    using open_stream_reads [OF f(4), of sample_file] f by (auto simp: pcap_open_stream_def header_status_def)
  have len: "unat (43 :: size_t) = length (fp_rest sample_file)" by (simp add: f(3) sample_capture_length)
  from analysis_stream_equals_mem [OF f(4,1,2) len r sample_analysis_init] r show ?thesis unfolding f(3) by blast
qed

text \<open>The same without failures.\<close>

lemma analysis_run_counts_all:
  assumes "analysis_init alf alt alc a0 = Some (0, a)" "unat len = length data"
    "pcap_open_mem data len = Some (PCAP_OK, r)" "capture data = (recs, est)"
    "\<forall>k n. fst (al k) n \<and> snd (al k) n" "length recs \<le> 2 ^ 56"
  shows "\<exists>a' r'. analysis_run al a r rec = Some (est, a', r') \<and>
    describes (map decoded recs) (map decoded recs) (map decoded recs) a'"
proof -
  obtain st a' r' m where run: "analysis_run al a r rec = Some (st, a', r')" and
    m: "let qs = map decoded (take m recs) in
     (m = length recs \<and> st = est \<and> describes qs qs qs a') \<or>
     (0 < m \<and> st = PCAP_ERR_NOMEM \<and> (describes qs (butlast qs) (butlast qs) a' \<or> describes qs qs (butlast qs) a'))"
    and st: "st = est"
    using analysis_run_describes [OF assms(1-4), of al rec] assms(5,6) by blast
  have "est \<noteq> PCAP_ERR_NOMEM" using capture_status [OF assms(4)] by blast
  with m st run show ?thesis by (auto simp: Let_def)
qed

definition gpdu :: "packet_info \<Rightarrow> bool" where
  "gpdu pi \<longleftrightarrow> v1u pi \<and> pi_gtp_msg_type pi = GTPU_MSG_GPDU"

lemma tally_split:
  assumes "\<And>p. p \<in> set ps \<Longrightarrow> P (fst p) \<longleftrightarrow> Q (fst p) \<or> R (fst p)" "\<And>p. p \<in> set ps \<Longrightarrow> \<not> (Q (fst p) \<and> R (fst p))"
  shows "tally P ps = tally Q ps + tally R ps"
  using tally_sum [of ps P "[Q, R]"] assms by (auto simp: tick_def)

lemma in_tunnel_gpdu: "frame_info full pi \<Longrightarrow> in_tunnel pi \<longleftrightarrow> gpdu pi \<and> pi_gtp_msg_ok pi"
proof -
  assume info: "frame_info full pi"
  have "decoded_gtpu pi = pi_is_gtpu pi" using frame_info_gtpu(1) [OF info] .
  moreover have "pi_is_gtpu pi \<longrightarrow> pi_status pi = DEC_OK" using info unfolding frame_info_def by blast
  ultimately show ?thesis by (auto simp: in_tunnel_def gpdu_def v1u_def)
qed

lemma gpdu_attribute: "gpdu (attribute qs pi) = gpdu pi"
  by (auto simp: gpdu_def v1u_def decoded_gtpu_def attribute_def later_ok_def split: option.split)

lemma capture_records_data:
  "capture_records info bs = (recs, st) \<Longrightarrow> rec \<in> set recs \<Longrightarrow>
   \<exists>data. rec_data rec = Some data \<and> length data = unat (rec_caplen rec)"
proof (induction info bs arbitrary: recs rule: capture_records.induct)
  case (1 info bs)
  show ?case
  proof (cases "next_record info bs")
    case (Inl st')
    then show ?thesis using "1.prems" by (simp add: capture_records_Inl [OF Inl])
  next
    case (Inr p)
    then obtain x bs' where p: "next_record info bs = Inr (x, bs')" by (cases p) auto
    then show ?thesis using "1.prems" "1.IH" [OF p] next_record_bounds [OF p]
      by (auto simp: capture_records_Inr [OF p] split: prod.splits)
  qed
qed

lemma decoded_records_info:
  "capture data = (recs, st) \<Longrightarrow> p \<in> set (map decoded recs) \<Longrightarrow> frame_info False (fst p)"
  using capture_records_data decoded_ok
  by (fastforce simp: capture_def split: prod.splits if_splits)

text \<open>Every packet has a property or does not have it.\<close>

lemma tally_complement: "tally P ps + tally (\<lambda>pi. \<not> P pi) ps = of_nat (length ps)"
  by (induction ps) (simp_all add: tally_def)

lemma wire_sum_complement: "wire_sum P ps + wire_sum (\<lambda>pi. \<not> P pi) ps = wire_sum (\<lambda>_. True) ps"
  by (induction ps) (simp_all add: wire_sum_def add.assoc add.left_commute)

lemma describes_wire_bytes:
  assumes "describes qs fs ts a"
  shows "s_wire_bytes (a_stats a) = wire_sum P qs + wire_sum (\<lambda>pi. \<not> P pi) qs"
proof -
  have "stats_counts (attributed qs) ((a_stats a)\<lparr>s_frag_matched := 0\<rparr>)" using assms by (simp add: describes_def counted_def)
  then have "s_wire_bytes (a_stats a) = wire_sum (\<lambda>_. True) (attributed qs)"
    by (simp add: stats_counts_def wire_sum_def)
  then show ?thesis using wire_sum_attributed [of "\<lambda>_. True" qs] wire_sum_complement [of P qs] by simp
qed

text \<open>
  C6. Nothing is lost or counted twice between the counters and the tables. When the analysis of a capture
  ends without running out of memory, the packets and the bytes of all flows and those of the packets that belong
  in no flow (a problem outside of a tunnel, or not IP) add up to the counters of packets and of bytes on the wire;
  within the frames counted with status \<open>DEC_OK\<close>, the packets of the flows and the
  non-IP frames; the bytes of all tunnels and of the packets that belong in no tunnel to the counter of bytes; and the packets of
  all tunnels and the G-PDUs whose GTP-U headers are broken to the counter of G-PDUs. The counters are taken modulo 2^64.
\<close>

theorem analysis_balance:
  assumes "analysis_init alf alt alc a0 = Some (0, a)" "unat len = length data"
    "pcap_open_mem data len = Some (PCAP_OK, r)" "capture data = (recs, est)"
    "analysis_run al a r rec = Some (st, a', r')" "st \<noteq> PCAP_ERR_NOMEM"
  shows "st = est \<and> (let qs = map decoded recs; s = a_stats a' in
    sum_list (map f_packets (flows (a_flows a'))) + tally (\<lambda>pi. \<not> in_flow pi) qs = s_packets s \<and>
    sum_list (map f_bytes (flows (a_flows a'))) + wire_sum (\<lambda>pi. \<not> in_flow pi) qs = s_wire_bytes s \<and>
    sum_list (map f_packets (flows (a_flows a'))) + tally (\<lambda>pi. pi_status pi = DEC_OK \<and> \<not> pi_has_l3 pi) qs =
      s_by_status s ! status_num DEC_OK \<and>
    sum_list (map f_bytes (flows (a_tunnels a'))) + wire_sum (\<lambda>pi. \<not> in_tunnel pi) qs = s_wire_bytes s \<and>
    sum_list (map f_packets (flows (a_tunnels a'))) +
      tally (\<lambda>pi. v1u pi \<and> pi_gtp_msg_type pi = GTPU_MSG_GPDU \<and> \<not> pi_gtp_msg_ok pi) qs = g_gpdu (s_gtpu s))"
proof -
  from analysis_run_describes [OF assms(1-4), of al rec] assms(5,6) have
    st: "st = est" and d: "describes (map decoded recs) (map decoded recs) (map decoded recs) a'"
    by (auto simp: Let_def)
  let ?qs = "map decoded recs"
  let ?s = "(a_stats a')\<lparr>s_frag_matched := 0\<rparr>"
  have c: "stats_counts (attributed ?qs) ?s" using d by (simp add: describes_def counted_def)
  have "s_packets (a_stats a') = of_nat (length ?qs)"
    using c [unfolded stats_counts_def stats_counters_def] by (simp add: tally_def attributed_def)
  then have packets: "s_packets (a_stats a') = tally in_flow ?qs + tally (\<lambda>pi. \<not> in_flow pi) ?qs"
    unfolding tally_complement .
  have "s_by_status ?s ! status_num DEC_OK = tally (\<lambda>pi. pi_status pi = DEC_OK) (attributed ?qs)"
    using c decode_status.distinct unfolding stats_counts_def by blast
  then have "s_by_status (a_stats a') ! status_num DEC_OK = tally (\<lambda>pi. pi_status pi = DEC_OK) ?qs"
    using tally_attributed [of "\<lambda>pi. pi_status pi = DEC_OK" ?qs] by simp
  also have "\<dots> = tally in_flow ?qs + tally (\<lambda>pi. pi_status pi = DEC_OK \<and> \<not> pi_has_l3 pi) ?qs"
    by (rule tally_split) (auto simp: in_flow_def)
  finally have ok: "s_by_status (a_stats a') ! status_num DEC_OK = \<dots>" .
  have "g_gpdu (s_gtpu (a_stats a')) = tally gpdu ?qs"
    using c [unfolded stats_counts_def gtpu_counters_def] tally_attributed [of gpdu ?qs] gpdu_attribute
    by (simp add: gpdu_def [abs_def])
  also have "\<dots> = tally in_tunnel ?qs + tally (\<lambda>pi. gpdu pi \<and> \<not> pi_gtp_msg_ok pi) ?qs"
  proof (rule tally_split)
    fix p assume "p \<in> set ?qs"
    from in_tunnel_gpdu [OF decoded_records_info [OF assms(4) this]]
    show "gpdu (fst p) \<longleftrightarrow> in_tunnel (fst p) \<or> gpdu (fst p) \<and> \<not> pi_gtp_msg_ok (fst p)"
      and "\<not> (in_tunnel (fst p) \<and> gpdu (fst p) \<and> \<not> pi_gtp_msg_ok (fst p))" by blast+
  qed
  finally have gpdus: "g_gpdu (s_gtpu (a_stats a')) = \<dots>" .
  show ?thesis
    using st packets ok gpdus describes_totals [OF d] describes_wire_bytes [OF d, of in_flow] describes_wire_bytes [OF d, of in_tunnel]
    by (simp add: Let_def gpdu_def conj_assoc)
qed

theorem analysis_balance_witness:
  "\<exists>r a' r'. pcap_open_mem sample_capture 43 = Some (PCAP_OK, r) \<and>
    analysis_run (\<lambda>_. (\<lambda>_. True, \<lambda>_. True)) sample_analysis r sample_record = Some (PCAP_EOF, a', r') \<and>
    sum_list (map f_packets (flows (a_flows a'))) + tally (\<lambda>pi. \<not> in_flow pi) [decoded sample_record] = s_packets (a_stats a') \<and>
    sum_list (map f_bytes (flows (a_flows a'))) + wire_sum (\<lambda>pi. \<not> in_flow pi) [decoded sample_record] = s_wire_bytes (a_stats a')"
proof -
  obtain r where r: "pcap_open_mem sample_capture 43 = Some (PCAP_OK, r)" using sample_capture_opens by blast
  have len: "unat (43 :: size_t) = length sample_capture" by (simp add: sample_capture_length)
  obtain a' r' where run: "analysis_run (\<lambda>_. (\<lambda>_. True, \<lambda>_. True)) sample_analysis r sample_record = Some (PCAP_EOF, a', r')"
    using analysis_run_counts_all [OF sample_analysis_init len r sample_capture_meaning, of "\<lambda>_. (\<lambda>_. True, \<lambda>_. True)" sample_record]
    by auto
  from analysis_balance [OF sample_analysis_init len r sample_capture_meaning run]
  show ?thesis using r run by (auto simp: Let_def)
qed

end
