(* ===== verification/Text.thy ===== *)
theory Text
  imports Prelude
begin

text \<open>
  What the program uses of \<open>printf\<close>: numbers in decimal and hexadecimal, padding to a
  width, and \<open>snprintf\<close> into a buffer of a given size. A C string is the list of its
  characters before the terminator. The second half is the specification side: reading a
  number back, and splitting a text at a separator.
\<close>

section \<open>Numbers\<close>

definition digit :: "nat \<Rightarrow> char" where
  "digit d = ''0123456789abcdef'' ! d"

text \<open>\<open>%u\<close> and \<open>%x\<close>: no sign, no leading zeros.\<close>

fun num_str :: "nat \<Rightarrow> nat \<Rightarrow> string" where
  "num_str base n =
     (if base < 2 \<or> n < base then [digit n] else num_str base (n div base) @ [digit (n mod base)])"

declare num_str.simps [simp del]

definition dec :: "nat \<Rightarrow> string" where
  "dec n = num_str 10 n"

definition hex :: "nat \<Rightarrow> string" where
  "hex n = num_str 16 n"

text \<open>A minimal width, filled with blanks on the left or on the right, or with zeros.\<close>

definition pad_left :: "char \<Rightarrow> nat \<Rightarrow> string \<Rightarrow> string" where
  "pad_left c w s = replicate (w - length s) c @ s"

definition pad_right :: "nat \<Rightarrow> string \<Rightarrow> string" where
  "pad_right w s = s @ replicate (w - length s) CHR '' ''"

text \<open>
  \<open>snprintf (buf, len, ...)\<close> with \<open>len > 0\<close>: the buffer then holds as much of the text as
  fits before the terminator.
\<close>

definition snprintf :: "nat \<Rightarrow> string \<Rightarrow> string" where
  "snprintf len s = take (len - 1) s"

lemma snprintf_fits: "length s < len \<Longrightarrow> snprintf len s = s"
  by (simp add: snprintf_def)

section \<open>Reading numbers back\<close>

definition digit_val :: "char \<Rightarrow> nat" where
  "digit_val c = (let k = of_char c in if k < 58 then k - 48 else k - 87)"

definition num_val :: "nat \<Rightarrow> string \<Rightarrow> nat" where
  "num_val base s = foldl (\<lambda>v c. v * base + digit_val c) 0 s"

lemma digits_ok: "list_all (\<lambda>d. digit_val (digit d) = d \<and> digit d \<in> set ''0123456789abcdef'' \<and>
    (d < 10 \<longrightarrow> digit d \<in> set ''0123456789'')) [0..<16]"
  by code_simp

lemma digit_val_digit: "d < 16 \<Longrightarrow> digit_val (digit d) = d"
  using digits_ok by (auto simp: list_all_iff)

lemma digit_in: "d < 16 \<Longrightarrow> digit d \<in> set ''0123456789abcdef''"
  "d < 10 \<Longrightarrow> digit d \<in> set ''0123456789''"
  using digits_ok by (auto simp: list_all_iff simp del: list.set)

lemma num_val_snoc [simp]: "num_val b (s @ [c]) = num_val b s * b + digit_val c"
  by (simp add: num_val_def)

lemma num_val_num_str: "2 \<le> b \<Longrightarrow> b \<le> 16 \<Longrightarrow> num_val b (num_str b n) = n"
proof (induction b n rule: num_str.induct)
  case (1 b n)
  show ?case
  proof (cases "n < b")
    case True
    then show ?thesis using 1 by (simp add: num_str.simps [of b n] num_val_def digit_val_digit)
  next
    case False
    moreover have "n mod b < 16" using 1 by (simp add: less_le_trans [OF mod_less_divisor])
    ultimately show ?thesis using 1 by (simp add: num_str.simps [of b n] digit_val_digit)
  qed
qed

lemma num_str_set:
  assumes "2 \<le> b" "b \<le> 16" "\<And>d. d < b \<Longrightarrow> digit d \<in> D"
  shows "set (num_str b n) \<subseteq> D"
  using assms by (induction b n rule: num_str.induct) (subst num_str.simps, auto)

lemma num_str_nonempty [simp]: "num_str b n \<noteq> []"
  by (subst num_str.simps) simp

lemma num_str_length: "n < b ^ k \<Longrightarrow> 0 < k \<Longrightarrow> 2 \<le> b \<Longrightarrow> length (num_str b n) \<le> k"
proof (induction b n arbitrary: k rule: num_str.induct)
  case (1 b n)
  show ?case
  proof (cases "n < b")
    case True
    then show ?thesis using 1 by (subst num_str.simps) simp
  next
    case False
    then obtain k' where k: "k = Suc k'" "0 < k'"
      using 1 by (cases k; cases "k - 1") auto
    then have "n div b < b ^ k'"
      using 1 by (simp add: div_less_iff_less_mult mult.commute)
    then have "length (num_str b (n div b)) \<le> k'"
      using 1 False k by simp
    then show ?thesis using False 1 k by (subst num_str.simps) simp
  qed
qed

lemma dec_val [simp]: "num_val 10 (dec n) = n"
  by (simp add: dec_def num_val_num_str)

lemma hex_val [simp]: "num_val 16 (hex n) = n"
  by (simp add: hex_def num_val_num_str)

lemma dec_eq_iff [simp]: "dec m = dec n \<longleftrightarrow> m = n"
  by (metis dec_val)

lemma hex_eq_iff [simp]: "hex m = hex n \<longleftrightarrow> m = n"
  by (metis hex_val)

lemma dec_nonempty [simp]: "dec n \<noteq> []" and hex_nonempty [simp]: "hex n \<noteq> []"
  by (simp_all add: dec_def hex_def)

lemma dec_set: "set (dec n) \<subseteq> set ''0123456789''"
  unfolding dec_def by (rule num_str_set) (simp_all add: digit_in del: list.set)

lemma hex_set: "set (hex n) \<subseteq> set ''0123456789abcdef''"
  unfolding hex_def by (rule num_str_set) (simp_all add: digit_in del: list.set)

lemma dec_no: "c \<notin> set ''0123456789'' \<Longrightarrow> c \<notin> set (dec n)"
  using dec_set by blast

lemma hex_no: "c \<notin> set ''0123456789abcdef'' \<Longrightarrow> c \<notin> set (hex n)"
  using hex_set by blast

lemma dec_length: "n < 10 ^ k \<Longrightarrow> 0 < k \<Longrightarrow> length (dec n) \<le> k"
  by (simp add: dec_def num_str_length)

lemma hex_length: "n < 16 ^ k \<Longrightarrow> 0 < k \<Longrightarrow> length (hex n) \<le> k"
  by (simp add: hex_def num_str_length)

lemma num_val_zeros [simp]: "num_val b (replicate k CHR ''0'' @ s) = num_val b s"
proof -
  have "foldl (\<lambda>v c. v * b + digit_val c) 0 (replicate k CHR ''0'') = 0"
    by (induction k) (simp_all add: digit_val_def)
  then show ?thesis by (simp add: num_val_def)
qed

section \<open>Separated fields\<close>

fun split_on :: "char \<Rightarrow> string \<Rightarrow> string list" where
  "split_on c [] = [[]]"
| "split_on c (x # s) =
     (if x = c then [] # split_on c s else (x # hd (split_on c s)) # tl (split_on c s))"

fun join :: "string \<Rightarrow> string list \<Rightarrow> string" where
  "join sep [] = []"
| "join sep [f] = f"
| "join sep (f # fs) = f @ sep @ join sep fs"

lemma split_on_last: "c \<notin> set f \<Longrightarrow> split_on c f = [f]"
  by (induction f) auto

lemma split_on_field: "c \<notin> set f \<Longrightarrow> split_on c (f @ c # s) = f # split_on c s"
  by (induction f) auto

lemma split_on_field1: "split_on c (c # s) = [] # split_on c s"
  by simp

lemma join_Cons: "fs \<noteq> [] \<Longrightarrow> join sep (f # fs) = f @ sep @ join sep fs"
  by (cases fs) auto

lemma split_on_join: "fs \<noteq> [] \<Longrightarrow> \<forall>f\<in>set fs. c \<notin> set f \<Longrightarrow> split_on c (join [c] fs) = fs"
proof (induction fs)
  case (Cons f fs)
  then show ?case by (cases "fs = []") (simp_all add: join_Cons split_on_last split_on_field)
qed simp

lemma join_set: "set (join sep fs) \<subseteq> (\<Union>f\<in>set fs. set f) \<union> set sep"
  by (induction sep fs rule: join.induct) auto

lemma split_on_not_Nil [simp]: "split_on c s \<noteq> []"
  by (cases s) auto

lemma split_on_append:
  "split_on c (s @ c # t) = split_on c s @ split_on c t"
  by (induction s) (auto simp: split_on_not_Nil)

lemma join_concat: "join [c] (f # fs) = f @ concat (map ((#) c) fs)"
  by (induction fs arbitrary: f) auto

lemma join_length: "\<forall>f\<in>set fs. length f \<le> k \<Longrightarrow> length (join [c] fs) \<le> (k + 1) * length fs - 1"
proof (induction fs)
  case (Cons f fs)
  then show ?case by (cases fs) auto
qed simp

text \<open>Evaluation of printed numbers.\<close>

lemmas num_eval = dec_def hex_def num_str.simps digit_def

end
