(* ===== verification/Addr.thy ===== *)
theory Addr
  imports Bytes Text
begin

text \<open>
  \<open>addr.c\<close>: addresses as text. A read outside the address, outside the array of groups,
  or a write that would move the position past the temporary buffer, has no value; nor has
  a loop that does not end.
\<close>

section \<open>The program\<close>

abbreviation (input) ADDR_STR_LEN :: nat where "ADDR_STR_LEN \<equiv> 46"

text \<open>\<open>%u.%u.%u.%u\<close>\<close>

definition dotted :: "u8 \<Rightarrow> u8 \<Rightarrow> u8 \<Rightarrow> u8 \<Rightarrow> string" where
  "dotted b0 b1 b2 b3 = dec (unat b0) @ ''.'' @ dec (unat b1) @ ''.'' @ dec (unat b2) @ ''.'' @ dec (unat b3)"

fun all_zero :: "u8 list \<Rightarrow> nat \<Rightarrow> nat \<Rightarrow> bool option" where
  "all_zero a i 0 = Some True"
| "all_zero a i (Suc n) = do { x \<leftarrow> rd8 a i; if x \<noteq> 0 then Some False else all_zero a (i + 1) n }"

definition is_v4_mapped :: "u8 list \<Rightarrow> bool option" where
  "is_v4_mapped a = do {
     zeros \<leftarrow> all_zero a 0 10;
     if \<not> zeros then Some False
     else do {
       x \<leftarrow> rd8 a 10;
       if x \<noteq> 0xff then Some False else do { y \<leftarrow> rd8 a 11; Some (y = 0xff) } } }"

text \<open>The loop that fills \<open>groups\<close>.\<close>

fun load_groups :: "u8 list \<Rightarrow> nat \<Rightarrow> nat \<Rightarrow> cuint list option" where
  "load_groups a i 0 = Some []"
| "load_groups a i (Suc n) = do {
     g \<leftarrow> load_be16 a (2 * i);
     gs \<leftarrow> load_groups a (i + 1) n;
     Some (ucast g # gs) }"

text \<open>The inner loop: the end of the run of zero groups at \<open>j\<close>.\<close>

function run_end :: "cuint list \<Rightarrow> nat \<Rightarrow> nat option" where
  "run_end g j = 
     (if j < 8 then (case rd g j of None \<Rightarrow> None | Some x \<Rightarrow> if x = 0 then run_end g (j + 1) else Some j)
      else Some j)"
  by pat_completeness auto
termination by (relation "measure (\<lambda>(g, j). 8 - j)") auto

declare run_end.simps [simp del]

partial_function (option) best_run :: "cuint list \<Rightarrow> nat \<Rightarrow> int \<Rightarrow> nat \<Rightarrow> (int \<times> nat) option" where
  "best_run g i best_start best_len =
     (if i < 8 then (case rd g i of None \<Rightarrow> None | Some x \<Rightarrow>
        if x \<noteq> 0 then best_run g (i + 1) best_start best_len
        else (case run_end g i of None \<Rightarrow> None | Some j \<Rightarrow>
          if j - i > best_len then best_run g j (int i) (j - i) else best_run g j best_start best_len))
      else Some (best_start, best_len))"

declare best_run.simps [code]

text \<open>
  One \<open>snprintf (tmp + pos, sizeof tmp - pos, ...)\<close> with \<open>pos\<close> moved by its result, where
  \<open>tmp\<close> is what has been written so far. A text that does not fit would move \<open>pos\<close> past
  the end of \<open>tmp\<close>, where the terminator is stored at last.
\<close>

definition emit :: "string \<Rightarrow> string \<Rightarrow> string option" where
  "emit tmp s = (if length tmp + length s < ADDR_STR_LEN then Some (tmp @ s) else None)"

text \<open>One group: the colon before it, unless it is the first or follows the \<open>::\<close>, and its digits.\<close>

definition emit_group :: "int \<Rightarrow> nat \<Rightarrow> nat \<Rightarrow> string \<Rightarrow> cuint option \<Rightarrow> string option" where
  "emit_group best_start best_len i tmp gr = do {
     tmp \<leftarrow> (if i > 0 \<and> \<not> (best_start \<ge> 0 \<and> int i = best_start + int best_len) then emit tmp '':''
            else Some tmp);
     x \<leftarrow> gr;
     emit tmp (hex (unat x)) }"

partial_function (option) emit_groups ::
    "cuint list \<Rightarrow> int \<Rightarrow> nat \<Rightarrow> nat \<Rightarrow> string \<Rightarrow> string option" where
  "emit_groups g best_start best_len i tmp =
     (if i < 8 then
        if int i = best_start then
          (case emit tmp ''::'' of None \<Rightarrow> None | Some tmp' \<Rightarrow>
             emit_groups g best_start best_len (i + best_len) tmp')
        else
          (case emit_group best_start best_len i tmp (rd g i) of None \<Rightarrow> None | Some tmp' \<Rightarrow>
             emit_groups g best_start best_len (i + 1) tmp')
      else Some tmp)"

declare emit_groups.simps [code]

definition format_ipv6 :: "u8 list \<Rightarrow> nat \<Rightarrow> string option" where
  "format_ipv6 a len = do {
     mapped \<leftarrow> is_v4_mapped a;
     if mapped then do {
       b0 \<leftarrow> rd8 a 12; b1 \<leftarrow> rd8 a 13; b2 \<leftarrow> rd8 a 14; b3 \<leftarrow> rd8 a 15;
       Some (snprintf len (''::ffff:'' @ dotted b0 b1 b2 b3)) }
     else do {
       groups \<leftarrow> load_groups a 0 8;
       (best_start, best_len) \<leftarrow> best_run groups 0 (- 1) 0;
       tmp \<leftarrow> emit_groups groups (if best_len < 2 then - 1 else best_start) best_len 0 [];
       Some (snprintf len tmp) } }"

text \<open>With a buffer of length 0 nothing is written.\<close>

definition addr_format :: "int \<Rightarrow> u8 list \<Rightarrow> string \<Rightarrow> nat \<Rightarrow> string option" where
  "addr_format ip_version addr buf len =
     (if len = 0 then Some buf
      else if ip_version = 4 then do {
        b0 \<leftarrow> rd8 addr 0; b1 \<leftarrow> rd8 addr 1; b2 \<leftarrow> rd8 addr 2; b3 \<leftarrow> rd8 addr 3;
        Some (snprintf len (dotted b0 b1 b2 b3)) }
      else if ip_version = 6 then format_ipv6 addr len
      else Some (snprintf len ''?''))"

section \<open>What the loops compute\<close>

definition group_at :: "u8 list \<Rightarrow> nat \<Rightarrow> cuint" where
  "group_at a i = ucast (be16 (a ! (2 * i)) (a ! (2 * i + 1)))"

text \<open>The eight groups of an IPv6 address, and a run of zero groups.\<close>

definition groups_of :: "u8 list \<Rightarrow> cuint list" where
  "groups_of a = map (group_at a) [0..<8]"

definition zero_run :: "cuint list \<Rightarrow> nat \<Rightarrow> nat \<Rightarrow> bool" where
  "zero_run g s n \<longleftrightarrow> s + n \<le> length g \<and> (\<forall>k\<in>{s..<s + n}. g ! k = 0)"

lemma length_groups_of [simp]: "length (groups_of a) = 8"
  by (simp add: groups_of_def)

lemma load_groups_ok: "2 * (i + n) \<le> length a \<Longrightarrow> load_groups a i n = Some (map (group_at a) [i..<i + n])"
proof (induction n arbitrary: i)
  case (Suc n)
  then have "load_groups a (i + 1) n = Some (map (group_at a) [i + 1..<i + 1 + n])" by simp
  moreover have "[i..<i + Suc n] = i # [i + 1..<i + 1 + n]"
    by (simp add: upt_conv_Cons del: upt_Suc)
  ultimately show ?case
    using Suc.prems by (simp add: load_be16_in group_at_def)
qed simp

lemma run_end_ok:
  "length g = 8 \<Longrightarrow> j \<le> 8 \<Longrightarrow>
    \<exists>k. run_end g j = Some k \<and> j \<le> k \<and> k \<le> 8 \<and> (\<forall>m\<in>{j..<k}. g ! m = 0) \<and> (k < 8 \<longrightarrow> g ! k \<noteq> 0)"
proof (induction g j rule: run_end.induct)
  case (1 g j)
  show ?case
  proof (cases "j < 8 \<and> g ! j = 0")
    case True
    then obtain k where "run_end g (j + 1) = Some k" "j + 1 \<le> k" "k \<le> 8"
        "\<forall>m\<in>{j + 1..<k}. g ! m = 0" "k < 8 \<longrightarrow> g ! k \<noteq> 0"
      using 1 by (auto simp: rd_def)
    moreover from this True have "\<forall>m\<in>{j..<k}. g ! m = 0"
      by (metis Suc_eq_plus1 Suc_leI atLeastLessThan_iff le_neq_implies_less)
    ultimately show ?thesis
      using True 1 by (auto simp: run_end.simps [of g j] rd_def)
  next
    case False
    then show ?thesis using 1 by (auto simp: run_end.simps [of g j] rd_def)
  qed
qed

text \<open>
  The state of the search at \<open>i\<close>: no run of zeros crosses \<open>i\<close>, and the best run so far is
  the first of the longest runs before \<open>i\<close>.
\<close>

definition best_inv :: "cuint list \<Rightarrow> nat \<Rightarrow> int \<Rightarrow> nat \<Rightarrow> bool" where
  "best_inv g i bs bl \<longleftrightarrow>
     (\<forall>s n. zero_run g s n \<longrightarrow> s < i \<longrightarrow> s + n \<le> i \<and> n \<le> bl \<and> (0 < n \<and> n = bl \<longrightarrow> bs \<le> int s)) \<and>
     (0 < bl \<longrightarrow> 0 \<le> bs \<and> zero_run g (nat bs) bl \<and> nat bs + bl \<le> i)"

lemma best_inv_skip:
  assumes "best_inv g i bs bl" "i < length g" "g ! i \<noteq> 0"
  shows "best_inv g (i + 1) bs bl"
proof -
  have "n = 0" if "zero_run g i n" for n
    using that assms(3) by (cases n) (auto simp: zero_run_def)
  moreover have "s < i \<or> s = i" if "s < i + 1" for s
    using that by auto
  ultimately show ?thesis
    using assms(1) unfolding best_inv_def by fastforce
qed

lemma best_inv_run:
  assumes "best_inv g i bs bl" "i < j" "j \<le> length g" "\<forall>m\<in>{i..<j}. g ! m = 0" "j < length g \<longrightarrow> g ! j \<noteq> 0"
  shows "best_inv g j (if bl < j - i then int i else bs) (max bl (j - i))"
proof -
  have cross: "s + n \<le> j" if "zero_run g s n" "s < j" for s n
  proof (rule ccontr)
    assume "\<not> s + n \<le> j"
    then have "j \<in> {s..<s + n}" "j < length g"
      using that by (auto simp: zero_run_def)
    then show False using assms(5) that(1) by (auto simp: zero_run_def)
  qed
  have run: "zero_run g i (j - i)"
    using assms by (auto simp: zero_run_def)
  have old: "s + n \<le> i \<and> n \<le> bl \<and> (0 < n \<and> n = bl \<longrightarrow> bs \<le> int s)" if "zero_run g s n" "s < i" for s n
    using assms(1) that by (auto simp: best_inv_def)
  have best: "0 < bl \<longrightarrow> 0 \<le> bs \<and> zero_run g (nat bs) bl \<and> nat bs + bl \<le> i"
    using assms(1) by (simp add: best_inv_def)
  show ?thesis
    unfolding best_inv_def
  proof (intro conjI allI impI)
    fix s n assume r: "zero_run g s n" and "s < j"
    show "s + n \<le> j" using cross r \<open>s < j\<close> .
    show "n \<le> max bl (j - i)"
      using old [OF r] cross [OF r \<open>s < j\<close>] by (cases "s < i") auto
    show "(if bl < j - i then int i else bs) \<le> int s" if "0 < n \<and> n = max bl (j - i)"
      using that old [OF r] cross [OF r \<open>s < j\<close>] best by (cases "s < i") (auto split: if_splits)
  qed (use run best assms(2) in \<open>auto simp: max_def\<close>)
qed

lemma best_run_ok:
  "length g = 8 \<Longrightarrow> i \<le> 8 \<Longrightarrow> best_inv g i bs bl \<Longrightarrow> \<exists>bs' bl'. best_run g i bs bl = Some (bs', bl') \<and> best_inv g 8 bs' bl'"
proof (induction "8 - i" arbitrary: i bs bl rule: less_induct)
  case less
  consider "i = 8" | "i < 8" "g ! i \<noteq> 0" | "i < 8" "g ! i = 0"
    using less.prems by linarith
  then show ?case
  proof cases
    case 1
    then show ?thesis using less.prems by (simp add: best_run.simps)
  next
    case 2
    then have "best_inv g (i + 1) bs bl"
      using less.prems best_inv_skip by simp
    then show ?thesis
      using less.hyps [of "i + 1"] 2 less.prems by (subst best_run.simps) (simp add: rd_def)
  next
    case 3
    obtain j where j: "run_end g i = Some j" "i \<le> j" "j \<le> 8" "\<forall>m\<in>{i..<j}. g ! m = 0" "j < 8 \<longrightarrow> g ! j \<noteq> 0"
      using run_end_ok [of g i] less.prems by auto
    with 3 have "i < j" by (cases "i = j") auto
    then have "best_inv g j (if bl < j - i then int i else bs) (max bl (j - i))"
      using best_inv_run [of g i bs bl j] j less.prems by simp
    then show ?thesis
      using less.hyps [of j "if bl < j - i then int i else bs" "max bl (j - i)"] 3 j \<open>i < j\<close> less.prems
      by (subst best_run.simps) (auto simp: rd_def max_def not_less)
  qed
qed

end
