(* ===== verification/Addr_Props.thy ===== *)
theory Addr_Props
  imports Addr
begin

text \<open>
  What the address formatter guarantees: the RFC 5952 form, that the temporary buffer and
  the callers' buffers are large enough, and that the text determines the address.
\<close>

section \<open>The text that is written\<close>

text \<open>Groups \<open>i\<close> to \<open>j\<close> with the colons the loop puts before them.\<close>

definition colon_text :: "cuint list \<Rightarrow> int \<Rightarrow> nat \<Rightarrow> nat \<Rightarrow> nat \<Rightarrow> string" where
  "colon_text g bs bl i j =
     concat (map (\<lambda>k. (if 0 < k \<and> \<not> (0 \<le> bs \<and> int k = bs + int bl) then '':'' else []) @ hex (unat (g ! k))) [i..<j])"

lemma group_length: "g \<in> range (ucast :: u16 \<Rightarrow> cuint) \<Longrightarrow> length (hex (unat g)) \<le> 4"
  using unat_u16 by (auto intro!: hex_length)

lemma colon_text_nil [simp]: "colon_text g bs bl i i = []"
  by (simp add: colon_text_def)

lemma colon_text_step:
  "i < j \<Longrightarrow> colon_text g bs bl i j =
    ((if 0 < i \<and> \<not> (0 \<le> bs \<and> int i = bs + int bl) then '':'' else []) @ hex (unat (g ! i))) @ colon_text g bs bl (i + 1) j"
  by (simp add: colon_text_def upt_conv_Cons del: upt_Suc)

definition groups_ok :: "cuint list \<Rightarrow> bool" where
  "groups_ok g \<longleftrightarrow> length g = 8 \<and> set g \<subseteq> range (ucast :: u16 \<Rightarrow> cuint)"

lemma groups_of_ok: "groups_ok (groups_of a)"
  by (auto simp: groups_ok_def groups_of_def group_at_def)

lemma group_ok_at: "groups_ok g \<Longrightarrow> i < 8 \<Longrightarrow> length (hex (unat (g ! i))) \<le> 4"
  by (rule group_length) (auto simp: groups_ok_def)

lemma emit_group_ok:
  assumes "groups_ok g" "i < 8" "length tmp + 5 < ADDR_STR_LEN"
  shows "emit_group bs bl i tmp (rd g i) =
    Some (tmp @ (if 0 < i \<and> \<not> (0 \<le> bs \<and> int i = bs + int bl) then '':'' else []) @ hex (unat (g ! i)))"
  using group_ok_at [OF assms(1,2)] assms by (auto simp: emit_group_def emit_def groups_ok_def)

lemma emit_rest:
  "groups_ok g \<Longrightarrow> i \<le> 8 \<Longrightarrow> \<forall>k\<in>{i..<8}. int k \<noteq> bs \<Longrightarrow> length tmp + 5 * (8 - i) < ADDR_STR_LEN \<Longrightarrow>
    emit_groups g bs bl i tmp = Some (tmp @ colon_text g bs bl i 8)"
proof (induction "8 - i" arbitrary: i tmp rule: less_induct)
  case less
  show ?case
  proof (cases "i = 8")
    case True
    then show ?thesis by (simp add: emit_groups.simps)
  next
    case False
    let ?t = "(if 0 < i \<and> \<not> (0 \<le> bs \<and> int i = bs + int bl) then '':'' else []) @ hex (unat (g ! i))"
    have "i < 8" using False less.prems by simp
    have "length ?t \<le> 5" using group_ok_at [OF less.prems(1) \<open>i < 8\<close>] by simp
    then have "emit_groups g bs bl (i + 1) (tmp @ ?t) = Some ((tmp @ ?t) @ colon_text g bs bl (i + 1) 8)"
      using less.prems \<open>i < 8\<close> by (intro less.hyps) auto
    moreover have "emit_group bs bl i tmp (rd g i) = Some (tmp @ ?t)"
      using emit_group_ok [OF less.prems(1) \<open>i < 8\<close>] less.prems \<open>i < 8\<close> by simp
    ultimately show ?thesis
      using \<open>i < 8\<close> less.prems(3) by (subst emit_groups.simps) (simp add: colon_text_step)
  qed
qed

lemma emit_run:
  "groups_ok g \<Longrightarrow> i \<le> s \<Longrightarrow> s + n \<le> 8 \<Longrightarrow> 2 \<le> n \<Longrightarrow> length tmp + 5 * (8 - i) < ADDR_STR_LEN \<Longrightarrow>
    emit_groups g (int s) n i tmp = Some (tmp @ colon_text g (int s) n i s @ ''::'' @ colon_text g (int s) n (s + n) 8)"
proof (induction "s - i" arbitrary: i tmp rule: less_induct)
  case less
  show ?case
  proof (cases "i = s")
    case True
    have "emit tmp ''::'' = Some (tmp @ ''::'')"
      using less.prems True by (simp add: emit_def)
    moreover have "emit_groups g (int s) n (s + n) (tmp @ ''::'') = Some ((tmp @ ''::'') @ colon_text g (int s) n (s + n) 8)"
      using less.prems True by (intro emit_rest) auto
    ultimately show ?thesis
      using True less.prems by (subst emit_groups.simps) simp
  next
    case False
    let ?t = "(if 0 < i then '':'' else []) @ hex (unat (g ! i))"
    have "i < s" "i < 8" using False less.prems by auto
    have "length ?t \<le> 5" using group_ok_at [OF less.prems(1) \<open>i < 8\<close>] by auto
    then have "emit_groups g (int s) n (i + 1) (tmp @ ?t) =
        Some ((tmp @ ?t) @ colon_text g (int s) n (i + 1) s @ ''::'' @ colon_text g (int s) n (s + n) 8)"
      using less.prems \<open>i < s\<close> by (intro less.hyps) auto
    moreover have "emit_group (int s) n i tmp (rd g i) = Some (tmp @ ?t)"
      using emit_group_ok [OF less.prems(1) \<open>i < 8\<close>] less.prems \<open>i < s\<close> by simp
    ultimately show ?thesis
      using \<open>i < s\<close> \<open>i < 8\<close> by (subst emit_groups.simps) (simp add: colon_text_step)
  qed
qed

text \<open>The groups, separated by colons.\<close>

definition hex_groups :: "cuint list \<Rightarrow> string" where
  "hex_groups g = join '':'' (map (\<lambda>x. hex (unat x)) g)"

lemma colon_text_tail:
  assumes "0 < i" "j \<le> length g" "\<forall>k\<in>{i..<j}. \<not> (0 \<le> bs \<and> int k = bs + int bl)"
  shows "colon_text g bs bl i j = concat (map ((#) CHR '':'') (map (\<lambda>x. hex (unat x)) (drop i (take j g))))"
proof -
  have "colon_text g bs bl i j = concat (map (\<lambda>k. CHR '':'' # hex (unat (g ! k))) [i..<j])"
    unfolding colon_text_def using assms by (intro arg_cong [of _ _ concat] map_cong) auto
  moreover have "map (\<lambda>k. CHR '':'' # hex (unat (g ! k))) [i..<j] =
      map ((#) CHR '':'') (map (\<lambda>x. hex (unat x)) (drop i (take j g)))"
    using assms by (intro nth_equalityI) auto
  ultimately show ?thesis by simp
qed

lemma colon_text_groups:
  assumes "i \<le> j" "j \<le> length g" "i = 0 \<or> (0 \<le> bs \<and> int i = bs + int bl)"
    "\<forall>k\<in>{i<..<j}. \<not> (0 \<le> bs \<and> int k = bs + int bl)"
  shows "colon_text g bs bl i j = hex_groups (drop i (take j g))"
proof (cases "i = j")
  case True
  then show ?thesis by (simp add: hex_groups_def)
next
  case False
  then have "i < j" using assms by simp
  have "drop i (take j g) = g ! i # drop (i + 1) (take j g)"
    using \<open>i < j\<close> assms(2) by (simp add: Cons_nth_drop_Suc [symmetric])
  then show ?thesis
    using assms \<open>i < j\<close> by (auto simp: colon_text_step colon_text_tail hex_groups_def join_concat)
qed

section \<open>RFC 5952\<close>

text \<open>
  The canonical text of an IPv6 address: an IPv4-mapped address as \<open>::ffff:\<close> and the
  dotted form; otherwise, if there is a run of two or more zero groups, the first of the
  longest runs as \<open>::\<close>; otherwise all eight groups.
\<close>

definition v4_mapped :: "u8 list \<Rightarrow> bool" where
  "v4_mapped a \<longleftrightarrow> take 12 a = replicate 10 0 @ [0xff, 0xff]"

definition first_longest_run :: "cuint list \<Rightarrow> nat \<Rightarrow> nat \<Rightarrow> bool" where
  "first_longest_run g s n \<longleftrightarrow> 2 \<le> n \<and> zero_run g s n \<and>
     (\<forall>s' n'. zero_run g s' n' \<longrightarrow> n' \<le> n \<and> (n' = n \<longrightarrow> s \<le> s'))"

definition rfc5952 :: "u8 list \<Rightarrow> string \<Rightarrow> bool" where
  "rfc5952 a t \<longleftrightarrow>
     (if v4_mapped a then t = ''::ffff:'' @ dotted (a ! 12) (a ! 13) (a ! 14) (a ! 15)
      else (\<exists>s n. first_longest_run (groups_of a) s n \<and>
              t = hex_groups (take s (groups_of a)) @ ''::'' @ hex_groups (drop (s + n) (groups_of a))) \<or>
           ((\<forall>s. \<not> zero_run (groups_of a) s 2) \<and> t = hex_groups (groups_of a)))"

lemma all_zero_ok: "i + n \<le> length a \<Longrightarrow> all_zero a i n = Some (take n (drop i a) = replicate n 0)"
proof (induction n arbitrary: i)
  case (Suc n)
  then have "take (Suc n) (drop i a) = a ! i # take n (drop (i + 1) a)"
    by (simp add: Cons_nth_drop_Suc [symmetric])
  then show ?case using Suc by (auto simp: rd8_def)
qed simp

lemma is_v4_mapped_ok:
  assumes "length a = 16"
  shows "is_v4_mapped a = Some (v4_mapped a)"
proof -
  have "take 12 a = take 10 a @ [a ! 10, a ! 11]"
    using assms take_Suc_conv_app_nth [of 10 a] take_Suc_conv_app_nth [of 11 a] by (simp add: eval_nat_numeral)
  then show ?thesis
    using assms by (auto simp: is_v4_mapped_def v4_mapped_def all_zero_ok rd8_def)
qed

lemma best_run_first:
  assumes "length g = 8"
  obtains bs bl where "best_run g 0 (- 1) 0 = Some (bs, bl)"
    "bl < 2 \<Longrightarrow> \<forall>s. \<not> zero_run g s 2" "2 \<le> bl \<Longrightarrow> 0 \<le> bs \<and> first_longest_run g (nat bs) bl"
proof -
  have "best_inv g 0 (- 1) 0" by (simp add: best_inv_def)
  then obtain bs bl where run: "best_run g 0 (- 1) 0 = Some (bs, bl)" and inv: "best_inv g 8 bs bl"
    using best_run_ok [of g 0 "- 1" 0] assms by auto
  have max: "n \<le> bl \<and> (0 < n \<and> n = bl \<longrightarrow> bs \<le> int s)" if "zero_run g s n" "0 < n" for s n
  proof -
    have "s < 8" using that assms by (simp add: zero_run_def)
    then show ?thesis using inv that by (simp add: best_inv_def)
  qed
  show ?thesis
  proof (rule that [OF run])
    show "\<forall>s. \<not> zero_run g s 2" if "bl < 2" using max [of _ 2] that by fastforce
    assume "2 \<le> bl"
    then have "0 \<le> bs" "zero_run g (nat bs) bl" using inv by (auto simp: best_inv_def)
    moreover have "n \<le> bl \<and> (n = bl \<longrightarrow> nat bs \<le> s)" if "zero_run g s n" for s n
      using max [OF that] \<open>2 \<le> bl\<close> by (cases n) auto
    ultimately show "0 \<le> bs \<and> first_longest_run g (nat bs) bl"
      using \<open>2 \<le> bl\<close> by (auto simp: first_longest_run_def)
  qed
qed

lemma hex_groups_length: "groups_ok g \<Longrightarrow> set h \<subseteq> set g \<Longrightarrow> length (hex_groups h) \<le> 5 * length h - 1"
  unfolding hex_groups_def using join_length [of "map (\<lambda>x. hex (unat x)) h" 4 "CHR '':''"]
  by (force simp: groups_ok_def intro: group_length)

lemma dotted_length: "length (dotted b0 b1 b2 b3) \<le> 15"
proof -
  have "length (dec (unat b)) \<le> 3" for b :: u8
    using unat_u8 [of b] by (intro dec_length) auto
  from this [of b0] this [of b1] this [of b2] this [of b3] show ?thesis
    by (simp add: dotted_def)
qed

lemma rfc5952_length:
  assumes "rfc5952 a t"
  shows "length t \<le> 39"
proof -
  have len: "length (hex_groups h) \<le> 5 * length h - 1" if "set h \<subseteq> set (groups_of a)" for h
    by (rule hex_groups_length [OF groups_of_ok that])
  consider "t = ''::ffff:'' @ dotted (a ! 12) (a ! 13) (a ! 14) (a ! 15)"
    | s n where "first_longest_run (groups_of a) s n"
        "t = hex_groups (take s (groups_of a)) @ ''::'' @ hex_groups (drop (s + n) (groups_of a))"
    | "t = hex_groups (groups_of a)"
    using assms by (auto simp: rfc5952_def split: if_splits)
  then show ?thesis
  proof cases
    case 1
    then show ?thesis using dotted_length [of "a ! 12" "a ! 13" "a ! 14" "a ! 15"] by simp
  next
    case 2
    then have "s + n \<le> 8" "2 \<le> n" by (auto simp: first_longest_run_def zero_run_def)
    then show ?thesis
      using len [OF set_take_subset, of s] len [OF set_drop_subset, of "s + n"] 2(2) by simp
  next
    case 3
    then show ?thesis using len [of "groups_of a"] by simp
  qed
qed

lemma format_ipv6_ok:
  assumes "length a = 16"
  shows "\<exists>t. rfc5952 a t \<and> (\<forall>len. format_ipv6 a len = Some (snprintf len t))"
proof (cases "v4_mapped a")
  case True
  then show ?thesis
    using assms by (simp add: format_ipv6_def is_v4_mapped_ok rfc5952_def rd8_def)
next
  case False
  let ?g = "groups_of a"
  have load: "load_groups a 0 8 = Some ?g"
    using load_groups_ok [of 0 8 a] assms by (simp add: groups_of_def)
  obtain bs bl where run: "best_run ?g 0 (- 1) 0 = Some (bs, bl)"
    and none: "bl < 2 \<Longrightarrow> \<forall>s. \<not> zero_run ?g s 2"
    and some: "2 \<le> bl \<Longrightarrow> 0 \<le> bs \<and> first_longest_run ?g (nat bs) bl"
    by (rule best_run_first) auto
  have fmt: "format_ipv6 a len = map_option (snprintf len) (emit_groups ?g (if bl < 2 then - 1 else bs) bl 0 [])" for len
    using False by (simp add: format_ipv6_def is_v4_mapped_ok assms load run map_conv_bind_option comp_def)
  show ?thesis
  proof (cases "bl < 2")
    case True
    have "emit_groups ?g (- 1) bl 0 [] = Some (colon_text ?g (- 1) bl 0 8)"
      using emit_rest [OF groups_of_ok, of 0 "- 1" "[]" a bl] by simp
    also have "colon_text ?g (- 1) bl 0 8 = hex_groups ?g"
      using colon_text_groups [of 0 8 ?g "- 1" bl] by simp
    finally show ?thesis using True False none fmt by (auto simp: rfc5952_def)
  next
    case False
    then obtain s where s: "bs = int s" "first_longest_run ?g s bl"
      using some by (metis nat_0_le not_less)
    then have le: "s + bl \<le> 8" "2 \<le> bl" by (auto simp: first_longest_run_def zero_run_def)
    have "emit_groups ?g (int s) bl 0 [] = Some (colon_text ?g (int s) bl 0 s @ ''::'' @ colon_text ?g (int s) bl (s + bl) 8)"
      using emit_run [OF groups_of_ok, of 0 s bl "[]" a] le by simp
    moreover have "colon_text ?g (int s) bl 0 s = hex_groups (take s ?g)"
      using colon_text_groups [of 0 s ?g "int s" bl] le by auto
    moreover have "colon_text ?g (int s) bl (s + bl) 8 = hex_groups (drop (s + bl) ?g)"
      using colon_text_groups [of "s + bl" 8 ?g "int s" bl] le by auto
    ultimately show ?thesis
      using False s \<open>\<not> v4_mapped a\<close> fmt unfolding rfc5952_def by auto
  qed
qed

section \<open>Reading an address back\<close>

text \<open>
  A reader of textual addresses: the fields between the colons, each one or two groups, the
  empty fields of a \<open>::\<close> standing for as many zero groups as are missing; without a colon,
  the four bytes of the dotted form.
\<close>

definition parse_bytes :: "string \<Rightarrow> u8 list" where
  "parse_bytes t = map (\<lambda>f. of_nat (num_val 10 f)) (split_on CHR ''.'' t)"

fun pairs :: "u8 list \<Rightarrow> u16 list" where
  "pairs (p # q # bs) = be16 p q # pairs bs"
| "pairs _ = []"

definition field_groups :: "string \<Rightarrow> u16 list" where
  "field_groups f = (if CHR ''.'' \<in> set f then pairs (parse_bytes f) else [of_nat (num_val 16 f)])"

definition parse_groups :: "string \<Rightarrow> u16 list" where
  "parse_groups t =
     (let fs = split_on CHR '':'' t;
          front = concat (map field_groups (takeWhile (\<lambda>f. f \<noteq> []) fs));
          back = concat (map field_groups (List.rev (takeWhile (\<lambda>f. f \<noteq> []) (List.rev fs))))
      in if [] \<in> set fs then front @ replicate (8 - length front - length back) 0 @ back else front)"

definition parse_addr :: "string \<Rightarrow> int \<times> u8 list" where
  "parse_addr t =
     (if CHR '':'' \<in> set t then (6, concat (map enc_be16 (parse_groups t))) else (4, parse_bytes t))"

lemma dec_no_sep: "CHR ''.'' \<notin> set (dec n)" "CHR '':'' \<notin> set (dec n)" "CHR '','' \<notin> set (dec n)"
  by (rule dec_no, simp)+

lemma hex_no_sep: "CHR ''.'' \<notin> set (hex n)" "CHR '':'' \<notin> set (hex n)" "CHR '','' \<notin> set (hex n)"
  by (rule hex_no, simp)+

lemma dotted_no_sep: "CHR '':'' \<notin> set (dotted b0 b1 b2 b3)" "CHR '','' \<notin> set (dotted b0 b1 b2 b3)"
  by (simp_all add: dotted_def dec_no_sep)

lemma dotted_dot: "CHR ''.'' \<in> set (dotted b0 b1 b2 b3)"
  by (simp add: dotted_def)

lemma parse_bytes_dotted: "parse_bytes (dotted b0 b1 b2 b3) = [b0, b1, b2, b3]"
  by (simp add: parse_bytes_def dotted_def split_on_field split_on_last dec_no_sep)

lemma enc_be16_be16: "enc_be16 (be16 p q) = [p, q]"
proof -
  have "ucast (drop_bit 8 (be16 p q)) = p"
    unfolding be16_def by (rule bit_word_eqI) (auto simp: bit_simps dest: bit_imp_le_length)
  moreover have "(ucast (be16 p q) :: u8) = q"
    unfolding be16_def by (rule bit_word_eqI) (auto simp: bit_simps)
  ultimately show ?thesis by (simp add: enc_be16_def)
qed

lemma field_groups_hex: "field_groups (hex (unat x)) = [x]" for x :: u16
  by (simp add: field_groups_def hex_no_sep)

text \<open>The groups at their 16 bits.\<close>

definition groups16 :: "u8 list \<Rightarrow> u16 list" where
  "groups16 a = map (\<lambda>i. be16 (a ! (2 * i)) (a ! (2 * i + 1))) [0..<8]"

definition field :: "u16 \<Rightarrow> string" where
  "field x = hex (unat x)"

lemma groups_of_16: "groups_of a = map ucast (groups16 a)"
  by (simp add: groups_of_def groups16_def group_at_def)

lemma hex_groups_16: "hex_groups (map ucast xs) = join '':'' (map field xs)"
  by (simp add: hex_groups_def field_def [abs_def] comp_def)

lemma field_nonempty [simp]: "field x \<noteq> []"
  by (simp add: field_def)

lemma concat_fields: "concat (map (field_groups \<circ> field) xs) = xs"
  by (induction xs) (simp_all add: field_def field_groups_hex)

lemma takeWhile_nonempty:
  "\<forall>f\<in>set fs. f \<noteq> [] \<Longrightarrow> takeWhile (\<lambda>f. f \<noteq> []) (fs @ [] # gs) = fs"
  "\<forall>f\<in>set fs. f \<noteq> [] \<Longrightarrow> takeWhile (\<lambda>f. f \<noteq> []) fs = fs"
  by (induction fs) auto

lemma split_fields:
  "\<forall>f\<in>set fs. CHR '':'' \<notin> set f \<Longrightarrow> split_on CHR '':'' (join '':'' fs) = (if fs = [] then [[]] else fs)"
  by (simp add: split_on_join)

text \<open>Any list of fields before and after the \<open>::\<close>.\<close>

lemma parse_groups_run:
  assumes "\<forall>f\<in>set (ps @ qs). f \<noteq> [] \<and> CHR '':'' \<notin> set f"
  shows "parse_groups (join '':'' ps @ ''::'' @ join '':'' qs) =
    (let front = concat (map field_groups ps); back = concat (map field_groups qs)
     in front @ replicate (8 - length front - length back) 0 @ back)"
proof -
  let ?P = "if ps = [] then [[]] else ps" and ?Q = "if qs = [] then [[]] else qs"
  have "split_on CHR '':'' (join '':'' ps @ ''::'' @ join '':'' qs) =
      split_on CHR '':'' (join '':'' ps) @ [] # split_on CHR '':'' (join '':'' qs)"
    using split_on_append [of "CHR '':''" "join '':'' ps" "CHR '':'' # join '':'' qs"] by simp
  then have fs: "split_on CHR '':'' (join '':'' ps @ ''::'' @ join '':'' qs) = ?P @ [] # ?Q"
    using assms by (simp add: split_fields)
  have "takeWhile (\<lambda>f. f \<noteq> []) (?P @ [] # ?Q) = ps"
    using assms by (simp add: takeWhile_nonempty)
  moreover have "takeWhile (\<lambda>f. f \<noteq> []) (List.rev (?P @ [] # ?Q)) = List.rev qs"
    using assms takeWhile_nonempty(1) [of "List.rev qs" "List.rev ?P"] by auto
  ultimately show ?thesis
    unfolding parse_groups_def fs by (simp add: Let_def)
qed

lemma parse_groups_full:
  assumes "fs \<noteq> []" "\<forall>f\<in>set fs. f \<noteq> [] \<and> CHR '':'' \<notin> set f"
  shows "parse_groups (join '':'' fs) = concat (map field_groups fs)"
  using assms by (auto simp: parse_groups_def split_fields takeWhile_nonempty Let_def)

lemma field_ok: "field x \<noteq> [] \<and> CHR '':'' \<notin> set (field x)"
  by (simp add: field_def hex_no_sep)

lemma parse_mapped:
  "parse_groups (''::ffff:'' @ dotted b0 b1 b2 b3) = replicate 5 0 @ [0xffff, be16 b0 b1, be16 b2 b3]"
proof -
  let ?d = "dotted b0 b1 b2 b3"
  have d: "field_groups ?d = [be16 b0 b1, be16 b2 b3]"
    using dotted_dot [of b0 b1 b2 b3] by (simp add: field_groups_def parse_bytes_dotted)
  have f: "field_groups ''ffff'' = [0xffff]" by (simp add: field_groups_def num_val_def digit_val_def)
  have "?d \<noteq> []" using dotted_dot [of b0 b1 b2 b3] by auto
  then have "parse_groups (join '':'' [] @ ''::'' @ join '':'' [''ffff'', ?d]) =
      replicate 5 0 @ [0xffff, be16 b0 b1, be16 b2 b3]"
    by (subst parse_groups_run) (auto simp: d f dotted_no_sep Let_def)
  then show ?thesis by simp
qed

lemma concat_pairs: "concat (map (\<lambda>i. [f (2 * i), f (2 * i + 1)]) [0..<n]) = map f [0..<2 * n]"
  by (induction n) simp_all

text \<open>Sixteen bytes are their eight groups.\<close>

lemma bytes_of_groups: "length a = 16 \<Longrightarrow> concat (map enc_be16 (groups16 a)) = a"
proof -
  assume len: "length a = 16"
  have "concat (map (\<lambda>i. [a ! (2 * i), a ! (2 * i + 1)]) [0..<8]) = map ((!) a) [0..<16]"
    using concat_pairs [of "(!) a" 8] by simp
  also have "\<dots> = a" using len map_nth [of a] by simp
  finally show ?thesis
    by (simp add: groups16_def enc_be16_be16 comp_def)
qed

lemma mapped_groups:
  assumes "length a = 16" "v4_mapped a"
  shows "groups16 a = replicate 5 0 @ [0xffff, be16 (a ! 12) (a ! 13), be16 (a ! 14) (a ! 15)]"
proof -
  have nth: "a ! i = (replicate 10 0 @ [0xff, 0xff]) ! i" if "i < 12" for i
    using assms that nth_take [of i 12 a] by (simp add: v4_mapped_def)
  have "be16 0 0 = 0" "be16 0xff 0xff = 0xffff" by (simp_all add: be16_def)
  then show ?thesis
    by (simp add: groups16_def upt_conv_Cons nth nth_append nth_Cons' eval_nat_numeral)
qed

lemma zero_run_groups16:
  assumes "zero_run (groups_of a) s n"
  shows "groups16 a = take s (groups16 a) @ replicate n 0 @ drop (s + n) (groups16 a)"
proof -
  have le: "s + n \<le> length (groups16 a)" using assms by (simp add: zero_run_def groups_of_16)
  have "groups16 a ! k = 0" if "k \<in> {s..<s + n}" for k
  proof -
    have "(ucast (groups16 a ! k) :: cuint) = 0"
      using assms that le by (auto simp: zero_run_def groups_of_16)
    then have "unat (ucast (groups16 a ! k) :: cuint) = 0" by simp
    then show ?thesis by (simp add: unat_eq_zero)
  qed
  then have "take n (drop s (groups16 a)) = replicate n 0"
    using le by (intro nth_equalityI) auto
  then show ?thesis
    by (metis append_take_drop_id drop_drop add.commute)
qed

lemma rfc5952_parse:
  assumes "length a = 16" "rfc5952 a t"
  shows "CHR '':'' \<in> set t \<and> parse_groups t = groups16 a"
proof -
  consider "v4_mapped a" "t = ''::ffff:'' @ dotted (a ! 12) (a ! 13) (a ! 14) (a ! 15)"
    | s n where "zero_run (groups_of a) s n"
        "t = hex_groups (take s (groups_of a)) @ ''::'' @ hex_groups (drop (s + n) (groups_of a))"
    | "t = hex_groups (groups_of a)"
    using assms by (auto simp: rfc5952_def first_longest_run_def split: if_splits)
  then show ?thesis
  proof cases
    case 1
    then show ?thesis using assms parse_mapped by (simp add: mapped_groups)
  next
    case 2
    let ?ps = "take s (groups16 a)" and ?qs = "drop (s + n) (groups16 a)"
    have "t = join '':'' (map field ?ps) @ ''::'' @ join '':'' (map field ?qs)"
      using 2(2) by (simp add: groups_of_16 take_map drop_map hex_groups_16)
    moreover have "8 - length ?ps - length ?qs = n"
      using 2(1) by (auto simp: zero_run_def groups_of_16 groups16_def)
    moreover have "\<forall>f\<in>set (map field ?ps @ map field ?qs). f \<noteq> [] \<and> CHR '':'' \<notin> set f"
      by (auto simp: field_ok)
    ultimately have "CHR '':'' \<in> set t \<and> parse_groups t = ?ps @ replicate n 0 @ ?qs"
      using parse_groups_run [of "map field ?ps" "map field ?qs"] by (simp add: concat_fields Let_def)
    then show ?thesis unfolding zero_run_groups16 [OF 2(1), symmetric] .
  next
    case 3
    obtain x y xs where g: "groups16 a = x # y # xs"
      by (simp add: groups16_def upt_conv_Cons)
    have "parse_groups t = concat (map field_groups (map field (groups16 a)))"
      unfolding 3 groups_of_16 hex_groups_16
      by (rule parse_groups_full) (auto simp: g field_ok)
    moreover have "CHR '':'' \<in> set t"
      by (cases xs) (simp_all add: 3 groups_of_16 hex_groups_def g)
    ultimately show ?thesis by (simp add: concat_fields)
  qed
qed

section \<open>The formatter\<close>

lemma parse_rfc5952: "length a = 16 \<Longrightarrow> rfc5952 a t \<Longrightarrow> parse_addr t = (6, a)"
  using rfc5952_parse [of a t] bytes_of_groups [of a] by (simp add: parse_addr_def)

lemma parse_dotted: "length a = 16 \<Longrightarrow> parse_addr (dotted (a ! 0) (a ! 1) (a ! 2) (a ! 3)) = (4, take 4 a)"
proof -
  assume "length a = 16"
  then have "take 4 a = [a ! 0, a ! 1, a ! 2, a ! 3]"
    by (simp add: take_Suc_conv_app_nth eval_nat_numeral)
  then show ?thesis by (simp add: parse_addr_def dotted_no_sep parse_bytes_dotted)
qed

lemma addr_format_4:
  "length a = 16 \<Longrightarrow> 40 \<le> len \<Longrightarrow> addr_format 4 a buf len = Some (dotted (a ! 0) (a ! 1) (a ! 2) (a ! 3))"
  using dotted_length [of "a ! 0" "a ! 1" "a ! 2" "a ! 3"]
  by (simp add: addr_format_def rd8_def snprintf_fits)

lemma addr_format_6:
  assumes "length a = 16"
  shows "\<exists>t. rfc5952 a t \<and> (\<forall>len buf. 40 \<le> len \<longrightarrow> addr_format 6 a buf len = Some t)"
proof -
  obtain t where t: "rfc5952 a t" "\<forall>len. format_ipv6 a len = Some (snprintf len t)"
    using format_ipv6_ok [OF assms] by blast
  then show ?thesis
    using rfc5952_length [OF t(1)] by (auto simp: addr_format_def snprintf_fits)
qed

section \<open>Properties\<close>

text \<open>
  C31. The address formatter. For a 4-byte and for a 16-byte address the formatter reads only
  the address, never overruns its temporary buffer, and ends; the text is the dotted form,
  or the canonical text of RFC 5952 (section 4: lower case, no leading zeros, the first of the longest runs
  of at least two zero groups as \<open>::\<close>; section 5: mapped addresses in dotted form), never
  longer than 15 or 39 characters, so a buffer of \<open>ADDR_STR_LEN\<close> holds it whole.
\<close>

theorem addr_format_rfc5952:
  assumes "length a = 16" "40 \<le> len"
  shows "(\<exists>t. addr_format 6 a buf len = Some t \<and> rfc5952 a t \<and> length t \<le> 39) \<and>
    addr_format 4 a buf len = Some (dotted (a ! 0) (a ! 1) (a ! 2) (a ! 3)) \<and>
    length (dotted (a ! 0) (a ! 1) (a ! 2) (a ! 3)) \<le> 15"
  using addr_format_6 [OF assms(1)] addr_format_4 [OF assms] dotted_length rfc5952_length assms(2) by blast

definition sample_addr :: "u8 list" where
  "sample_addr = [0x20, 1, 0, 0, 0, 0, 0, 1, 0, 0, 0, 0, 0, 0, 0, 1]"

lemma sample_addr_text: "addr_format 6 sample_addr buf 46 = Some ''2001:0:0:1::1''"
proof -
  have "is_v4_mapped sample_addr = Some False" by code_simp
  moreover have "load_groups sample_addr 0 8 = Some [0x2001, 0, 0, 1, 0, 0, 0, 1]" by code_simp
  moreover have "best_run [0x2001, 0, 0, 1, 0, 0, 0, 1] 0 (- 1) 0 = Some (4, 3)" by code_simp
  ultimately show ?thesis
    by (simp add: addr_format_def format_ipv6_def emit_groups.simps emit_group_def rd_def emit_def num_eval snprintf_def)
qed

theorem addr_format_rfc5952_witness:
  "rfc5952 sample_addr ''2001:0:0:1::1'' \<and> addr_format 4 [192, 0, 2, 1, 0, 0, 0, 0, 0, 0, 0, 0, 0, 0, 0, 0] [] 46 = Some ''192.0.2.1''"
proof -
  have "rfc5952 sample_addr ''2001:0:0:1::1''"
    using addr_format_rfc5952 [of sample_addr 46 "[]"] by (simp add: sample_addr_text) (simp add: sample_addr_def)
  moreover have "addr_format 4 [192, 0, 2, 1, 0, 0, 0, 0, 0, 0, 0, 0, 0, 0, 0, 0] [] 46 = Some ''192.0.2.1''"
    using addr_format_rfc5952 [of "[192, 0, 2, 1, 0, 0, 0, 0, 0, 0, 0, 0, 0, 0, 0, 0]" 46 "[]"]
    by (simp add: dotted_def num_eval)
  ultimately show ?thesis ..
qed

text \<open>
  C32. An address read back from its text is the address: no two addresses, of either
  version, have the same text.
\<close>

theorem addr_format_round_trip:
  assumes "length a = 16" "40 \<le> len"
  shows "map_option parse_addr (addr_format 6 a buf len) = Some (6, a) \<and>
    map_option parse_addr (addr_format 4 a buf len) = Some (4, take 4 a)"
proof -
  obtain t where "rfc5952 a t" "addr_format 6 a buf len = Some t"
    using addr_format_6 [OF assms(1)] assms(2) by blast
  then show ?thesis
    using parse_rfc5952 parse_dotted addr_format_4 assms by simp
qed

theorem addr_format_round_trip_witness:
  "parse_addr ''2001:0:0:1::1'' = (6, sample_addr)"
  using addr_format_round_trip [of sample_addr 46 "[]"] by (simp add: sample_addr_text) (simp add: sample_addr_def)

end
