(* ===== verification/Report.thy ===== *)
theory Report
  imports Addr Stats Top_N Reader
begin

text \<open>
  \<open>report.h\<close> and \<open>report.c\<close>: the summary, the tables and the CSV export, with every
  character they print. What \<open>printf\<close> does with a double, and the double arithmetic itself,
  is an argument (\<open>double_ops\<close>); the calendar of \<open>gmtime\<close> and \<open>strftime\<close> is modelled.
  An output stream is the text printed to it; when its device fails is part of its state.
\<close>

section \<open>Streams\<close>

text \<open>
  \<open>o_fault t\<close>: the call of \<open>fprintf\<close> after which \<open>t\<close> has been printed reports an error,
  which sets the error indicator for good. \<open>o_late t\<close>: flushing or closing the stream after \<open>t\<close>
  has been printed fails.
\<close>

record out_file =
  o_text :: string
  o_error :: bool
  o_fault :: "string \<Rightarrow> bool"
  o_late :: "string \<Rightarrow> bool"

definition fprintf :: "string \<Rightarrow> out_file \<Rightarrow> out_file" where
  "fprintf s f = f\<lparr>o_text := o_text f @ s, o_error := o_error f \<or> o_fault f (o_text f @ s)\<rparr>"

text \<open>\<open>for (i = a; i < a + n; i++)\<close>, with a body that may have no value.\<close>

fun for_each :: "nat \<Rightarrow> nat \<Rightarrow> (nat \<Rightarrow> 's \<Rightarrow> 's option) \<Rightarrow> 's \<Rightarrow> 's option" where
  "for_each a 0 body s = Some s"
| "for_each a (Suc n) body s = Option.bind (body a s) (for_each (a + 1) n body)"

definition fmt_u :: "'a::len word \<Rightarrow> string" where
  "fmt_u x = dec (unat x)"

text \<open>\<open>%0<w>u\<close>\<close>

definition fmt_0u :: "nat \<Rightarrow> 'a::len word \<Rightarrow> string" where
  "fmt_0u w x = pad_left CHR ''0'' w (fmt_u x)"

text \<open>\<open>0x%08x\<close>\<close>

definition fmt_teid :: "u32 \<Rightarrow> string" where
  "fmt_teid x = ''0x'' @ pad_left CHR ''0'' 8 (hex (unat x))"

section \<open>Endpoints\<close>

abbreviation (input) NS_PER_SEC :: u64 where "NS_PER_SEC \<equiv> 1000000000"
abbreviation (input) ENDPOINT_STR_LEN :: nat where "ENDPOINT_STR_LEN \<equiv> 54"

definition proto_name :: "cuint \<Rightarrow> nat \<Rightarrow> string" where
  "proto_name proto len =
     (if proto = ucast IPPROTO_NUM_TCP then ''TCP''
      else if proto = ucast IPPROTO_NUM_UDP then ''UDP''
      else if proto = ucast IPPROTO_NUM_ICMP then ''ICMP''
      else if proto = ucast IPPROTO_NUM_ICMPV6 then ''ICMPv6''
      else snprintf len (fmt_u proto))"

text \<open>The letters of the bits that are set; \<open>out\<close> has 9 bytes, one for the terminator.\<close>

definition format_tcp_flags :: "u8 \<Rightarrow> string" where
  "format_tcp_flags flags =
     map ((!) ''FSRPAUEC'') (filter (\<lambda>b. ucast flags AND push_bit b (1 :: cuint) \<noteq> 0) [0..<8])"

definition has_ports :: "u8 \<Rightarrow> bool" where
  "has_ports proto \<longleftrightarrow> proto = IPPROTO_NUM_TCP \<or> proto = IPPROTO_NUM_UDP"

definition format_endpoint :: "flow_key \<Rightarrow> u8 list \<Rightarrow> u16 \<Rightarrow> nat \<Rightarrow> string option" where
  "format_endpoint k addr port len = do {
     a \<leftarrow> addr_format (uint (k_ip_version k)) addr [] ADDR_STR_LEN;
     Some (if \<not> has_ports (k_proto k) then snprintf len a
           else if k_ip_version k = 6 then snprintf len (''['' @ a @ '']:'' @ fmt_u port)
           else snprintf len (a @ '':'' @ fmt_u port)) }"

text \<open>\<open>src\<close> and \<open>dst\<close>.\<close>

definition flow_endpoints :: "flow \<Rightarrow> nat \<Rightarrow> (string \<times> string) option" where
  "flow_endpoints f len =
     (let k = f_key f in
      if \<not> f_first_from_b f
      then do {
        src \<leftarrow> format_endpoint k (k_addr_a k) (k_port_a k) len;
        dst \<leftarrow> format_endpoint k (k_addr_b k) (k_port_b k) len;
        Some (src, dst) }
      else do {
        src \<leftarrow> format_endpoint k (k_addr_b k) (k_port_b k) len;
        dst \<leftarrow> format_endpoint k (k_addr_a k) (k_port_a k) len;
        Some (src, dst) })"

section \<open>Dates\<close>

text \<open>\<open>struct tm\<close>, with the year and the month as people write them.\<close>

record tm =
  tm_year :: nat
  tm_mon :: nat
  tm_mday :: nat
  tm_hour :: nat
  tm_min :: nat
  tm_sec :: nat

definition leap_year :: "nat \<Rightarrow> bool" where
  "leap_year y \<longleftrightarrow> y mod 4 = 0 \<and> (y mod 100 \<noteq> 0 \<or> y mod 400 = 0)"

definition year_days :: "nat \<Rightarrow> nat" where
  "year_days y = (if leap_year y then 366 else 365)"

definition month_days :: "nat \<Rightarrow> nat list" where
  "month_days y = [31, if leap_year y then 29 else 28, 31, 30, 31, 30, 31, 31, 30, 31, 30, 31]"

text \<open>The year of day \<open>d\<close> after the start of year \<open>y\<close>, and the day in it; the same for months.\<close>

function year_of :: "nat \<Rightarrow> nat \<Rightarrow> nat \<times> nat" where
  "year_of y d = (if d < year_days y then (y, d) else year_of (y + 1) (d - year_days y))"
  by pat_completeness auto
termination by (relation "measure snd") (auto simp: year_days_def split: if_splits)

declare year_of.simps [simp del]

fun month_of :: "nat list \<Rightarrow> nat \<Rightarrow> nat \<Rightarrow> nat \<times> nat" where
  "month_of [] m d = (m, d)"
| "month_of (n # ns) m d = (if d < n then (m, d) else month_of ns (m + 1) (d - n))"

text \<open>\<open>gmtime\<close>, for a time at or after 1970.\<close>

definition gmtime :: "nat \<Rightarrow> tm" where
  "gmtime sec =
     (case year_of 1970 (sec div 86400) of (y, d) \<Rightarrow>
      case month_of (month_days y) 1 d of (m, d) \<Rightarrow>
        \<lparr>tm_year = y, tm_mon = m, tm_mday = d + 1,
         tm_hour = sec mod 86400 div 3600, tm_min = sec mod 3600 div 60, tm_sec = sec mod 60\<rparr>)"

definition two_digits :: "nat \<Rightarrow> string" where
  "two_digits n = pad_left CHR ''0'' 2 (dec n)"

text \<open>\<open>strftime\<close> with the format \<open>%Y-%m-%d %H:%M:%S\<close>: \<open>None\<close> for the result 0, when the text does not fit.\<close>

definition strftime :: "nat \<Rightarrow> tm \<Rightarrow> string option" where
  "strftime len tm =
     (let s = dec (tm_year tm) @ ''-'' @ two_digits (tm_mon tm) @ ''-'' @ two_digits (tm_mday tm) @ '' '' @
              two_digits (tm_hour tm) @ '':'' @ two_digits (tm_min tm) @ '':'' @ two_digits (tm_sec tm)
      in if length s < len then Some s else None)"

definition print_utc :: "u64 \<Rightarrow> out_file \<Rightarrow> out_file" where
  "print_utc ts_ns out =
     (let sec = ts_ns div NS_PER_SEC;
          usec = ucast (ts_ns mod NS_PER_SEC div 1000) :: cuint
      in case strftime 32 (gmtime (unat sec)) of
           Some date \<Rightarrow> fprintf (date @ ''.'' @ fmt_0u 6 usec @ '' UTC'') out
         | None \<Rightarrow> fprintf (fmt_u sec @ ''.'' @ fmt_0u 6 usec) out)"

section \<open>Summary\<close>

text \<open>Double arithmetic: conversion of an integer, the operations used, the test \<open>> 0\<close>, and
  \<open>%.<n>f\<close>.\<close>

record 'd double_ops =
  d_of :: "nat \<Rightarrow> 'd"
  d_mul :: "'d \<Rightarrow> 'd \<Rightarrow> 'd"
  d_div :: "'d \<Rightarrow> 'd \<Rightarrow> 'd"
  d_pos :: "'d \<Rightarrow> bool"
  d_fixed :: "nat \<Rightarrow> 'd \<Rightarrow> string"

definition pct :: "'d double_ops \<Rightarrow> u64 \<Rightarrow> u64 \<Rightarrow> 'd" where
  "pct D part whole =
     (if whole \<noteq> 0 then d_div D (d_mul D (d_of D 100) (d_of D (unat part))) (d_of D (unat whole)) else d_of D 0)"

text \<open>The loop over \<open>by_status\<close>, with the indentation and the width of the reason.\<close>

definition report_reasons :: "string \<Rightarrow> nat \<Rightarrow> u64 list \<Rightarrow> out_file \<Rightarrow> out_file option" where
  "report_reasons indent w by_status =
     for_each 1 (status_num DEC_STATUS_COUNT - 1) (\<lambda>i out. do {
       c \<leftarrow> rd by_status i;
       if c > 0
       then do {
         st \<leftarrow> rd all_status i;
         Some (fprintf (indent @ pad_right w (decode_status_str st) @ '' '' @ fmt_u c @ ''\<newline>'') out) }
       else Some out })"

definition report_times :: "'d double_ops \<Rightarrow> stats \<Rightarrow> u64 \<Rightarrow> out_file \<Rightarrow> out_file" where
  "report_times D s span_ns out =
     (let secs = d_div D (d_of D (unat span_ns)) (d_of D 1000000000);
          out = fprintf ''First:       '' out;
          out = print_utc (s_first_ts_ns s) out;
          out = fprintf ''\<newline>Last:        '' out;
          out = print_utc (s_last_ts_ns s) out;
          out = fprintf (''\<newline>Duration:    '' @ fmt_u (span_ns div NS_PER_SEC) @ ''.'' @
                         fmt_0u 6 (ucast (span_ns mod NS_PER_SEC div 1000) :: cuint) @ '' s'') out;
          out = (if d_pos D secs
                 then fprintf ('' ('' @ d_fixed D 1 (d_div D (d_of D (unat (s_packets s))) secs) @ '' packets/s, '' @
                        d_fixed D 3 (d_div D (d_div D (d_mul D (d_of D (unat (s_wire_bytes s))) (d_of D 8)) secs)
                          (d_of D 1000000)) @ '' Mbit/s)'') out
                 else out)
      in fprintf ''\<newline>'' out)"

definition report_summary ::
    "'d double_ops \<Rightarrow> out_file \<Rightarrow> string \<Rightarrow> pcap_file_info \<Rightarrow> stats \<Rightarrow> size_t \<Rightarrow> out_file option" where
  "report_summary D out path info s flow_count =
     (let span_ns = (if s_packets s \<noteq> 0 then s_last_ts_ns s - s_first_ts_ns s else 0);
          out = fprintf (''File:        '' @ path @ ''\<newline>'') out;
          out = fprintf (''Format:      pcap '' @ fmt_u (i_version_major info) @ ''.'' @ fmt_u (i_version_minor info) @
                  '', '' @ (if i_big_endian info then ''big'' else ''little'') @ ''-endian, '' @
                  (if i_nsec info then ''nanosecond'' else ''microsecond'') @ '' timestamps, snaplen '' @
                  fmt_u (i_snaplen info) @ '', Ethernet\<newline>'') out;
          out = fprintf (''Packets:     '' @ fmt_u (s_packets s) @ ''\<newline>'') out;
          out = fprintf (''Bytes:       '' @ fmt_u (s_wire_bytes s) @ '' on the wire, '' @
                  fmt_u (s_captured_bytes s) @ '' captured\<newline>'') out;
          out = (if s_packets s > 0 then report_times D s span_ns out else out);
          out = fprintf (''\<newline>Network:     IPv4 '' @ fmt_u (s_ipv4 s) @ '' ('' @ d_fixed D 1 (pct D (s_ipv4 s) (s_packets s)) @
                  ''%), IPv6 '' @ fmt_u (s_ipv6 s) @ '' ('' @ d_fixed D 1 (pct D (s_ipv6 s) (s_packets s)) @
                  ''%), non-IP '' @ fmt_u (s_non_ip s) @ '' ('' @ d_fixed D 1 (pct D (s_non_ip s) (s_packets s)) @
                  ''%)\<newline>'') out;
          out = fprintf (''Transport:   TCP '' @ fmt_u (s_tcp s) @ '', UDP '' @ fmt_u (s_udp s) @ '', ICMP '' @
                  fmt_u (s_icmp s) @ '', ICMPv6 '' @ fmt_u (s_icmpv6 s) @ '', other '' @ fmt_u (s_other_l4 s) @ ''\<newline>'') out;
          out = fprintf (''VLAN:        '' @ fmt_u (s_vlan_tagged s) @ '' tagged frames\<newline>'') out;
          out = fprintf (''Fragments:   '' @ fmt_u (s_frag_first s) @ '' first, '' @ fmt_u (s_frag_later s) @
                  '' non-first ('' @ fmt_u (s_frag_matched s) @ '' matched to their first fragment's ports)\<newline>'') out;
          out = fprintf (''Flows:       '' @ fmt_u flow_count @ ''\<newline>'') out;
          out = fprintf (''Problems:    '' @ fmt_u (s_truncated s) @ '' truncated, '' @ fmt_u (s_malformed s) @
                  '' malformed (excluded from flows)\<newline>'') out
      in report_reasons ''  '' 40 (s_by_status s) out)"

section \<open>Tables\<close>

text \<open>The widths of the two endpoint columns: the longest text of each, at least 3.\<close>

definition column_widths ::
    "(flow \<Rightarrow> (string \<times> string) option) \<Rightarrow> flow list \<Rightarrow> nat \<Rightarrow> (nat \<times> nat) option" where
  "column_widths endpoints tops n =
     for_each 0 n (\<lambda>i (src_w, dst_w). do {
       f \<leftarrow> rd tops i;
       (src, dst) \<leftarrow> endpoints f;
       Some (if length src > src_w then length src else src_w,
             if length dst > dst_w then length dst else dst_w) }) (3, 3)"

definition fmt_duration :: "u64 \<Rightarrow> string" where
  "fmt_duration d =
     snprintf 32 (fmt_u (d div NS_PER_SEC) @ ''.'' @ fmt_0u 3 (ucast (d mod NS_PER_SEC div 1000000) :: cuint) @ '' s'')"

definition top_flow_row :: "nat \<Rightarrow> nat \<Rightarrow> nat \<Rightarrow> flow \<Rightarrow> string option" where
  "top_flow_row src_w dst_w i f = do {
     let d = f_last_ts_ns f - f_first_ts_ns f;
     (src, dst) \<leftarrow> flow_endpoints f ENDPOINT_STR_LEN;
     let flags = (if k_proto (f_key f) = IPPROTO_NUM_TCP then format_tcp_flags (f_tcp_flags f) else ''-'');
     Some (pad_left CHR '' '' 3 (dec (i + 1)) @ ''  '' @ pad_right 6 (proto_name (ucast (k_proto (f_key f))) 8) @ ''  '' @
           pad_right src_w src @ ''  '' @ pad_right dst_w dst @ ''  '' @
           pad_left CHR '' '' 8 (fmt_u (f_packets f)) @ ''  '' @ pad_left CHR '' '' 10 (fmt_u (f_bytes f)) @ ''  '' @
           pad_left CHR '' '' 12 (fmt_duration d) @ ''  '' @ flags @ ''\<newline>'') }"

definition report_top_flows :: "out_file \<Rightarrow> flow list \<Rightarrow> nat \<Rightarrow> size_t \<Rightarrow> out_file option" where
  "report_top_flows out tops n flow_count =
     (if n = 0 then Some out
      else do {
        (src_w, dst_w) \<leftarrow> column_widths (\<lambda>f. flow_endpoints f ENDPOINT_STR_LEN) tops n;
        let out = fprintf (''\<newline>Top '' @ dec n @ '' of '' @ fmt_u flow_count @
                    '' flows by bytes (src = sender of the first packet seen):\<newline>'') out;
        let out = fprintf (pad_left CHR '' '' 3 ''#'' @ ''  '' @ pad_right 6 ''proto'' @ ''  '' @ pad_right src_w ''src'' @ ''  '' @
                    pad_right dst_w ''dst'' @ ''  '' @ pad_left CHR '' '' 8 ''packets'' @ ''  '' @ pad_left CHR '' '' 10 ''bytes'' @ ''  '' @
                    pad_left CHR '' '' 12 ''duration'' @ ''  tcp flags\<newline>'') out;
        for_each 0 n (\<lambda>i out. do {
          f \<leftarrow> rd tops i;
          row \<leftarrow> top_flow_row src_w dst_w i f;
          Some (fprintf row out) }) out })"

section \<open>CSV\<close>

text \<open>The address and the port.\<close>

definition csv_endpoint :: "flow \<Rightarrow> bool \<Rightarrow> nat \<Rightarrow> (string \<times> cuint) option" where
  "csv_endpoint f want_src len =
     (let k = f_key f;
          use_a = (if want_src then \<not> f_first_from_b f else f_first_from_b f)
      in do {
        addr \<leftarrow> addr_format (uint (k_ip_version k)) (if use_a then k_addr_a k else k_addr_b k) [] len;
        Some (addr, ucast (if use_a then k_port_a k else k_port_b k)) })"

text \<open>\<open>%llu.%09u\<close>: seconds and nanoseconds.\<close>

definition fmt_ns :: "u64 \<Rightarrow> string" where
  "fmt_ns ts = fmt_u (ts div NS_PER_SEC) @ ''.'' @ fmt_0u 9 (ucast (ts mod NS_PER_SEC) :: cuint)"

text \<open>
  \<open>malloc (n * sizeof *all)\<close>: the size wraps as \<open>size_t\<close> does. The result is the number
  of pointers the array has room for.
\<close>

definition malloc_ptrs :: "alloc \<Rightarrow> size_t \<Rightarrow> nat option" where
  "malloc_ptrs al n = (if al n then Some (unat (n * 8) div 8) else None)"

text \<open>The array of the \<open>n\<close> tops flows, with a check that they fit: \<open>Inl\<close> when out of memory.\<close>

definition top_array :: "alloc \<Rightarrow> flow_table \<Rightarrow> size_t \<Rightarrow> (unit + flow list) option" where
  "top_array al t n =
     (case malloc_ptrs al n of
        None \<Rightarrow> Some (Inl ())
      | Some room \<Rightarrow> do {
          tops \<leftarrow> flow_table_top_n t n;
          if length tops \<le> room then Some (Inr tops) else None })"

definition csv_header :: string where
  "csv_header = ''src_addr,src_port,dst_addr,dst_port,protocol,ip_version,'' @
     ''packets,bytes,first_ts,last_ts,duration_s,tcp_flags\<newline>''"

definition csv_row :: "flow \<Rightarrow> string option" where
  "csv_row f = do {
     let d = f_last_ts_ns f - f_first_ts_ns f;
     (src, sport) \<leftarrow> csv_endpoint f True ADDR_STR_LEN;
     (dst, dport) \<leftarrow> csv_endpoint f False ADDR_STR_LEN;
     let flags = (if k_proto (f_key f) = IPPROTO_NUM_TCP then format_tcp_flags (f_tcp_flags f) else []);
     Some (src @ '','' @ fmt_u sport @ '','' @ dst @ '','' @ fmt_u dport @ '','' @
           proto_name (ucast (k_proto (f_key f))) 8 @ '','' @ fmt_u (k_ip_version (f_key f)) @ '','' @
           fmt_u (f_packets f) @ '','' @ fmt_u (f_bytes f) @ '','' @ fmt_ns (f_first_ts_ns f) @ '','' @
           fmt_ns (f_last_ts_ns f) @ '','' @ fmt_ns d @ '','' @ flags @ ''\<newline>'') }"

text \<open>What the two CSV exports have in common: the table in ranking order, a header, a row for
  each, and the error indicator.\<close>

definition csv_export ::
    "string \<Rightarrow> (flow \<Rightarrow> string option) \<Rightarrow> alloc \<Rightarrow> out_file \<Rightarrow> flow_table \<Rightarrow> (int \<times> out_file) option" where
  "csv_export header row al out t = do {
     array \<leftarrow> (if t_count t > 0 then top_array al t (t_count t) else Some (Inr []));
     case array of
       Inl _ \<Rightarrow> Some (-1, out)
     | Inr all \<Rightarrow> do {
         out \<leftarrow> for_each 0 (length all) (\<lambda>i out. do {
           f \<leftarrow> rd all i;
           line \<leftarrow> row f;
           Some (fprintf line out) }) (fprintf header out);
         Some (if o_error out then -1 else 0, out) }}"

definition report_csv :: "alloc \<Rightarrow> out_file \<Rightarrow> flow_table \<Rightarrow> (int \<times> out_file) option" where
  "report_csv al out t = csv_export csv_header csv_row al out t"

section \<open>GTP-U\<close>

text \<open>The counters, then the two lines on problems.\<close>

definition report_gtpu_counts :: "gtpu_stats \<Rightarrow> flow_table \<Rightarrow> size_t \<Rightarrow> out_file \<Rightarrow> out_file" where
  "report_gtpu_counts g tunnels teids out =
     (let out = fprintf (''\<newline>GTP-U:       '' @ fmt_u (g_packets g) @ '' packets on UDP port '' @ fmt_u GTPU_PORT @ ''\<newline>'') out;
          out = fprintf (''  Messages:  G-PDU '' @ fmt_u (g_gpdu g) @ '', echo request '' @ fmt_u (g_echo_request g) @
                  '', echo response '' @ fmt_u (g_echo_response g) @ '', error indication '' @ fmt_u (g_error_indication g) @
                  '', end marker '' @ fmt_u (g_end_marker g) @ '', other '' @ fmt_u (g_other_type g) @ ''\<newline>'') out;
          out = fprintf (''  Options:   sequence number in '' @ fmt_u (g_with_seq g) @ '', extension headers in '' @
                  fmt_u (g_with_ext g) @ ''\<newline>'') out;
          out = fprintf (''  Inner IP:  IPv4 '' @ fmt_u (g_inner_ipv4 g) @ '', IPv6 '' @ fmt_u (g_inner_ipv6 g) @
                  ''; TCP '' @ fmt_u (g_inner_tcp g) @ '', UDP '' @ fmt_u (g_inner_udp g) @ '', ICMP '' @
                  fmt_u (g_inner_icmp g) @ '', ICMPv6 '' @ fmt_u (g_inner_icmpv6 g) @ '', other '' @
                  fmt_u (g_inner_other g) @ ''\<newline>'') out;
          out = fprintf (''  Tunnels:   '' @ fmt_u (t_count tunnels) @ '' ('' @ fmt_u teids @ '' distinct TEIDs)\<newline>'') out
      in fprintf (''  Skipped:   '' @ fmt_u (g_not_v1u g) @ '' GTP' or other version, '' @ fmt_u (g_nested g) @
           '' GTP-U in GTP-U, '' @ fmt_u (g_fragmented g) @ '' fragmented datagrams on port '' @ fmt_u GTPU_PORT @ ''\<newline>'') out)"

definition report_gtpu_problems :: "gtpu_stats \<Rightarrow> out_file \<Rightarrow> out_file" where
  "report_gtpu_problems g out =
     (let out = fprintf (''  Problems:  '' @ fmt_u (g_truncated g - g_user_truncated g) @ '' truncated, '' @
                  fmt_u (g_malformed g - g_user_malformed g) @ '' malformed in GTP-U headers (not added to tunnels)\<newline>'') out
      in fprintf (''             '' @ fmt_u (g_user_truncated g) @ '' truncated, '' @ fmt_u (g_user_malformed g) @
           '' malformed in user packets (still added to tunnels)\<newline>'') out)"

definition report_gtpu :: "alloc \<Rightarrow> out_file \<Rightarrow> stats \<Rightarrow> flow_table \<Rightarrow> (int \<times> out_file) option" where
  "report_gtpu al out s tunnels =
     (let g = s_gtpu s in
      if g_packets g = 0 \<and> g_fragmented g = 0 then Some (0, out)
      else do {
        (r, teids) \<leftarrow> flow_table_distinct_teids al tunnels;
        if r \<noteq> 0 then Some (-1, out)
        else do {
          out \<leftarrow> report_reasons ''    '' 38 (g_by_status g)
                  (report_gtpu_problems g (report_gtpu_counts g tunnels teids out));
          Some (0, out) } })"

definition tunnel_endpoints :: "flow \<Rightarrow> nat \<Rightarrow> (string \<times> string) option" where
  "tunnel_endpoints f len = do {
     src \<leftarrow> addr_format (uint (k_ip_version (f_key f))) (k_addr_a (f_key f)) [] len;
     dst \<leftarrow> addr_format (uint (k_ip_version (f_key f))) (k_addr_b (f_key f)) [] len;
     Some (src, dst) }"

definition top_tunnel_row :: "nat \<Rightarrow> nat \<Rightarrow> nat \<Rightarrow> flow \<Rightarrow> string option" where
  "top_tunnel_row src_w dst_w i f = do {
     let d = f_last_ts_ns f - f_first_ts_ns f;
     (src, dst) \<leftarrow> tunnel_endpoints f ADDR_STR_LEN;
     Some (pad_left CHR '' '' 3 (dec (i + 1)) @ ''  '' @ fmt_teid (k_teid (f_key f)) @ ''  '' @
           pad_right src_w src @ ''  '' @ pad_right dst_w dst @ ''  '' @
           pad_left CHR '' '' 8 (fmt_u (f_packets f)) @ ''  '' @ pad_left CHR '' '' 10 (fmt_u (f_bytes f)) @ ''  '' @
           pad_left CHR '' '' 12 (fmt_duration d) @ ''\<newline>'') }"

definition report_top_tunnels :: "out_file \<Rightarrow> flow list \<Rightarrow> nat \<Rightarrow> size_t \<Rightarrow> out_file option" where
  "report_top_tunnels out tops n tunnel_count =
     (if n = 0 then Some out
      else do {
        (src_w, dst_w) \<leftarrow> column_widths (\<lambda>f. tunnel_endpoints f ADDR_STR_LEN) tops n;
        let out = fprintf (''\<newline>Top '' @ dec n @ '' of '' @ fmt_u tunnel_count @
                    '' GTP-U tunnels by bytes (one direction each; the receiver chose the TEID):\<newline>'') out;
        let out = fprintf (pad_left CHR '' '' 3 ''#'' @ ''  '' @ pad_right 10 ''teid'' @ ''  '' @ pad_right src_w ''src'' @ ''  '' @
                    pad_right dst_w ''dst'' @ ''  '' @ pad_left CHR '' '' 8 ''packets'' @ ''  '' @ pad_left CHR '' '' 10 ''bytes'' @ ''  '' @
                    pad_left CHR '' '' 12 ''duration'' @ ''\<newline>'') out;
        for_each 0 n (\<lambda>i out. do {
          f \<leftarrow> rd tops i;
          row \<leftarrow> top_tunnel_row src_w dst_w i f;
          Some (fprintf row out) }) out })"

definition tunnels_csv_header :: string where
  "tunnels_csv_header = ''teid,src_addr,dst_addr,ip_version,packets,bytes,'' @ ''first_ts,last_ts,duration_s\<newline>''"

definition tunnels_csv_row :: "flow \<Rightarrow> string option" where
  "tunnels_csv_row f = do {
     let d = f_last_ts_ns f - f_first_ts_ns f;
     (src, dst) \<leftarrow> tunnel_endpoints f ADDR_STR_LEN;
     Some (fmt_teid (k_teid (f_key f)) @ '','' @ src @ '','' @ dst @ '','' @ fmt_u (k_ip_version (f_key f)) @ '','' @
           fmt_u (f_packets f) @ '','' @ fmt_u (f_bytes f) @ '','' @ fmt_ns (f_first_ts_ns f) @ '','' @
           fmt_ns (f_last_ts_ns f) @ '','' @ fmt_ns d @ ''\<newline>'') }"

definition report_tunnels_csv :: "alloc \<Rightarrow> out_file \<Rightarrow> flow_table \<Rightarrow> (int \<times> out_file) option" where
  "report_tunnels_csv al out t = csv_export tunnels_csv_header tunnels_csv_row al out t"

end
