(* ===== verification/Report_Text.thy ===== *)
theory Report_Text
  imports Report Addr_Props Flow_Props
begin

text \<open>
  The fields the reports print: which separators cannot occur in them, how they are read
  back, and what a sequence of calls of \<open>fprintf\<close> leaves in a stream.
\<close>

section \<open>Printed text and separators\<close>

named_theorems no_sep "separators that do not occur in a printed field"

lemma fmt_u_val [simp]: "num_val 10 (fmt_u x) = unat x"
  by (simp add: fmt_u_def)

lemma fmt_0u_val [simp]: "num_val 10 (fmt_0u w x) = unat x"
  by (simp add: fmt_0u_def pad_left_def)

lemma fmt_teid_val: "num_val 16 (drop 2 (fmt_teid x)) = unat x"
  by (simp add: fmt_teid_def pad_left_def)

lemma fmt_no [no_sep]:
  "c \<notin> set ''0123456789'' \<Longrightarrow> c \<notin> set (fmt_u x)"
  "c \<notin> set ''0123456789'' \<Longrightarrow> c \<notin> set (fmt_0u w x)"
  "c \<notin> set ''0123456789abcdefx'' \<Longrightarrow> c \<notin> set (fmt_teid t)"
  by (auto simp: fmt_u_def fmt_0u_def fmt_teid_def pad_left_def dest!: dec_set [THEN subsetD] hex_set [THEN subsetD])

lemma fmt_ns_no [no_sep]: "c \<notin> set ''0123456789.'' \<Longrightarrow> c \<notin> set (fmt_ns t)"
  by (auto simp: fmt_ns_def fmt_no)

lemma fmt_u_length: "length (fmt_u x) \<le> k" if "unat x < 10 ^ k" "0 < k"
  using that by (simp add: fmt_u_def dec_length)

definition read_ns :: "string \<Rightarrow> nat" where
  "read_ns s = (case split_on CHR ''.'' s of [a, b] \<Rightarrow> num_val 10 a * 1000000000 + num_val 10 b | _ \<Rightarrow> 0)"

lemma read_fmt_ns [simp]: "read_ns (fmt_ns t) = unat t"
proof -
  have "unat (ucast (t mod NS_PER_SEC) :: cuint) = unat t mod 1000000000"
    by (simp add: unsigned_ucast_eq unat_mod take_bit_nat_eq_self_iff del: unat_ucast_up)
  then show ?thesis
    by (simp add: read_ns_def fmt_ns_def split_on_field split_on_last fmt_no unat_div)
qed

text \<open>The text of an address.\<close>

definition addr_text :: "u8 \<Rightarrow> u8 list \<Rightarrow> string" where
  "addr_text v a = the (addr_format (uint v) a [] ADDR_STR_LEN)"

definition addr_chars :: "char set" where
  "addr_chars = set ''0123456789abcdef:.?''"

lemma addr_charsI [simp]:
  "CHR '':'' \<in> addr_chars" "CHR ''.'' \<in> addr_chars" "CHR ''?'' \<in> addr_chars" "CHR ''f'' \<in> addr_chars"
  "set (dec n) \<subseteq> addr_chars" "set (hex n) \<subseteq> addr_chars"
proof -
  have "set ''0123456789'' \<subseteq> addr_chars" "set ''0123456789abcdef'' \<subseteq> addr_chars"
    by (simp_all add: addr_chars_def)
  then show "set (dec n) \<subseteq> addr_chars" "set (hex n) \<subseteq> addr_chars"
    by - (rule order_trans [OF dec_set], assumption, rule order_trans [OF hex_set], assumption)
qed (simp_all add: addr_chars_def)

lemma hex_groups_set: "set (hex_groups g) \<subseteq> addr_chars"
proof -
  have "c \<in> addr_chars" if "c \<in> set (hex (unat x))" for c and x :: cuint
    using that addr_charsI(6) by blast
  then show ?thesis
    unfolding hex_groups_def by (intro order_trans [OF join_set]) auto
qed

lemma dotted_set: "set (dotted b0 b1 b2 b3) \<subseteq> addr_chars"
  by (simp add: dotted_def)

lemma rfc5952_set: "rfc5952 a t \<Longrightarrow> set t \<subseteq> addr_chars"
  using hex_groups_set dotted_set
  by (fastforce simp: rfc5952_def split: if_splits)

lemma uint_u8_eq: "uint v = 4 \<longleftrightarrow> v = 4" "uint v = 6 \<longleftrightarrow> v = 6" for v :: u8
  by (simp_all add: word_uint_eq_iff)

lemma addr_text_4: "length a = 16 \<Longrightarrow> addr_text 4 a = dotted (a ! 0) (a ! 1) (a ! 2) (a ! 3)"
  by (simp add: addr_text_def addr_format_4)

lemma addr_text_6:
  assumes "length a = 16"
  shows "rfc5952 a (addr_text 6 a)" "40 \<le> len \<Longrightarrow> addr_format 6 a buf len = Some (addr_text 6 a)"
  using addr_format_6 [OF assms] by (auto simp: addr_text_def)

lemma addr_text_other:
  "uint v \<noteq> 4 \<Longrightarrow> uint v \<noteq> 6 \<Longrightarrow> addr_text v a = ''?'' \<and> (40 \<le> len \<longrightarrow> addr_format (uint v) a buf len = Some ''?'')"
  by (auto simp: addr_text_def addr_format_def snprintf_def)

lemma addr_text_cases:
  fixes v :: u8
  obtains "v = 4" | "v = 6" | "uint v \<noteq> 4" "uint v \<noteq> 6"
  by (auto simp: uint_u8_eq)

lemma addr_format_text:
  assumes "length a = 16" "40 \<le> len"
  shows "addr_format (uint v) a buf len = Some (addr_text v a)"
proof (cases v rule: addr_text_cases)
  case 1
  then show ?thesis using assms by (simp add: addr_text_4 addr_format_4)
next
  case 2
  then show ?thesis using assms addr_text_6 by simp
next
  case 3
  then show ?thesis using addr_text_other [of v a len buf] assms by simp
qed

lemma addr_text_fits: "length a = 16 \<Longrightarrow> length (addr_text v a) \<le> 39"
  using dotted_length [of "a ! 0" "a ! 1" "a ! 2" "a ! 3"] rfc5952_length addr_text_6(1) addr_text_other [of v a]
  by (cases v rule: addr_text_cases) (auto simp: addr_text_4)

lemma addr_text_set: "length a = 16 \<Longrightarrow> set (addr_text v a) \<subseteq> addr_chars"
  using dotted_set rfc5952_set [OF addr_text_6(1) [of a]] addr_text_other [of v a]
  by (cases v rule: addr_text_cases) (simp_all add: addr_text_4)

lemma addr_text_no [no_sep]: "length a = 16 \<Longrightarrow> c \<notin> set ''0123456789abcdef:.?'' \<Longrightarrow> c \<notin> set (addr_text v a)"
  using addr_text_set addr_chars_def by blast

text \<open>The bytes of an address that a version uses.\<close>

definition addr_bytes :: "u8 \<Rightarrow> u8 list \<Rightarrow> int \<times> u8 list" where
  "addr_bytes v a = (uint v, if v = 4 then take 4 a else a)"

lemma parse_addr_text: "length a = 16 \<Longrightarrow> v = 4 \<or> v = 6 \<Longrightarrow> parse_addr (addr_text v a) = addr_bytes v a"
  using parse_dotted parse_rfc5952 addr_text_6(1) by (auto simp: addr_text_4 addr_bytes_def)

section \<open>Names and flags\<close>

definition read_proto :: "string \<Rightarrow> nat" where
  "read_proto s =
     (if s = ''TCP'' then 6 else if s = ''UDP'' then 17 else if s = ''ICMP'' then 1 else if s = ''ICMPv6'' then 58
      else num_val 10 s)"

lemma proto_text:
  fixes p :: u8
  shows "read_proto (proto_name (ucast p) 8) = unat p"
    "c \<notin> set ''0123456789TCPUDPICMPv6'' \<Longrightarrow> c \<notin> set (proto_name (ucast p) 8)"
proof -
  have len: "length (fmt_u p) \<le> 3" using unat_u8 [of p] by (intro fmt_u_length) auto
  have names: "fmt_u p \<noteq> s" if "\<not> set s \<subseteq> set ''0123456789''" for s
    using that dec_set [of "unat p"] by (auto simp: fmt_u_def simp del: list.set)
  have eq: "(ucast p :: cuint) = ucast q \<longleftrightarrow> p = q" for q :: u8
    by (simp add: word_unat_eq_iff)
  have u: "fmt_u (ucast p :: cuint) = fmt_u p" by (simp add: fmt_u_def)
  show "read_proto (proto_name (ucast p) 8) = unat p"
    using names len unfolding proto_name_def eq by (auto simp: read_proto_def u snprintf_fits)
  show "c \<notin> set (proto_name (ucast p) 8)" if "c \<notin> set ''0123456789TCPUDPICMPv6''"
    using that len fmt_no(1) [of c p] unfolding proto_name_def eq by (auto simp: u snprintf_fits)
qed

lemma proto_name_length: "length (proto_name (ucast p) 8) \<le> 6" for p :: u8
proof -
  have len: "length (fmt_u (ucast p :: cuint)) \<le> 3" using unat_u8 [of p] by (intro fmt_u_length) auto
  then have "snprintf 8 (fmt_u (ucast p :: cuint)) = fmt_u (ucast p :: cuint)" by (simp add: snprintf_fits)
  then show ?thesis using len by (simp add: proto_name_def)
qed

definition read_flags :: "string \<Rightarrow> u8" where
  "read_flags s = foldr (\<lambda>b acc. (if ''FSRPAUEC'' ! b \<in> set s then push_bit b 1 else 0) OR acc) [0..<8] 0"

lemma flag_bit: "ucast flags AND push_bit b (1 :: cuint) \<noteq> 0 \<longleftrightarrow> bit flags b" for flags :: u8
  unfolding bit_iff_and_push_bit_not_eq_0 [symmetric] by (auto simp: bit_simps dest: bit_imp_le_length)

lemma flag_letters:
  "b < 8 \<Longrightarrow> ''FSRPAUEC'' ! b \<in> set (format_tcp_flags flags) \<longleftrightarrow> bit flags b"
proof -
  have inj: "inj_on ((!) ''FSRPAUEC'') {0..<8}" by code_simp
  assume "b < 8"
  have "set (format_tcp_flags flags) = (!) ''FSRPAUEC'' ` {k \<in> {0..<8}. bit flags k}"
    unfolding format_tcp_flags_def flag_bit by auto
  then show ?thesis using \<open>b < 8\<close> by (auto dest!: inj_onD [OF inj])
qed

lemma read_format_flags [simp]: "read_flags (format_tcp_flags flags) = flags"
proof (rule bit_word_eqI)
  fix k assume k: "k < LENGTH(8)"
  have "bit (foldr (\<lambda>b acc. (if P b then push_bit b 1 else 0) OR acc) xs (0 :: u8)) k \<longleftrightarrow> k \<in> set xs \<and> P k" for P xs
    using k by (induction xs) (auto simp: bit_simps)
  then show "bit (read_flags (format_tcp_flags flags)) k = bit flags k"
    using k flag_letters by (simp add: read_flags_def)
qed

lemma read_flags_Nil [simp]: "read_flags [] = 0"
  by code_simp

lemma flags_no [no_sep]: "c \<notin> set ''FSRPAUEC'' \<Longrightarrow> c \<notin> set (format_tcp_flags flags)"
  by (auto simp: format_tcp_flags_def less_Suc_eq eval_nat_numeral)

section \<open>Printing\<close>

lemma for_each_total:
  "\<forall>i\<in>{a..<a + n}. \<forall>s. body i s = Some (g i s) \<Longrightarrow> for_each a n body s = Some (foldl (\<lambda>s i. g i s) s [a..<a + n])"
proof (induction n arbitrary: a s)
  case (Suc n)
  have "[a..<a + Suc n] = a # [a + 1..<a + 1 + n]"
    by (simp add: upt_conv_Cons del: upt_Suc)
  then show ?case using Suc by simp
qed simp

lemma foldl_nth: "foldl (\<lambda>s i. h (xs ! i) s) s [0..<length xs] = foldl (\<lambda>s x. h x s) s xs"
  using foldl_map [of "\<lambda>s x. h x s" s "(!) xs" "[0..<length xs]"] by (simp add: map_nth)

definition print_all :: "string list \<Rightarrow> out_file \<Rightarrow> out_file" where
  "print_all ls out = foldl (\<lambda>out l. fprintf l out) out ls"

lemma print_all_simps:
  "o_text (print_all ls out) = o_text out @ concat ls" "o_fault (print_all ls out) = o_fault out"
  "o_late (print_all ls out) = o_late out"
  by (induction ls arbitrary: out) (simp_all add: print_all_def fprintf_def)

lemma print_all_error:
  "o_error (print_all ls out) \<longleftrightarrow> o_error out \<or> (\<exists>k\<in>{1..length ls}. o_fault out (o_text out @ concat (take k ls)))"
proof (induction ls rule: rev_induct)
  case (snoc l ls)
  have "print_all (ls @ [l]) out = fprintf l (print_all ls out)" by (simp add: print_all_def)
  moreover have "{1..length (ls @ [l])} = insert (Suc (length ls)) {1..length ls}" by auto
  ultimately show ?case
    using snoc by (auto simp: fprintf_def print_all_simps)
qed (simp add: print_all_def)

text \<open>A stream that takes everything.\<close>

definition good_file :: out_file where
  "good_file = \<lparr>o_text = [], o_error = False, o_fault = \<lambda>_. False, o_late = \<lambda>_. False\<rparr>"

lemma good_file_text [simp]: "o_text good_file = []"
  by (simp add: good_file_def)

text \<open>Flows that come from decoded packets: addresses of 16 bytes, IPv4 or IPv6.\<close>

definition flow_ip :: "flow \<Rightarrow> bool" where
  "flow_ip f \<longleftrightarrow> key_ok (f_key f) \<and> (k_ip_version (f_key f) = 4 \<or> k_ip_version (f_key f) = 6)"

end
