(* ===== verification/Csv_Props.thy ===== *)
theory Csv_Props
  imports Report_Text Top_N
begin

text \<open>
  The CSV exports: the interface of a line format, its two instances, and that the file reads
  back as the table in ranking order.
\<close>

section \<open>A CSV export\<close>

text \<open>The table in ranking order.\<close>

definition ranking :: "flow_table \<Rightarrow> flow list" where
  "ranking t = qsort rank_cmp (flows t)"

lemma ranking_set [simp]: "set (ranking t) = set (flows t)"
  by (simp add: ranking_def)

lemma ranking_unique: "flow_inv t \<Longrightarrow> mset ys = mset (flows t) \<Longrightarrow> sorted_by rank_cmp ys \<Longrightarrow> ranking t = ys"
  unfolding ranking_def by (rule cmp_linear.qsort_unique [OF flows_linear, of t, symmetric]) simp_all

lemma flow_inv_small: "flow_inv t \<Longrightarrow> unat (t_count t) < 2 ^ 60"
proof -
  assume inv: "flow_inv t"
  have "7 * 2 ^ k \<le> (7 * 2 ^ 57 :: nat)" if "k \<le> 57" for k :: nat using power_increasing [OF that, of "2 :: nat"] by simp
  with inv show ?thesis unfolding flow_inv_def by fastforce
qed

lemma top_array_ok:
  assumes "flow_inv t" "n \<le> t_count t"
  shows "top_array al t n = Some (if al n then Inr (take (unat n) (ranking t)) else Inl ())"
proof -
  have "unat n < 2 ^ 60"
    using flow_inv_small [OF assms(1)] assms(2) by (simp add: word_le_nat_alt)
  then have "unat (n * 8) = unat n * 8" by (simp add: unat_word_ariths)
  then show ?thesis
    by (simp add: top_array_def malloc_ptrs_def flow_table_top_n_ok [OF assms(1)] ranking_def)
qed

text \<open>
  A CSV format: a header line, a row for each flow that is \<open>ok\<close> (its text ends with the only
  newline in it), and a way to read a row back.
\<close>

locale csv_format =
  fixes header_line :: string and row :: "flow \<Rightarrow> string option"
    and ok :: "flow \<Rightarrow> bool" and read :: "string \<Rightarrow> 'r option" and fields :: "flow \<Rightarrow> 'r"
  assumes header_one_line: "CHR ''\<newline>'' \<notin> set header_line"
    and row_reads: "ok f \<Longrightarrow> \<exists>l. row f = Some (l @ ''\<newline>'') \<and> CHR ''\<newline>'' \<notin> set l \<and> read l = Some (fields f)"
begin

definition line :: "flow \<Rightarrow> string" where
  "line f = butlast (the (row f))"

lemma row_line: "ok f \<Longrightarrow> row f = Some (line f @ ''\<newline>'')" "ok f \<Longrightarrow> CHR ''\<newline>'' \<notin> set (line f)"
    "ok f \<Longrightarrow> read (line f) = Some (fields f)"
  using row_reads [of f] by (auto simp: line_def)

definition printed :: "flow list \<Rightarrow> string list" where
  "printed fs = map (\<lambda>l. l @ ''\<newline>'') (header_line # map line fs)"

lemma split_printed:
  "\<forall>f\<in>set fs. ok f \<Longrightarrow> split_on CHR ''\<newline>'' (concat (printed fs)) = header_line # map line fs @ [[]]"
proof -
  have lines: "split_on CHR ''\<newline>'' (concat (map (\<lambda>f. line f @ ''\<newline>'') fs)) = map line fs @ [[]]" if "\<forall>f\<in>set fs. ok f"
    using that by (induction fs) (simp_all add: split_on_field row_line)
  then show "\<forall>f\<in>set fs. ok f \<Longrightarrow> ?thesis"
    by (simp add: printed_def comp_def split_on_field header_one_line)
qed

lemma export:
  assumes "flow_inv t" "\<forall>f\<in>set (flows t). ok f" "t_count t = 0 \<or> al (t_count t)"
  shows "csv_export (header_line @ ''\<newline>'') row al out t =
    (let out' = print_all (printed (ranking t)) out in Some (if o_error out' then -1 else 0, out'))"
proof -
  have all: "(if t_count t > 0 then top_array al t (t_count t) else Some (Inr [])) = Some (Inr (ranking t))"
  proof (cases "t_count t = 0")
    case True
    then have "flows t = []" using flow_inv_count [OF assms(1)] by simp
    then show ?thesis using True by (simp add: ranking_def)
  next
    case False
    have "length (ranking t) = unat (t_count t)"
      using flow_inv_count [OF assms(1)] by (simp add: ranking_def)
    moreover have "al (t_count t)" using False assms(3) by blast
    ultimately show ?thesis
      using False top_array_ok [OF assms(1), of "t_count t" al] by (simp add: word_neq_0_conv)
  qed
  have "for_each 0 (length (ranking t)) (\<lambda>i out. do { f \<leftarrow> rd (ranking t) i; l \<leftarrow> row f; Some (fprintf l out) }) out1 =
      Some (print_all (map (\<lambda>f. line f @ ''\<newline>'') (ranking t)) out1)" for out1
  proof -
    have "\<forall>i\<in>{0..<0 + length (ranking t)}. \<forall>s. do { f \<leftarrow> rd (ranking t) i; l \<leftarrow> row f; Some (fprintf l s) } =
        Some (fprintf (line (ranking t ! i) @ ''\<newline>'') s)"
      using assms(2) row_line(1) by (auto simp: rd_def) (metis nth_mem ranking_set bind.bind_lunit)
    from for_each_total [OF this] show ?thesis
      using foldl_nth [of "\<lambda>f s. fprintf (line f @ ''\<newline>'') s" "ranking t" out1]
      by (simp add: print_all_def foldl_map)
  qed
  then show ?thesis
    by (simp add: csv_export_def all printed_def print_all_def Let_def comp_def)
qed

end

section \<open>Reading the two formats\<close>

text \<open>What a row of the flow export says, and what it has to say of a flow.\<close>

record csv_flow =
  c_src :: "int \<times> u8 list"
  c_sport :: nat
  c_dst :: "int \<times> u8 list"
  c_dport :: nat
  c_proto :: nat
  c_version :: nat
  c_packets :: nat
  c_bytes :: nat
  c_first :: nat
  c_last :: nat
  c_duration :: nat
  c_flags :: u8

definition read_csv_row :: "string \<Rightarrow> csv_flow option" where
  "read_csv_row l =
     (case split_on CHR '','' l of
        [src, sport, dst, dport, proto, version, packets, bytes, t0, t1, d, flags] \<Rightarrow>
          Some \<lparr>c_src = parse_addr src, c_sport = num_val 10 sport, c_dst = parse_addr dst, c_dport = num_val 10 dport,
            c_proto = read_proto proto, c_version = num_val 10 version, c_packets = num_val 10 packets,
            c_bytes = num_val 10 bytes, c_first = read_ns t0, c_last = read_ns t1, c_duration = read_ns d,
            c_flags = read_flags flags\<rparr>
      | _ \<Rightarrow> None)"

definition csv_flow_of :: "flow \<Rightarrow> csv_flow" where
  "csv_flow_of f =
     (let k = f_key f; b = f_first_from_b f in
      \<lparr>c_src = addr_bytes (k_ip_version k) (if b then k_addr_b k else k_addr_a k),
       c_sport = unat (if b then k_port_b k else k_port_a k),
       c_dst = addr_bytes (k_ip_version k) (if b then k_addr_a k else k_addr_b k),
       c_dport = unat (if b then k_port_a k else k_port_b k),
       c_proto = unat (k_proto k), c_version = unat (k_ip_version k),
       c_packets = unat (f_packets f), c_bytes = unat (f_bytes f), c_first = unat (f_first_ts_ns f),
       c_last = unat (f_last_ts_ns f), c_duration = unat (f_last_ts_ns f - f_first_ts_ns f),
       c_flags = if k_proto k = IPPROTO_NUM_TCP then f_tcp_flags f else 0\<rparr>)"

text \<open>The same for tunnels.\<close>

record csv_tunnel =
  c_teid :: nat
  c_sender :: "int \<times> u8 list"
  c_receiver :: "int \<times> u8 list"
  c_totals :: "nat \<times> nat \<times> nat \<times> nat \<times> nat \<times> nat"

definition read_tunnel_row :: "string \<Rightarrow> csv_tunnel option" where
  "read_tunnel_row l =
     (case split_on CHR '','' l of
        [teid, src, dst, version, packets, bytes, t0, t1, d] \<Rightarrow>
          Some \<lparr>c_teid = num_val 16 (drop 2 teid), c_sender = parse_addr src, c_receiver = parse_addr dst,
            c_totals = (num_val 10 version, num_val 10 packets, num_val 10 bytes, read_ns t0, read_ns t1, read_ns d)\<rparr>
      | _ \<Rightarrow> None)"

definition csv_tunnel_of :: "flow \<Rightarrow> csv_tunnel" where
  "csv_tunnel_of f =
     \<lparr>c_teid = unat (k_teid (f_key f)), c_sender = addr_bytes (k_ip_version (f_key f)) (k_addr_a (f_key f)),
      c_receiver = addr_bytes (k_ip_version (f_key f)) (k_addr_b (f_key f)),
      c_totals = (unat (k_ip_version (f_key f)), unat (f_packets f), unat (f_bytes f), unat (f_first_ts_ns f),
        unat (f_last_ts_ns f), unat (f_last_ts_ns f - f_first_ts_ns f))\<rparr>"

lemma no_comma_line:
  "length a = 16 \<Longrightarrow> CHR '','' \<notin> set (addr_text v a)" "length a = 16 \<Longrightarrow> CHR ''\<newline>'' \<notin> set (addr_text v a)"
  "CHR '','' \<notin> set (fmt_u x)" "CHR ''\<newline>'' \<notin> set (fmt_u x)"
  "CHR '','' \<notin> set (fmt_ns y)" "CHR ''\<newline>'' \<notin> set (fmt_ns y)"
  "CHR '','' \<notin> set (fmt_teid t)" "CHR ''\<newline>'' \<notin> set (fmt_teid t)"
  "CHR '','' \<notin> set (proto_name (ucast p) 8)" "CHR ''\<newline>'' \<notin> set (proto_name (ucast p) 8)" for p :: u8
  by (rule addr_text_no fmt_no fmt_ns_no proto_text; simp)+

lemma no_comma_flags: "CHR '','' \<notin> set (format_tcp_flags x)" "CHR ''\<newline>'' \<notin> set (format_tcp_flags x)"
  by (rule flags_no; simp)+

lemma csv_endpoint_text:
  "flow_ip f \<Longrightarrow> csv_endpoint f want ADDR_STR_LEN =
     Some (if want \<longleftrightarrow> f_first_from_b f
           then (addr_text (k_ip_version (f_key f)) (k_addr_b (f_key f)), ucast (k_port_b (f_key f)))
           else (addr_text (k_ip_version (f_key f)) (k_addr_a (f_key f)), ucast (k_port_a (f_key f))))"
  by (auto simp: csv_endpoint_def flow_ip_def key_ok_def addr_format_text Let_def)

lemma tcp_name: "proto_name 6 8 = ''TCP''" "read_proto ''TCP'' = 6"
  by (simp_all add: proto_name_def read_proto_def)

interpretation flow_csv: csv_format "butlast csv_header" csv_row flow_ip read_csv_row csv_flow_of
proof
  show "CHR ''\<newline>'' \<notin> set (butlast csv_header)" by (simp add: csv_header_def)
  fix f assume ok: "flow_ip f"
  then have len: "length (k_addr_a (f_key f)) = 16" "length (k_addr_b (f_key f)) = 16"
    and v: "k_ip_version (f_key f) = 4 \<or> k_ip_version (f_key f) = 6"
    by (auto simp: flow_ip_def key_ok_def)
  note facts = csv_endpoint_text [OF ok] no_comma_line no_comma_flags len parse_addr_text [OF _ v] proto_text(1) tcp_name Let_def
  show "\<exists>l. csv_row f = Some (l @ ''\<newline>'') \<and> CHR ''\<newline>'' \<notin> set l \<and> read_csv_row l = Some (csv_flow_of f)"
    by (cases "f_first_from_b f"; cases "k_proto (f_key f) = IPPROTO_NUM_TCP")
      (simp_all add: csv_row_def facts read_csv_row_def csv_flow_of_def split_on_field split_on_last)
qed

interpretation tunnel_csv: csv_format "butlast tunnels_csv_header" tunnels_csv_row flow_ip read_tunnel_row csv_tunnel_of
proof
  show "CHR ''\<newline>'' \<notin> set (butlast tunnels_csv_header)" by (simp add: tunnels_csv_header_def)
  fix f assume ok: "flow_ip f"
  then have len: "length (k_addr_a (f_key f)) = 16" "length (k_addr_b (f_key f)) = 16"
    and v: "k_ip_version (f_key f) = 4 \<or> k_ip_version (f_key f) = 6"
    by (auto simp: flow_ip_def key_ok_def)
  show "\<exists>l. tunnels_csv_row f = Some (l @ ''\<newline>'') \<and> CHR ''\<newline>'' \<notin> set l \<and> read_tunnel_row l = Some (csv_tunnel_of f)"
    by (simp add: tunnels_csv_row_def tunnel_endpoints_def addr_format_text len no_comma_line parse_addr_text [OF _ v]
        read_tunnel_row_def csv_tunnel_of_def split_on_field split_on_last fmt_teid_val)
qed

lemma csv_header_line: "csv_header = butlast csv_header @ ''\<newline>''" "tunnels_csv_header = butlast tunnels_csv_header @ ''\<newline>''"
  by (simp_all add: csv_header_def tunnels_csv_header_def)

section \<open>CSV properties\<close>

lemma flow_csv_export:
  "flow_inv t \<Longrightarrow> \<forall>f\<in>set (flows t). flow_ip f \<Longrightarrow> t_count t = 0 \<or> al (t_count t) \<Longrightarrow>
    report_csv al out t = (let out' = print_all (flow_csv.printed (ranking t)) out in Some (if o_error out' then -1 else 0, out'))"
  using flow_csv.export [of t al out] by (simp add: report_csv_def csv_header_line [symmetric])

lemma tunnel_csv_export:
  "flow_inv t \<Longrightarrow> \<forall>f\<in>set (flows t). flow_ip f \<Longrightarrow> t_count t = 0 \<or> al (t_count t) \<Longrightarrow>
    report_tunnels_csv al out t = (let out' = print_all (tunnel_csv.printed (ranking t)) out in Some (if o_error out' then -1 else 0, out'))"
  using tunnel_csv.export [of t al out] by (simp add: report_tunnels_csv_def csv_header_line [symmetric])

text \<open>
  C28. Round trip of the CSV export. The export of a table is the header line and one
  line for each flow, in ranking order, and nothing else; splitting the text at the newlines
  and each line at the commas gives exactly twelve fields that read back as the flow: both endpoints
  as bytes, oriented from the sender of the first packet, the protocol, the totals, the
  times to the nanosecond and, for TCP, the flags. So no field needs quoting.
\<close>

theorem csv_round_trip:
  assumes "flow_inv t" "\<forall>f\<in>set (flows t). flow_ip f" "t_count t = 0 \<or> al (t_count t)"
    "mset ys = mset (flows t)" "sorted_by rank_cmp ys"
  shows "\<exists>r out' text rows. report_csv al out t = Some (r, out') \<and> o_text out' = o_text out @ text \<and>
    split_on CHR ''\<newline>'' text = butlast csv_header # rows @ [[]] \<and>
    map read_csv_row rows = map (\<lambda>f. Some (csv_flow_of f)) ys"
proof -
  have ys: "ranking t = ys" "\<forall>f\<in>set ys. flow_ip f"
    using ranking_unique [OF assms(1,4,5)] assms(2) mset_eq_setD [OF assms(4)] by auto
  then show ?thesis
    using flow_csv_export [of t al out, OF assms(1-3)] flow_csv.split_printed [of ys]
    by (auto simp: Let_def print_all_simps flow_csv.row_line)
qed

lemma sample_table_flows0: "t_count sample_table = 0"
  by (simp add: sample_table_def)

lemma sample_two_flows:
  "case sample_two of None \<Rightarrow> False | Some t \<Rightarrow> list_all flow_ip (flows t) \<and>
     map (unat \<circ> f_bytes) (qsort rank_cmp (flows t)) = [1500, 60]"
  by code_simp

lemma sample_two_table:
  obtains t where "sample_two = Some t" "flow_inv t" "\<forall>f\<in>set (flows t). flow_ip f"
    "map (unat \<circ> f_bytes) (ranking t) = [1500, 60]" "sorted_by rank_cmp (ranking t)" "mset (ranking t) = mset (flows t)"
proof -
  obtain t where t: "sample_two = Some t" "flow_inv t" using sample_two_ok by blast
  have "sorted_by rank_cmp (ranking t)"
    unfolding ranking_def using cmp_order.qsort_sorted [OF cmp_linear.axioms(1) [OF flows_linear [OF t(2)]]] by simp
  then show ?thesis
    using that [OF t] sample_two_flows unfolding t(1) option.case list_all_iff by (simp add: ranking_def)
qed

theorem csv_round_trip_witness:
  "\<exists>t r out' text rows. sample_two = Some t \<and> report_csv (\<lambda>_. True) good_file t = Some (r, out') \<and> o_text out' = text \<and>
    split_on CHR ''\<newline>'' text = butlast csv_header # rows @ [[]] \<and>
    map (map_option c_bytes \<circ> read_csv_row) rows = [Some 1500, Some 60]"
proof -
  obtain t where t: "sample_two = Some t" "flow_inv t" "\<forall>f\<in>set (flows t). flow_ip f"
    "map (unat \<circ> f_bytes) (ranking t) = [1500, 60]" "sorted_by rank_cmp (ranking t)" "mset (ranking t) = mset (flows t)"
    by (rule sample_two_table)
  obtain r out' s rows where *: "report_csv (\<lambda>_. True) good_file t = Some (r, out')" "o_text out' = o_text good_file @ s"
      "split_on CHR ''\<newline>'' s = butlast csv_header # rows @ [[]]"
      "map read_csv_row rows = map (\<lambda>f. Some (csv_flow_of f)) (ranking t)"
    using csv_round_trip [OF t(2,3) _ t(6,5), of "\<lambda>_. True" good_file] by blast
  have "map (map_option c_bytes) (map read_csv_row rows) = map Some (map (unat \<circ> f_bytes) (ranking t))"
    unfolding *(4) by (simp add: csv_flow_of_def Let_def)
  then have "map (map_option c_bytes \<circ> read_csv_row) rows = [Some 1500, Some 60]"
    unfolding t(4) by simp
  with *(1-3) t(1) show ?thesis
    by (intro exI [of _ t] exI [of _ r] exI [of _ out'] exI [of _ s] exI [of _ rows]) simp
qed

text \<open>
  C29. Round trip of the tunnel export: one line for each tunnel in ranking order, whose nine fields read
  back as the TEID, the sender, the receiver and the totals of the tunnel.
\<close>

theorem tunnels_csv_round_trip:
  assumes "flow_inv t" "\<forall>f\<in>set (flows t). flow_ip f" "t_count t = 0 \<or> al (t_count t)"
    "mset ys = mset (flows t)" "sorted_by rank_cmp ys"
  shows "\<exists>r out' text rows. report_tunnels_csv al out t = Some (r, out') \<and> o_text out' = o_text out @ text \<and>
    split_on CHR ''\<newline>'' text = butlast tunnels_csv_header # rows @ [[]] \<and>
    map read_tunnel_row rows = map (\<lambda>f. Some (csv_tunnel_of f)) ys"
proof -
  have ys: "ranking t = ys" "\<forall>f\<in>set ys. flow_ip f"
    using ranking_unique [OF assms(1,4,5)] assms(2) mset_eq_setD [OF assms(4)] by auto
  then show ?thesis
    using tunnel_csv_export [of t al out, OF assms(1-3)] tunnel_csv.split_printed [of ys]
    by (auto simp: Let_def print_all_simps tunnel_csv.row_line)
qed

theorem tunnels_csv_round_trip_witness:
  "\<exists>t r out' text rows. sample_two = Some t \<and> report_tunnels_csv (\<lambda>_. True) good_file t = Some (r, out') \<and> o_text out' = text \<and>
    split_on CHR ''\<newline>'' text = butlast tunnels_csv_header # rows @ [[]] \<and> length rows = 2"
proof -
  obtain t where t: "sample_two = Some t" "flow_inv t" "\<forall>f\<in>set (flows t). flow_ip f"
    "map (unat \<circ> f_bytes) (ranking t) = [1500, 60]" "sorted_by rank_cmp (ranking t)" "mset (ranking t) = mset (flows t)"
    by (rule sample_two_table)
  obtain r out' s rows where *: "report_tunnels_csv (\<lambda>_. True) good_file t = Some (r, out')" "o_text out' = o_text good_file @ s"
      "split_on CHR ''\<newline>'' s = butlast tunnels_csv_header # rows @ [[]]"
      "map read_tunnel_row rows = map (\<lambda>f. Some (csv_tunnel_of f)) (ranking t)"
    using tunnels_csv_round_trip [OF t(2,3) _ t(6,5), of "\<lambda>_. True" good_file] by blast
  have "length rows = 2"
    using arg_cong [OF *(4), of length] arg_cong [OF t(4), of length] by simp
  with *(1-3) t(1) show ?thesis
    by (intro exI [of _ t] exI [of _ r] exI [of _ out'] exI [of _ s] exI [of _ rows]) simp
qed

text \<open>
  C30. Errors of the export. Without memory for the sorted table the export fails and prints
  nothing. Otherwise it prints everything, with one call for each line; it returns 0 exactly if the stream had
  no error before and none of these calls reports one, and -1 if not.
\<close>

theorem csv_export_errors:
  assumes "flow_inv t" "\<forall>f\<in>set (flows t). flow_ip f"
  shows "\<exists>r out' ls. report_csv al out t = Some (r, out') \<and> o_text out' = o_text out @ concat ls \<and>
    (if t_count t \<noteq> 0 \<and> \<not> al (t_count t) then r = -1 \<and> ls = []
     else length ls = length (flows t) + 1 \<and>
       r = (if o_error out \<or> (\<exists>k\<in>{1..length ls}. o_fault out (o_text out @ concat (take k ls))) then -1 else 0))"
proof (cases "t_count t \<noteq> 0 \<and> \<not> al (t_count t)")
  case True
  then have "top_array al t (t_count t) = Some (Inl ())"
    using top_array_ok [OF assms(1), of "t_count t" al] by simp
  then show ?thesis
    using True by (intro exI [of _ "-1"] exI [of _ out] exI [of _ "[]"]) (simp add: report_csv_def csv_export_def word_neq_0_conv)
next
  case False
  let ?ls = "flow_csv.printed (ranking t)"
  have "length ?ls = length (flows t) + 1"
    by (simp add: flow_csv.printed_def ranking_def)
  then show ?thesis
    using False flow_csv_export [OF assms, of al out]
    by (intro exI [of _ "if o_error (print_all ?ls out) then -1 else 0"] exI [of _ "print_all ?ls out"] exI [of _ ?ls])
      (auto simp: Let_def print_all_simps print_all_error)
qed

theorem csv_export_errors_witness:
  "\<exists>r out' ls. report_csv (\<lambda>_. True) (good_file\<lparr>o_fault := \<lambda>_. True\<rparr>) sample_table = Some (r, out') \<and> r = -1 \<and> length ls = 1 \<and>
     o_text out' = concat ls"
  using csv_export_errors [of sample_table "\<lambda>_. True" "good_file\<lparr>o_fault := \<lambda>_. True\<rparr>"] sample_table_inv
  by (auto simp: sample_table_flows0 good_file_def)

end
