(* ===== verification/Report_Props.thy ===== *)
theory Report_Props
  imports Report_Text Stats_Props
begin

text \<open>
  What the printed reports guarantee: dates, endpoints, the columns of the tables, and the
  numbers of the GTP-U part.
\<close>

section \<open>Dates\<close>

text \<open>A calendar date, and the seconds from 1970 to it.\<close>

definition tm_ok :: "tm \<Rightarrow> bool" where
  "tm_ok tm \<longleftrightarrow> 1970 \<le> tm_year tm \<and> tm_mon tm \<in> {1..12} \<and> tm_mday tm \<in> {1..month_days (tm_year tm) ! (tm_mon tm - 1)} \<and>
     tm_hour tm < 24 \<and> tm_min tm < 60 \<and> tm_sec tm < 60"

definition unix_time :: "tm \<Rightarrow> nat" where
  "unix_time tm =
     86400 * ((\<Sum>y\<leftarrow>[1970..<tm_year tm]. year_days y) + sum_list (take (tm_mon tm - 1) (month_days (tm_year tm))) +
       (tm_mday tm - 1)) + 3600 * tm_hour tm + 60 * tm_min tm + tm_sec tm"

lemma year_of_ok:
  "year_of y d = (y', d') \<Longrightarrow> y \<le> y' \<and> d' < year_days y' \<and> d = (\<Sum>x\<leftarrow>[y..<y']. year_days x) + d' \<and> 365 * (y' - y) \<le> d"
proof (induction y d rule: year_of.induct)
  case (1 y d)
  show ?case
  proof (cases "d < year_days y")
    case True
    then show ?thesis using 1 by (simp add: year_of.simps [of y d])
  next
    case False
    then have "year_of (y + 1) (d - year_days y) = (y', d')"
      using 1 by (simp add: year_of.simps [of y d])
    with 1 False have ih: "y + 1 \<le> y'" "d' < year_days y'" "d - year_days y = (\<Sum>x\<leftarrow>[y + 1..<y']. year_days x) + d'"
        "365 * (y' - (y + 1)) \<le> d - year_days y"
      by auto
    moreover have "[y..<y'] = y # [y + 1..<y']" using ih(1) by (simp add: upt_conv_Cons)
    moreover have "365 \<le> year_days y" by (simp add: year_days_def)
    ultimately show ?thesis using False by auto
  qed
qed

lemma month_of_ok:
  "d < sum_list ns \<Longrightarrow> \<exists>k d'. month_of ns m d = (m + k, d') \<and> k < length ns \<and> d' < ns ! k \<and> d = sum_list (take k ns) + d'"
proof (induction ns arbitrary: m d)
  case (Cons n ns)
  show ?case
  proof (cases "d < n")
    case True
    then show ?thesis by (auto intro!: exI [of _ 0])
  next
    case False
    then have "d - n < sum_list ns" using Cons.prems by simp
    from Cons.IH [OF this, of "m + 1"] obtain k d' where
      "month_of ns (m + 1) (d - n) = (m + 1 + k, d')" "k < length ns" "d' < ns ! k" "d - n = sum_list (take k ns) + d'"
      by blast
    then show ?thesis using False by (intro exI [of _ "Suc k"] exI [of _ d']) auto
  qed
qed simp

lemma month_days_sum: "sum_list (month_days y) = year_days y" "length (month_days y) = 12"
  by (simp_all add: month_days_def year_days_def)

lemma gmtime_ok: "tm_ok (gmtime s) \<and> unix_time (gmtime s) = s \<and> 365 * (tm_year (gmtime s) - 1970) \<le> s div 86400"
proof -
  obtain y d where y: "year_of 1970 (s div 86400) = (y, d)" by fastforce
  note yd = year_of_ok [OF y]
  then obtain k e where k: "month_of (month_days y) 1 d = (1 + k, e)" "k < 12" "e < month_days y ! k"
      "d = sum_list (take k (month_days y)) + e"
    using month_of_ok [of d "month_days y" 1] by (auto simp: month_days_sum)
  have t: "s = 86400 * (s div 86400) + 3600 * (s mod 86400 div 3600) + 60 * (s mod 3600 div 60) + s mod 60"
  proof -
    have "s mod 86400 mod 3600 = s mod 3600" "s mod 3600 mod 60 = s mod 60"
      by (rule mod_mod_cancel, simp)+
    then show ?thesis
      using mult_div_mod_eq [of 86400 s] mult_div_mod_eq [of 3600 "s mod 86400"] mult_div_mod_eq [of 60 "s mod 3600"]
      by linarith
  qed
  have "s mod 86400 div 3600 < 24" "s mod 3600 div 60 < 60"
    by (simp_all add: div_less_iff_less_mult)
  moreover have g: "gmtime s = \<lparr>tm_year = y, tm_mon = 1 + k, tm_mday = e + 1,
      tm_hour = s mod 86400 div 3600, tm_min = s mod 3600 div 60, tm_sec = s mod 60\<rparr>"
    using k(1) by (simp add: gmtime_def y)
  ultimately show ?thesis
    unfolding g using yd k(2-4) t by (simp add: tm_ok_def unix_time_def)
qed

lemma two_digits_length: "n < 100 \<Longrightarrow> length (two_digits n) = 2"
  using dec_length [of n 2] by (simp add: two_digits_def pad_left_def)

lemma strftime_ok:
  assumes "tm_ok tm" "tm_year tm < 10000"
  shows "strftime 32 tm = Some (dec (tm_year tm) @ ''-'' @ two_digits (tm_mon tm) @ ''-'' @ two_digits (tm_mday tm) @ '' '' @
    two_digits (tm_hour tm) @ '':'' @ two_digits (tm_min tm) @ '':'' @ two_digits (tm_sec tm))"
proof -
  have "\<forall>n\<in>set (month_days (tm_year tm)). n < 100" by (simp add: month_days_def)
  then have "month_days (tm_year tm) ! (tm_mon tm - 1) < 100"
    using assms(1) by (elim bspec) (auto simp: tm_ok_def month_days_sum intro!: nth_mem)
  then have "tm_mon tm < 100" "tm_mday tm < 100" "tm_hour tm < 100" "tm_min tm < 100" "tm_sec tm < 100"
    using assms(1) by (auto simp: tm_ok_def)
  then show ?thesis
    using two_digits_length dec_length [of "tm_year tm" 4] assms(2) by (simp add: strftime_def Let_def)
qed

text \<open>
  C36. Dates. For every 64-bit time in nanoseconds the first and the last packet are dated with
  the valid calendar date and time of day whose Unix time is the number of whole seconds, to
  the microsecond; the fallback that prints plain seconds is never taken, and the text fits its buffer.
\<close>

theorem print_utc_date:
  "\<exists>tm. tm_ok tm \<and> unix_time tm = unat ts div 1000000000 \<and>
    o_text (print_utc ts out) = o_text out @ dec (tm_year tm) @ ''-'' @ two_digits (tm_mon tm) @ ''-'' @
      two_digits (tm_mday tm) @ '' '' @ two_digits (tm_hour tm) @ '':'' @ two_digits (tm_min tm) @ '':'' @
      two_digits (tm_sec tm) @ ''.'' @ pad_left CHR ''0'' 6 (dec (unat ts mod 1000000000 div 1000)) @ '' UTC''"
proof -
  let ?s = "unat ts div 1000000000"
  have "unat ts < 2 ^ 64" using unsigned_less [of ts] by simp
  then have "?s div 86400 < 300000" by (simp add: div_less_iff_less_mult)
  then have year: "tm_year (gmtime ?s) < 10000" using gmtime_ok [of ?s] by linarith
  have usec: "unat (ucast (ts mod NS_PER_SEC div 1000) :: cuint) = unat ts mod 1000000000 div 1000"
    by (simp add: unsigned_ucast_eq unat_mod unat_div take_bit_nat_eq_self_iff less_mult_imp_div_less del: unat_ucast_up)
  show ?thesis
    using gmtime_ok [of ?s] strftime_ok [OF _ year]
    by (intro exI [of _ "gmtime ?s"]) (simp add: print_utc_def unat_div fprintf_def fmt_0u_def fmt_u_def usec Let_def)
qed

section \<open>Endpoints\<close>

text \<open>Reading an endpoint: with a port, \<open>[v6]:port\<close> or \<open>v4:port\<close>; without one, an address.\<close>

definition read_endpoint :: "bool \<Rightarrow> string \<Rightarrow> (int \<times> u8 list) \<times> nat" where
  "read_endpoint ports s =
     (if \<not> ports then (parse_addr s, 0)
      else if hd s = CHR ''['' then
        (case split_on CHR '']'' (tl s) of [a, p] \<Rightarrow> (parse_addr a, num_val 10 (tl p)) | _ \<Rightarrow> undefined)
      else (case split_on CHR '':'' s of [a, p] \<Rightarrow> (parse_addr a, num_val 10 p) | _ \<Rightarrow> undefined))"

lemma format_endpoint_ok:
  assumes "length a = 16" "k_ip_version k = 4 \<or> k_ip_version k = 6" "len = ENDPOINT_STR_LEN"
  shows "\<exists>s. format_endpoint k a port len = Some s \<and> length s \<le> 47 \<and>
    read_endpoint (has_ports (k_proto k)) s =
      (addr_bytes (k_ip_version k) a, if has_ports (k_proto k) then unat port else 0)"
proof -
  let ?t = "addr_text (k_ip_version k) a"
  have p: "length (fmt_u port) \<le> 5" using unat_u16 [of port] by (intro fmt_u_length) auto
  note len = addr_text_fits [OF assms(1), of "k_ip_version k"]
  have fmt: "addr_format (uint (k_ip_version k)) a [] ADDR_STR_LEN = Some ?t"
    using addr_format_text [OF assms(1)] by simp
  note read = parse_addr_text [OF assms(1,2)]
  have no: "CHR ''['' \<notin> set ?t" "CHR '']'' \<notin> set ?t" "CHR '']'' \<notin> set ('':'' @ fmt_u port)" "CHR '':'' \<notin> set (fmt_u port)"
    using addr_text_no [OF assms(1)] fmt_no(1) [of _ port] by simp_all
  consider "\<not> has_ports (k_proto k)" | "has_ports (k_proto k)" "k_ip_version k = 6" | "has_ports (k_proto k)" "k_ip_version k = 4"
    using assms(2) by blast
  then show ?thesis
  proof cases
    case 1
    then show ?thesis using fmt len read by (simp add: format_endpoint_def assms(3) snprintf_fits read_endpoint_def)
  next
    case 2
    have "split_on CHR '']'' (?t @ '']'' @ '':'' @ fmt_u port) = [?t, '':'' @ fmt_u port]"
      using no by (simp add: split_on_field split_on_last)
    then show ?thesis using 2 fmt len p read by (simp add: format_endpoint_def assms(3) snprintf_fits read_endpoint_def)
  next
    case 3
    then have colon: "CHR '':'' \<notin> set ?t" using dotted_no_sep assms(1) by (simp add: addr_text_4)
    have "?t \<noteq> []" using 3(2) assms(1) by (simp add: addr_text_4 dotted_def)
    then have "hd (?t @ '':'' @ fmt_u port) \<noteq> CHR ''[''" using no(1) by (cases ?t) auto
    moreover have "split_on CHR '':'' (?t @ '':'' @ fmt_u port) = [?t, fmt_u port]"
      using no colon by (simp add: split_on_field split_on_last)
    ultimately show ?thesis using 3 fmt len p read by (simp add: format_endpoint_def assms(3) snprintf_fits read_endpoint_def)
  qed
qed

lemma flow_endpoints_ok:
  assumes "flow_ip f"
  shows "\<exists>src dst. flow_endpoints f ENDPOINT_STR_LEN = Some (src, dst) \<and>
    length src < ENDPOINT_STR_LEN \<and> length dst < ENDPOINT_STR_LEN \<and>
    (let k = f_key f; b = f_first_from_b f; ports = has_ports (k_proto k) in
     read_endpoint ports src = (addr_bytes (k_ip_version k) (if b then k_addr_b k else k_addr_a k),
       if ports then unat (if b then k_port_b k else k_port_a k) else 0) \<and>
     read_endpoint ports dst = (addr_bytes (k_ip_version k) (if b then k_addr_a k else k_addr_b k),
       if ports then unat (if b then k_port_a k else k_port_b k) else 0))"
proof -
  let ?k = "f_key f"
  have len: "length (k_addr_a ?k) = 16" "length (k_addr_b ?k) = 16"
    and v: "k_ip_version ?k = 4 \<or> k_ip_version ?k = 6"
    using assms by (auto simp: flow_ip_def key_ok_def)
  obtain sa where a: "format_endpoint ?k (k_addr_a ?k) (k_port_a ?k) ENDPOINT_STR_LEN = Some sa" "length sa \<le> 47"
      "read_endpoint (has_ports (k_proto ?k)) sa =
        (addr_bytes (k_ip_version ?k) (k_addr_a ?k), if has_ports (k_proto ?k) then unat (k_port_a ?k) else 0)"
    using format_endpoint_ok [OF len(1) v refl] by blast
  obtain sb where b: "format_endpoint ?k (k_addr_b ?k) (k_port_b ?k) ENDPOINT_STR_LEN = Some sb" "length sb \<le> 47"
      "read_endpoint (has_ports (k_proto ?k)) sb =
        (addr_bytes (k_ip_version ?k) (k_addr_b ?k), if has_ports (k_proto ?k) then unat (k_port_b ?k) else 0)"
    using format_endpoint_ok [OF len(2) v refl] by blast
  show ?thesis
    using a b by (cases "f_first_from_b f") (simp_all add: flow_endpoints_def Let_def)
qed

text \<open>
  C34. Endpoints. The two endpoint texts of a flow fit their buffers without being cut, and read
  back as the address and, for TCP and UDP, the port of the sender and of the receiver of
  the first packet.
\<close>

theorem flow_endpoints_read_back:
  assumes "flow_ip f"
  shows "\<exists>src dst. flow_endpoints f ENDPOINT_STR_LEN = Some (src, dst) \<and>
    length src < ENDPOINT_STR_LEN \<and> length dst < ENDPOINT_STR_LEN \<and>
    (let k = f_key f; b = f_first_from_b f; ports = has_ports (k_proto k) in
     read_endpoint ports src = (addr_bytes (k_ip_version k) (if b then k_addr_b k else k_addr_a k),
       if ports then unat (if b then k_port_b k else k_port_a k) else 0) \<and>
     read_endpoint ports dst = (addr_bytes (k_ip_version k) (if b then k_addr_a k else k_addr_b k),
       if ports then unat (if b then k_port_a k else k_port_b k) else 0))"
  using flow_endpoints_ok [OF assms] .

definition sample_flow :: flow where
  "sample_flow = flow0\<lparr>f_key := flow_key0\<lparr>k_ip_version := 4, k_proto := 17, k_port_a := 53,
     k_addr_a := [192, 0, 2, 1, 0, 0, 0, 0, 0, 0, 0, 0, 0, 0, 0, 0]\<rparr>\<rparr>"

lemma sample_flow_ip: "flow_ip sample_flow"
  by code_simp

theorem flow_endpoints_read_back_witness:
  "\<exists>src dst. flow_endpoints sample_flow ENDPOINT_STR_LEN = Some (src, dst) \<and>
     read_endpoint True src = ((4, [192, 0, 2, 1]), 53) \<and> read_endpoint True dst = ((4, replicate 4 0), 0)"
  using flow_endpoints_read_back [OF sample_flow_ip]
  by (auto simp: sample_flow_def flow0_def flow_key0_def has_ports_def addr_bytes_def Let_def)

section \<open>Tables\<close>

lemma column_widths_ok:
  assumes "\<forall>f\<in>set tops. endpoints f \<noteq> None"
  shows "\<exists>w1 w2. column_widths endpoints tops (length tops) = Some (w1, w2) \<and> 3 \<le> w1 \<and> 3 \<le> w2 \<and>
    (\<forall>f\<in>set tops. \<exists>src dst. endpoints f = Some (src, dst) \<and> length src \<le> w1 \<and> length dst \<le> w2)"
proof -
  define e where "e f = the (endpoints f)" for f
  define wider where "wider f w = (max (fst w) (length (fst (e f))), max (snd w) (length (snd (e f))))" for f and w :: "nat \<times> nat"
  have "\<forall>i\<in>{0..<0 + length tops}. \<forall>w. (case w of (src_w, dst_w) \<Rightarrow> do {
      f \<leftarrow> rd tops i;
      (src, dst) \<leftarrow> endpoints f;
      Some (if length src > src_w then length src else src_w, if length dst > dst_w then length dst else dst_w) }) =
      Some (wider (tops ! i) w)" (is "\<forall>i\<in>_. \<forall>w. ?P i w")
  proof (intro ballI allI)
    fix i w assume "i \<in> {0..<0 + length tops}"
    then have "i < length tops" "endpoints (tops ! i) = Some (e (tops ! i))"
      using assms by (simp_all add: e_def)
    then show "?P i w"
      by (cases w; cases "e (tops ! i)") (simp add: wider_def max_def)
  qed
  from for_each_total [OF this, of "(3, 3)"]
  have run: "column_widths endpoints tops (length tops) = Some (foldl (\<lambda>w f. wider f w) (3, 3) tops)"
    using foldl_nth [of wider tops "(3, 3)"] by (simp add: column_widths_def)
  have "fst w \<le> fst (foldl (\<lambda>w f. wider f w) w xs) \<and> snd w \<le> snd (foldl (\<lambda>w f. wider f w) w xs) \<and>
      (\<forall>f\<in>set xs. length (fst (e f)) \<le> fst (foldl (\<lambda>w f. wider f w) w xs) \<and>
                 length (snd (e f)) \<le> snd (foldl (\<lambda>w f. wider f w) w xs))" for w xs
  proof (induction xs arbitrary: w)
    case (Cons x xs)
    from Cons.IH [of "wider x w"] show ?case by (auto simp: wider_def)
  qed simp
  from this [of "(3, 3)" tops] show ?thesis
    using run assms unfolding e_def by (metis fst_conv snd_conv option.exhaust_sel prod.exhaust_sel)
qed

lemma rows_printed:
  assumes "\<And>i f. f \<in> set tops \<Longrightarrow> row i f = Some (text_of i f)"
  shows "for_each 0 (length tops) (\<lambda>i out. do { f \<leftarrow> rd tops i; l \<leftarrow> row i f; Some (fprintf l out) }) out =
    Some (print_all (map (\<lambda>i. text_of i (tops ! i)) [0..<length tops]) out)"
proof -
  have "\<forall>i\<in>{0..<0 + length tops}. \<forall>s. do { f \<leftarrow> rd tops i; l \<leftarrow> row i f; Some (fprintf l s) } =
      Some (fprintf (text_of i (tops ! i)) s)"
    using assms by simp
  from for_each_total [OF this] show ?thesis
    by (simp add: print_all_def foldl_map)
qed

lemma pad_right_length: "length s \<le> w \<Longrightarrow> length (pad_right w s) = w"
  by (simp add: pad_right_def)

lemma flow_endpoints_total: "flow_ip f \<Longrightarrow> flow_endpoints f ENDPOINT_STR_LEN \<noteq> None"
  using flow_endpoints_ok [of f] by fastforce

lemma tunnel_endpoints_total: "flow_ip f \<Longrightarrow> tunnel_endpoints f ADDR_STR_LEN \<noteq> None"
  by (simp add: tunnel_endpoints_def flow_ip_def key_ok_def addr_format_text)

text \<open>What stands before the endpoints: the rank and the protocol.\<close>

definition row_prefix :: "nat \<Rightarrow> flow \<Rightarrow> string" where
  "row_prefix i f = pad_left CHR '' '' 3 (dec (i + 1)) @ ''  '' @ pad_right 6 (proto_name (ucast (k_proto (f_key f))) 8) @ ''  ''"

lemma row_prefix_length:
  "length (row_prefix i f) = 13 + (length (dec (i + 1)) - 3)" "i < 999 \<Longrightarrow> length (row_prefix i f) = 13"
proof -
  show *: "length (row_prefix i f) = 13 + (length (dec (i + 1)) - 3)"
    using proto_name_length [of "k_proto (f_key f)"] by (simp add: row_prefix_def pad_left_def pad_right_length)
  show "length (row_prefix i f) = 13" if "i < 999"
    using that dec_length [of "i + 1" 3] unfolding * by simp
qed

text \<open>
  C35. Tables. The table of the top flows is a title, a heading and one row for each flow in
  the given order. Each row has its rank, its protocol, and both endpoints in full, padded to the width that
  the endpoint columns have in the heading. What stands before the endpoints is as long in a row as in the heading, 13 characters, for the ranks
  up to 999, so the columns of these rows are aligned with the heading and with each other; from rank 1000 on (\<open>-n\<close>
  allows 1000000) a row is shifted to the right by the digits of its rank beyond the third.
\<close>

theorem top_flows_table:
  assumes "\<forall>f\<in>set tops. flow_ip f" "tops \<noteq> []"
  shows "\<exists>w1 w2 title heading1 heading2 rows. report_top_flows out tops (length tops) c =
      Some (print_all (title # (heading1 @ pad_right w1 ''src'' @ ''  '' @ pad_right w2 ''dst'' @ heading2) # rows) out) \<and>
    heading1 = ''  #  proto   '' \<and> length (pad_right w1 ''src'') = w1 \<and> length (pad_right w2 ''dst'') = w2 \<and> length rows = length tops \<and>
    (\<forall>i<length tops. \<exists>src dst rest. flow_endpoints (tops ! i) ENDPOINT_STR_LEN = Some (src, dst) \<and>
       rows ! i = row_prefix i (tops ! i) @ pad_right w1 src @ ''  '' @ pad_right w2 dst @ ''  '' @ rest \<and>
       length (pad_right w1 src) = w1 \<and> length (pad_right w2 dst) = w2 \<and>
       length (row_prefix i (tops ! i)) = length heading1 + (length (dec (i + 1)) - 3) \<and>
       (i < 999 \<longrightarrow> length (row_prefix i (tops ! i)) = length heading1))"
proof -
  let ?e = "\<lambda>f. flow_endpoints f ENDPOINT_STR_LEN"
  obtain w1 w2 where w: "column_widths ?e tops (length tops) = Some (w1, w2)" "3 \<le> w1" "3 \<le> w2"
      "\<forall>f\<in>set tops. \<exists>src dst. ?e f = Some (src, dst) \<and> length src \<le> w1 \<and> length dst \<le> w2"
    using column_widths_ok [of tops ?e] assms(1) flow_endpoints_total by blast
  have row: "top_flow_row w1 w2 i f = Some (the (top_flow_row w1 w2 i f))" if "f \<in> set tops" for i f
    using bspec [OF w(4) that] by (auto simp: top_flow_row_def)
  let ?rows = "map (\<lambda>i. the (top_flow_row w1 w2 i (tops ! i))) [0..<length tops]"
  have "\<exists>src dst rest. ?e (tops ! i) = Some (src, dst) \<and>
       ?rows ! i = row_prefix i (tops ! i) @ pad_right w1 src @ ''  '' @ pad_right w2 dst @ ''  '' @ rest \<and>
       length (pad_right w1 src) = w1 \<and> length (pad_right w2 dst) = w2 \<and>
       length (row_prefix i (tops ! i)) = length ''  #  proto   '' + (length (dec (i + 1)) - 3) \<and>
       (i < 999 \<longrightarrow> length (row_prefix i (tops ! i)) = length ''  #  proto   '')" if "i < length tops" for i
  proof -
    have mem: "tops ! i \<in> set tops" using that by simp
    obtain src dst where "?e (tops ! i) = Some (src, dst)" "length src \<le> w1" "length dst \<le> w2"
      using bspec [OF w(4) mem] by blast
    moreover have "length (row_prefix i (tops ! i)) = length ''  #  proto   '' + (length (dec (i + 1)) - 3)"
        "i < 999 \<longrightarrow> length (row_prefix i (tops ! i)) = length ''  #  proto   ''"
      using row_prefix_length [of i "tops ! i"] by simp_all
    moreover have "\<exists>rest. ?rows ! i = row_prefix i (tops ! i) @ pad_right w1 src @ ''  '' @ pad_right w2 dst @ ''  '' @ rest"
      using that calculation(1) by (auto simp: top_flow_row_def row_prefix_def Let_def)
    ultimately show ?thesis by (auto simp: pad_right_length)
  qed
  moreover
  let ?title = "''\<newline>Top '' @ dec (length tops) @ '' of '' @ fmt_u c @ '' flows by bytes (src = sender of the first packet seen):\<newline>''"
  let ?h1 = "pad_left CHR '' '' 3 ''#'' @ ''  '' @ pad_right 6 ''proto'' @ ''  ''"
  let ?h2 = "''  '' @ pad_left CHR '' '' 8 ''packets'' @ ''  '' @ pad_left CHR '' '' 10 ''bytes'' @ ''  '' @
         pad_left CHR '' '' 12 ''duration'' @ ''  tcp flags\<newline>''"
  have "report_top_flows out tops (length tops) c =
      Some (print_all (?title # (?h1 @ pad_right w1 ''src'' @ ''  '' @ pad_right w2 ''dst'' @ ?h2) # ?rows) out)"
    using assms(2) w(1) rows_printed [of tops "top_flow_row w1 w2", OF row]
    by (simp add: report_top_flows_def print_all_def)
  moreover have h1: "?h1 = ''  #  proto   ''" by (simp add: pad_left_def pad_right_def numeral_2_eq_2)
  moreover have "length (pad_right w1 ''src'') = w1" "length (pad_right w2 ''dst'') = w2" "length ?rows = length tops"
    using w(2,3) by (simp_all add: pad_right_length)
  ultimately show ?thesis unfolding h1 by blast
qed

theorem top_flows_table_witness:
  "\<exists>w1 w2 title heading rows src dst rest. report_top_flows good_file [sample_flow] 1 1 =
      Some (print_all (title # heading # rows) good_file) \<and> length rows = 1 \<and>
    flow_endpoints sample_flow ENDPOINT_STR_LEN = Some (src, dst) \<and>
    rows ! 0 = row_prefix 0 sample_flow @ pad_right w1 src @ ''  '' @ pad_right w2 dst @ ''  '' @ rest \<and>
    length (row_prefix 0 sample_flow) = 13"
proof -
  have ip: "\<forall>f\<in>set [sample_flow]. flow_ip f" "[sample_flow] \<noteq> []" using sample_flow_ip by simp_all
  obtain w1 w2 title h1 h2 rows where
    *: "report_top_flows good_file [sample_flow] (length [sample_flow]) 1 =
      Some (print_all (title # (h1 @ pad_right w1 ''src'' @ ''  '' @ pad_right w2 ''dst'' @ h2) # rows) good_file)"
    "h1 = ''  #  proto   ''" "length rows = length [sample_flow]"
    "\<forall>i<length [sample_flow]. \<exists>src dst rest. flow_endpoints ([sample_flow] ! i) ENDPOINT_STR_LEN = Some (src, dst) \<and>
       rows ! i = row_prefix i ([sample_flow] ! i) @ pad_right w1 src @ ''  '' @ pad_right w2 dst @ ''  '' @ rest \<and>
       length (pad_right w1 src) = w1 \<and> length (pad_right w2 dst) = w2 \<and>
       length (row_prefix i ([sample_flow] ! i)) = length h1 + (length (dec (i + 1)) - 3) \<and>
       (i < 999 \<longrightarrow> length (row_prefix i ([sample_flow] ! i)) = length h1)"
    using top_flows_table [OF ip, of good_file 1] by blast
  let ?h = "h1 @ pad_right w1 ''src'' @ ''  '' @ pad_right w2 ''dst'' @ h2"
  obtain src dst rest where "flow_endpoints sample_flow ENDPOINT_STR_LEN = Some (src, dst)"
      "rows ! 0 = row_prefix 0 sample_flow @ pad_right w1 src @ ''  '' @ pad_right w2 dst @ ''  '' @ rest"
      "length (row_prefix 0 sample_flow) = 13"
    using spec [OF *(4), of 0] unfolding *(2) by auto
  moreover have "length [sample_flow] = 1" by simp
  ultimately show ?thesis using *(1,3) by (intro exI [of _ w1] exI [of _ w2] exI [of _ title] exI [of _ ?h] exI [of _ rows]
    exI [of _ src] exI [of _ dst] exI [of _ rest] conjI) (simp_all only:)
qed

section \<open>The GTP-U part\<close>

lemma foldl_text:
  assumes "\<And>i out. o_text (g i out) = o_text out @ t i"
  shows "o_text (foldl (\<lambda>out i. g i out) out is) = o_text out @ concat (map t is)"
  using assms by (induction "is" arbitrary: out) simp_all

text \<open>The reasons that are printed: those with a counter above 0, in the order of the statuses.\<close>

definition reason_text :: "string \<Rightarrow> nat \<Rightarrow> u64 list \<Rightarrow> nat \<Rightarrow> string" where
  "reason_text indent w by_status i =
     (if by_status ! i > 0
      then indent @ pad_right w (decode_status_str (all_status ! i)) @ '' '' @ fmt_u (by_status ! i) @ ''\<newline>'' else [])"

lemma report_reasons_ok:
  assumes "length by_status = 28"
  shows "\<exists>out'. report_reasons indent w by_status out = Some out' \<and>
    o_text out' = o_text out @ concat (map (reason_text indent w by_status) [1..<28])"
proof -
  define g where "g i out = (if by_status ! i > 0
      then fprintf (indent @ pad_right w (decode_status_str (all_status ! i)) @ '' '' @ fmt_u (by_status ! i) @ ''\<newline>'') out
      else out)" for i out
  have "\<forall>i\<in>{1..<1 + 27}. \<forall>out. do { c \<leftarrow> rd by_status i; if c > 0
       then do { st \<leftarrow> rd all_status i;
         Some (fprintf (indent @ pad_right w (decode_status_str st) @ '' '' @ fmt_u c @ ''\<newline>'') out) }
       else Some out } = Some (g i out)"
    using assms by (auto simp: rd_def g_def all_status_def)
  from for_each_total [OF this, of out] have "report_reasons indent w by_status out = Some (foldl (\<lambda>out i. g i out) out [1..<28])"
    by (simp add: report_reasons_def)
  moreover have "o_text (g i out) = o_text out @ reason_text indent w by_status i" for i out
    by (simp add: g_def reason_text_def fprintf_def)
  ultimately show ?thesis using foldl_text [of g "reason_text indent w by_status"] by blast
qed

lemma report_gtpu_counts_text: "\<exists>t. o_text (report_gtpu_counts g tunnels teids out) = o_text out @ t"
  by (simp add: report_gtpu_counts_def fprintf_def Let_def)

lemma report_gtpu_problems_text:
  "o_text (report_gtpu_problems g out) = o_text out @
    (''  Problems:  '' @ fmt_u (g_truncated g - g_user_truncated g) @ '' truncated, '' @
     fmt_u (g_malformed g - g_user_malformed g) @ '' malformed in GTP-U headers (not added to tunnels)\<newline>'') @
    (''             '' @ fmt_u (g_user_truncated g) @ '' truncated, '' @ fmt_u (g_user_malformed g) @
     '' malformed in user packets (still added to tunnels)\<newline>'')"
  by (simp add: report_gtpu_problems_def fprintf_def)

definition header_problem :: "(decode_status \<Rightarrow> bool) \<Rightarrow> packet_info \<Rightarrow> bool" where
  "header_problem P pi \<longleftrightarrow> decoded_gtpu pi \<and> P (pi_gtp_status pi) \<and> \<not> pi_gtp_msg_ok pi"

lemma tally_diff: "(\<And>pi. R pi \<longleftrightarrow> P pi \<and> \<not> Q pi) \<Longrightarrow> (\<And>pi. Q pi \<Longrightarrow> P pi) \<Longrightarrow> tally P ps - tally Q ps = tally R ps"
proof (induction ps rule: rev_induct)
  case (snoc p ps)
  then show ?case
    by (cases "P (fst p)"; cases "Q (fst p)") (auto simp: tally_snoc algebra_simps)
qed simp

lemma tally_mono: "(\<And>pi. Q pi \<Longrightarrow> P pi) \<Longrightarrow> length ps < 2 ^ 64 \<Longrightarrow> tally Q ps \<le> tally P ps"
proof -
  assume le: "\<And>pi. Q pi \<Longrightarrow> P pi" and small: "length ps < 2 ^ 64"
  have "length (filter (\<lambda>p. Q (fst p)) ps) \<le> length (filter (\<lambda>p. P (fst p)) ps)"
    by (induction ps) (auto simp: le)
  moreover have "length (filter (\<lambda>p. P (fst p)) ps) < 2 ^ 64" using small length_filter_le le_less_trans by blast
  ultimately show "tally Q ps \<le> tally P ps"
    by (simp add: tally_def word_le_nat_alt unsigned_of_nat take_bit_nat_eq_self)
qed

text \<open>The two numbers of problems in headers, and the reasons that occurred, with their numbers.\<close>

definition problem_line :: "pkt list \<Rightarrow> string" where
  "problem_line ps = ''  Problems:  '' @ fmt_u (tally (header_problem decode_status_is_truncation) ps) @ '' truncated, '' @
     fmt_u (tally (header_problem malformed) ps) @ '' malformed in GTP-U headers (not added to tunnels)\<newline>''"

definition reason_lines :: "pkt list \<Rightarrow> string" where
  "reason_lines ps = concat (map (\<lambda>i. let st = all_status ! i; n = tally (\<lambda>pi. decoded_gtpu pi \<and> pi_gtp_status pi = st) ps in
     if n > 0 then ''    '' @ pad_right 38 (decode_status_str st) @ '' '' @ fmt_u n @ ''\<newline>'' else []) [1..<28])"

lemma gtpu_diffs:
  assumes "stats_counts ps s"
  shows "g_truncated (s_gtpu s) - g_user_truncated (s_gtpu s) = tally (header_problem decode_status_is_truncation) ps"
    "g_malformed (s_gtpu s) - g_user_malformed (s_gtpu s) = tally (header_problem malformed) ps"
    "length ps < 2 ^ 64 \<Longrightarrow> g_user_truncated (s_gtpu s) \<le> g_truncated (s_gtpu s) \<and> g_user_malformed (s_gtpu s) \<le> g_malformed (s_gtpu s)"
  using assms by (auto simp: stats_counts_def gtpu_counters_def header_problem_def intro!: tally_diff tally_mono)

lemma status_at: "i \<in> set [1..<28] \<Longrightarrow> status_num (all_status ! i) = i \<and> all_status ! i \<noteq> DEC_STATUS_COUNT"
proof -
  have "list_all (\<lambda>i. status_num (all_status ! i) = i) [0..<28]" by code_simp
  then show "i \<in> set [1..<28] \<Longrightarrow> ?thesis" by (force simp: list_all_iff)
qed

lemma gtpu_reasons:
  assumes "stats_counts ps s"
  shows "concat (map (reason_text ''    '' 38 (g_by_status (s_gtpu s))) [1..<28]) = reason_lines ps"
  unfolding reason_lines_def
proof (intro arg_cong [of _ _ concat] map_cong refl)
  fix i assume i: "i \<in> set [1..<28 :: nat]"
  have "g_by_status (s_gtpu s) ! status_num st = tally (\<lambda>pi. decoded_gtpu pi \<and> pi_gtp_status pi = st) ps"
    if "st \<noteq> DEC_STATUS_COUNT" for st
    using assms that by (simp add: stats_counts_def)
  from this [of "all_status ! i"] status_at [OF i]
  have "g_by_status (s_gtpu s) ! i = tally (\<lambda>pi. decoded_gtpu pi \<and> pi_gtp_status pi = all_status ! i) ps" by argo
  then show "reason_text ''    '' 38 (g_by_status (s_gtpu s)) i =
      (let st = all_status ! i; n = tally (\<lambda>pi. decoded_gtpu pi \<and> pi_gtp_status pi = st) ps in
        if n > 0 then ''    '' @ pad_right 38 (decode_status_str st) @ '' '' @ fmt_u n @ ''\<newline>'' else [])"
    by (simp only: reason_text_def Let_def)
qed

lemma gtpu_printed:
  assumes "stats_counts ps s" "stats_ok s"
  shows "\<exists>out' before mid. report_reasons ''    '' 38 (g_by_status (s_gtpu s))
        (report_gtpu_problems (s_gtpu s) (report_gtpu_counts (s_gtpu s) t n out)) = Some out' \<and>
      o_text out' = o_text out @ before @ problem_line ps @ mid @ reason_lines ps"
proof -
  let ?g = "s_gtpu s"
  have "length (g_by_status ?g) = 28" using assms(2) by (simp add: stats_ok_def)
  then obtain out' where out': "report_reasons ''    '' 38 (g_by_status ?g) (report_gtpu_problems ?g (report_gtpu_counts ?g t n out)) = Some out'"
      "o_text out' = o_text (report_gtpu_problems ?g (report_gtpu_counts ?g t n out)) @ reason_lines ps"
    using report_reasons_ok gtpu_reasons [OF assms(1)] by metis
  obtain before where before: "o_text (report_gtpu_counts ?g t n out) = o_text out @ before"
    using report_gtpu_counts_text by blast
  have "o_text out' = o_text out @ before @ problem_line ps @
      (''             '' @ fmt_u (g_user_truncated ?g) @ '' truncated, '' @ fmt_u (g_user_malformed ?g) @
       '' malformed in user packets (still added to tunnels)\<newline>'') @ reason_lines ps"
    by (simp only: out'(2) report_gtpu_problems_text problem_line_def gtpu_diffs(1,2) [OF assms(1)] before append_assoc)
  with out'(1) show ?thesis by blast
qed

text \<open>
  C33. The GTP-U part of the summary. Nothing is printed for a capture without GTP-U; without
  memory for the TEIDs the report fails before it prints anything. Otherwise it prints, and the
  problems in GTP-U headers are the truncated and the malformed GTP-U packets without a valid message:
  for fewer than 2^64 packets the two subtractions that give these numbers do not wrap. The
  last lines are the reasons that occurred, each with its number of packets.
\<close>

theorem gtpu_report_problems:
  assumes "stats_run stats_init ps = Some s" "flow_inv t"
  shows "if g_packets (s_gtpu s) = 0 \<and> g_fragmented (s_gtpu s) = 0 then report_gtpu al out s t = Some (0, out)
    else if flows t \<noteq> [] \<and> \<not> al (t_count t) then report_gtpu al out s t = Some (-1, out)
    else (\<exists>out' before mid. report_gtpu al out s t = Some (0, out') \<and>
      o_text out' = o_text out @ before @ problem_line ps @ mid @ reason_lines ps \<and>
      (length ps < 2 ^ 64 \<longrightarrow> g_user_truncated (s_gtpu s) \<le> g_truncated (s_gtpu s) \<and>
        g_user_malformed (s_gtpu s) \<le> g_malformed (s_gtpu s)))"
proof -
  let ?g = "s_gtpu s"
  have counts: "stats_counts ps s" "stats_ok s"
    using stats_run_from [OF stats_init_counts, of ps] assms(1) by auto
  note teids = distinct_teids_ok [OF assms(2), of al]
  consider "g_packets ?g = 0 \<and> g_fragmented ?g = 0"
    | "\<not> (g_packets ?g = 0 \<and> g_fragmented ?g = 0)" "flows t \<noteq> [] \<and> \<not> al (t_count t)"
    | "\<not> (g_packets ?g = 0 \<and> g_fragmented ?g = 0)" "\<not> (flows t \<noteq> [] \<and> \<not> al (t_count t))"
    by blast
  then show ?thesis
  proof cases
    case 1
    then show ?thesis by (simp only: report_gtpu_def Let_def if_P)
  next
    case 2
    then have "report_gtpu al out s t = Some (-1, out)"
      using teids by (simp add: report_gtpu_def Let_def)
    then show ?thesis unfolding if_not_P [OF 2(1)] if_P [OF 2(2)] .
  next
    case 3
    then have "\<exists>n. flow_table_distinct_teids al t = Some (0, n)"
      using teids by (cases "flows t = []") simp_all
    then obtain n where n: "flow_table_distinct_teids al t = Some (0, n)" ..
    obtain out' where out': "report_reasons ''    '' 38 (g_by_status ?g) (report_gtpu_problems ?g (report_gtpu_counts ?g t n out)) = Some out'"
        "\<exists>before mid. o_text out' = o_text out @ before @ problem_line ps @ mid @ reason_lines ps"
      using gtpu_printed [OF counts] by blast
    have "report_gtpu al out s t = Some (0, out')"
      using 3(1) n out'(1) by (auto simp: report_gtpu_def Let_def)
    then show ?thesis
      unfolding if_not_P [OF 3(1)] if_not_P [OF 3(2)] using out'(2) gtpu_diffs(3) [OF counts(1)] by blast
  qed
qed

text \<open>A datagram to the GTP-U port that is cut inside the GTP-U header.\<close>

definition sample_cut_gtpu :: packet_info where
  "sample_cut_gtpu = sample_echo\<lparr>pi_gtp_status := DEC_TRUNC_GTPU, pi_gtp_v1u := False, pi_gtp_msg_type := 0, pi_gtp_msg_ok := False\<rparr>"

theorem gtpu_report_problems_witness:
  "\<exists>s out' before mid. stats_run stats_init [(sample_cut_gtpu, 60, 60, 5)] = Some s \<and>
     report_gtpu (\<lambda>_. True) good_file s sample_table = Some (0, out') \<and>
     o_text out' = o_text good_file @ before @ problem_line [(sample_cut_gtpu, 60, 60, 5)] @ mid @ reason_lines [(sample_cut_gtpu, 60, 60, 5)]"
proof -
  let ?p = "[(sample_cut_gtpu, 60, 60, 5)] :: (packet_info \<times> u32 \<times> u32 \<times> u64) list"
  obtain s where s: "stats_run stats_init ?p = Some s" "stats_counts ?p s"
    using stats_run_from [OF stats_init_counts, of ?p] by auto
  have "g_packets (s_gtpu s) = 1"
    using s(2) by (simp add: stats_counts_def gtpu_counters_def tally_def decoded_gtpu_def sample_cut_gtpu_def sample_echo_def packet_info0_def)
  then have "\<not> (g_packets (s_gtpu s) = 0 \<and> g_fragmented (s_gtpu s) = 0)" by simp
  from gtpu_report_problems [OF s(1) sample_table_inv, of "\<lambda>_. True" good_file, unfolded if_not_P [OF this]] s(1)
  show ?thesis by auto
qed

end
