(* ===== verification/Cli.thy ===== *)
theory Cli
  imports Report Analyze
begin

text \<open>
  \<open>main.c\<close>: the command line and the program as a whole, with every message it prints. The
  outside is an argument: what \<open>fopen\<close> gives for a path, which allocations succeed, the texts of
  \<open>strerror\<close>, double arithmetic, and the contents of uninitialised variables. The standard
  streams and the files that are written are the state.
\<close>

section \<open>The outside\<close>

text \<open>\<open>fopen\<close> gives an \<open>errno\<close> or a stream; each allocation has its own argument.\<close>

record 'd env =
  open_read :: "string \<Rightarrow> int + stdio_file"
  open_write :: "string \<Rightarrow> int + out_file"
  strerror :: "int \<Rightarrow> string"
  doubles :: "'d double_ops"
  record_buffer :: "u8 list option"
  al_flows :: alloc
  al_tunnels :: alloc
  al_frags :: bool
  al_packets :: "nat \<Rightarrow> alloc \<times> alloc"
  al_top :: "bool \<Rightarrow> alloc"
  al_gtpu :: alloc
  al_csv :: "bool \<Rightarrow> alloc"
  rec_garbage :: pcap_record
  an_garbage :: analysis

text \<open>The streams, the files that were written, in order, as they were when they were closed, and
  the input streams that were closed.\<close>

record world =
  w_stdout :: out_file
  w_stderr :: out_file
  w_files :: "(string \<times> out_file) list"
  w_closed :: "stdio_file list"

definition print_out :: "string \<Rightarrow> world \<Rightarrow> world" where
  "print_out s w = w\<lparr>w_stdout := fprintf s (w_stdout w)\<rparr>"

definition print_err :: "string \<Rightarrow> world \<Rightarrow> world" where
  "print_err s w = w\<lparr>w_stderr := fprintf s (w_stderr w)\<rparr>"

definition close_input :: "stdio_file option \<Rightarrow> world \<Rightarrow> world" where
  "close_input closed w = (case closed of None \<Rightarrow> w | Some fp \<Rightarrow> w\<lparr>w_closed := w_closed w @ [fp]\<rparr>)"

section \<open>Arguments\<close>

abbreviation (input) EXIT_OK :: int where "EXIT_OK \<equiv> 0"
abbreviation (input) EXIT_USAGE :: int where "EXIT_USAGE \<equiv> 1"
abbreviation (input) EXIT_INPUT :: int where "EXIT_INPUT \<equiv> 2"
abbreviation (input) DEFAULT_TOP_N :: size_t where "DEFAULT_TOP_N \<equiv> 10"
abbreviation (input) MAX_TOP_N :: nat where "MAX_TOP_N \<equiv> 1000000"

definition usage :: string where
  "usage = ''usage: pcapstat [-n N] [--csv FILE] [--tunnels-csv FILE] FILE.pcap\<newline>'' @
     ''\<newline>'' @
     ''Summarise a classic libpcap capture (Ethernet link type):\<newline>'' @
     ''packet counts per protocol, decode problems, the largest\<newline>'' @
     ''bidirectional flows and, for GTP-U traffic, the largest tunnels.\<newline>'' @
     ''\<newline>'' @
     ''  -n N                show the top N flows and tunnels by bytes\<newline>'' @
     ''                      (default '' @ fmt_u DEFAULT_TOP_N @ '', 0 hides the tables)\<newline>'' @
     ''  --csv FILE          also write every flow to FILE as CSV\<newline>'' @
     ''  --tunnels-csv FILE  also write every GTP-U tunnel to FILE as CSV\<newline>'' @
     ''  -h, --help          show this help\<newline>'' @
     ''\<newline>'' @
     ''exit status: 0 ok, 1 usage error, 2 input error\<newline>''"

text \<open>The loop that admits digits only.\<close>

fun all_digits :: "string \<Rightarrow> bool" where
  "all_digits [] = True"
| "all_digits (c # s) = (if of_char c < (48 :: nat) \<or> of_char c > (57 :: nat) then False else all_digits s)"

text \<open>\<open>strtoul (text, NULL, 10)\<close> of a text of digits: the value, and whether it is out of
  range, in which case the value is \<open>ULONG_MAX\<close>.\<close>

definition strtoul :: "string \<Rightarrow> u64 \<times> bool" where
  "strtoul s = (if num_val 10 s < 2 ^ 64 then (of_nat (num_val 10 s), False) else (- 1, True))"

definition parse_count :: "string \<Rightarrow> size_t option" where
  "parse_count s =
     (if s = [] then None
      else if \<not> all_digits s then None
      else case strtoul s of (v, erange) \<Rightarrow>
        if erange \<or> v > of_nat MAX_TOP_N then None else Some v)"

record options =
  top_n :: size_t
  csv_path :: "string option"
  tunnels_path :: "string option"
  pcap_path :: "string option"

definition options0 :: options where
  "options0 = \<lparr>top_n = DEFAULT_TOP_N, csv_path = None, tunnels_path = None, pcap_path = None\<rparr>"

text \<open>How the loop over the arguments ends: help, an error message (and whether the usage text
  follows it), or the options.\<close>

datatype arguments = Help | Wrong string bool | Run options

definition is_option :: "string \<Rightarrow> bool" where
  "is_option arg = (case arg of c # d # s \<Rightarrow> c = CHR ''-'' | _ \<Rightarrow> False)"

fun parse_args :: "string list \<Rightarrow> options \<Rightarrow> arguments" where
  "parse_args [] opts = Run opts"
| "parse_args (arg # rest) opts =
     (if arg = ''-h'' \<or> arg = ''--help'' then Help
      else if arg = ''-n'' then
        (case rest of
           [] \<Rightarrow> Wrong (''pcapstat: -n needs a number from 0 to '' @ dec MAX_TOP_N @ ''\<newline>'') False
         | v # rest' \<Rightarrow>
             (case parse_count v of
                None \<Rightarrow> Wrong (''pcapstat: -n needs a number from 0 to '' @ dec MAX_TOP_N @ ''\<newline>'') False
              | Some n \<Rightarrow> parse_args rest' (opts\<lparr>top_n := n\<rparr>)))
      else if arg = ''--csv'' \<or> arg = ''--tunnels-csv'' then
        (case rest of
           [] \<Rightarrow> Wrong (''pcapstat: '' @ arg @ '' needs a file name\<newline>'') False
         | v # rest' \<Rightarrow>
             if arg = ''--csv'' then parse_args rest' (opts\<lparr>csv_path := Some v\<rparr>)
             else parse_args rest' (opts\<lparr>tunnels_path := Some v\<rparr>))
      else if is_option arg then
        Wrong (''pcapstat: unknown option '' @ [CHR 0x27] @ arg @ [CHR 0x27] @ ''\<newline>'') True
      else if pcap_path opts \<noteq> None then Wrong ''pcapstat: only one input file is supported\<newline>'' False
      else parse_args rest (opts\<lparr>pcap_path := Some arg\<rparr>))"

section \<open>Output\<close>

definition write_csv ::
    "'d env \<Rightarrow> string \<Rightarrow> flow_table \<Rightarrow> (out_file \<Rightarrow> flow_table \<Rightarrow> (int \<times> out_file) option) \<Rightarrow> world \<Rightarrow> (int \<times> world) option" where
  "write_csv e path t writer w =
     (case open_write e path of
        Inl err \<Rightarrow> Some (-1, print_err (''pcapstat: '' @ path @ '': '' @ strerror e err @ ''\<newline>'') w)
      | Inr f \<Rightarrow> do {
          (rc, f) \<leftarrow> writer f t;
          let w = w\<lparr>w_files := w_files w @ [(path, f)]\<rparr>;
          let rc = (if o_late f (o_text f) then -1 else rc);
          Some (rc, if rc \<noteq> 0 then print_err (''pcapstat: '' @ path @ '': failed to write CSV\<newline>'') w else w) })"

definition print_top :: "alloc \<Rightarrow> flow_table \<Rightarrow> size_t \<Rightarrow> bool \<Rightarrow> world \<Rightarrow> (int \<times> world) option" where
  "print_top al t n tunnels w =
     (let n = (if n < t_count t then n else t_count t) in
      if n = 0 then Some (0, w)
      else do {
        array \<leftarrow> top_array al t n;
        case array of
          Inl _ \<Rightarrow> Some (-1, print_err ''pcapstat: out of memory\<newline>'' w)
        | Inr tops \<Rightarrow> do {
            out \<leftarrow> (if tunnels then report_top_tunnels (w_stdout w) tops (length tops) (t_count t)
                    else report_top_flows (w_stdout w) tops (length tops) (t_count t));
            Some (0, w\<lparr>w_stdout := out\<rparr>) } })"

text \<open>One step of the output: \<open>if (... != 0) status = EXIT_INPUT\<close>.\<close>

definition step :: "(world \<Rightarrow> (int \<times> world) option) \<Rightarrow> int \<times> world \<Rightarrow> (int \<times> world) option" where
  "step f s = (case s of (status, w) \<Rightarrow> do {
     (rc, w) \<leftarrow> f w;
     Some (if rc \<noteq> 0 then EXIT_INPUT else status, w) })"

text \<open>\<open>report_gtpu\<close> with the message when it fails.\<close>

definition print_gtpu :: "alloc \<Rightarrow> analysis \<Rightarrow> world \<Rightarrow> (int \<times> world) option" where
  "print_gtpu al an w = do {
     (rc, out) \<leftarrow> report_gtpu al (w_stdout w) (a_stats an) (a_tunnels an);
     let w = w\<lparr>w_stdout := out\<rparr>;
     Some (rc, if rc \<noteq> 0 then print_err ''pcapstat: out of memory\<newline>'' w else w) }"

section \<open>The program\<close>

text \<open>From \<open>report_summary\<close> on.\<close>

definition report :: "'d env \<Rightarrow> options \<Rightarrow> string \<Rightarrow> pcap_file_info \<Rightarrow> analysis \<Rightarrow> int \<times> world \<Rightarrow> (int \<times> world) option" where
  "report e opts path info an s = do {
     s \<leftarrow> step (\<lambda>w. do {
       out \<leftarrow> report_summary (doubles e) (w_stdout w) path info (a_stats an) (t_count (a_flows an));
       Some (0, w\<lparr>w_stdout := out\<rparr>) }) s;
     s \<leftarrow> step (print_top (al_top e False) (a_flows an) (top_n opts) False) s;
     s \<leftarrow> step (print_gtpu (al_gtpu e) an) s;
     s \<leftarrow> step (print_top (al_top e True) (a_tunnels an) (top_n opts) True) s;
     s \<leftarrow> (case csv_path opts of
             None \<Rightarrow> Some s
           | Some p \<Rightarrow> step (write_csv e p (a_flows an) (report_csv (al_csv e False))) s);
     s \<leftarrow> (case tunnels_path opts of
             None \<Rightarrow> Some s
           | Some p \<Rightarrow> step (write_csv e p (a_tunnels an) (report_tunnels_csv (al_csv e True))) s);
     step (\<lambda>w. Some (if o_late (w_stdout w) (o_text (w_stdout w)) then -1 else 0, w)) s }"

text \<open>From \<open>pcap_open_file\<close> on.\<close>

definition run :: "'d env \<Rightarrow> options \<Rightarrow> string \<Rightarrow> world \<Rightarrow> (int \<times> world) option" where
  "run e opts path w = do {
     (st, reader, closed) \<leftarrow> pcap_open_file (record_buffer e) (open_read e path);
     let w = close_input closed w;
     if st \<noteq> PCAP_OK then
       Some (EXIT_INPUT, print_err (if st = PCAP_ERR_OPEN \<or> st = PCAP_ERR_IO
         then ''pcapstat: '' @ path @ '': '' @ pcap_status_str st @ '': '' @ strerror e (r_sys_errno reader) @ ''\<newline>''
         else ''pcapstat: '' @ path @ '': '' @ pcap_status_str st @ ''\<newline>'') w)
     else do {
       (rc, an) \<leftarrow> analysis_init (al_flows e) (al_tunnels e) (al_frags e) (an_garbage e);
       if rc \<noteq> 0
       then Some (EXIT_INPUT, close_input (fst (pcap_close reader)) (print_err ''pcapstat: out of memory\<newline>'' w))
       else do {
         (st, an, reader) \<leftarrow> analysis_run (al_packets e) an reader (rec_garbage e);
         (status, w) \<leftarrow> report e opts path (r_info reader) an
           (if st \<noteq> PCAP_EOF
            then (EXIT_INPUT, print_err (''pcapstat: '' @ path @ '': '' @ pcap_status_str st @ '' after '' @
                    fmt_u (r_records reader) @ '' records; statistics below cover those records only\<newline>'') w)
            else (EXIT_OK, w));
         Some (status, close_input (fst (pcap_close reader)) w) } } }"

text \<open>The exit status and the world after the program; \<open>argv\<close> starts with the program's name.\<close>

definition main :: "'d env \<Rightarrow> string list \<Rightarrow> world \<Rightarrow> (int \<times> world) option" where
  "main e argv w =
     (case parse_args (tl argv) options0 of
        Help \<Rightarrow> Some (EXIT_OK, print_out usage w)
      | Wrong msg show_usage \<Rightarrow>
          (let w = print_err msg w in Some (EXIT_USAGE, if show_usage then print_err usage w else w))
      | Run opts \<Rightarrow>
          (case pcap_path opts of
             None \<Rightarrow> Some (EXIT_USAGE, print_err usage w)
           | Some path \<Rightarrow>
               if csv_path opts = Some path \<or> tunnels_path opts = Some path
               then Some (EXIT_USAGE, print_err ''pcapstat: a CSV file must not be the input file\<newline>'' w)
               else if csv_path opts \<noteq> None \<and> csv_path opts = tunnels_path opts
               then Some (EXIT_USAGE, print_err ''pcapstat: --csv and --tunnels-csv need different files\<newline>'' w)
               else run e opts path w))"

end
