(* ===== verification/Cli_Run.thy ===== *)
theory Cli_Run
  imports Cli Csv_Props Report_Props Analyze_Props "HOL-Library.Sublist"
begin

text \<open>
  A run of the program after its arguments: each step of the output returns, only adds to the
  streams and writes only what was asked for (\<open>progress\<close>), so the whole report does
  (\<open>report_ok\<close>), and so does a run on any input (\<open>run_ok\<close>).
\<close>

section \<open>The flows of an analysis\<close>

lemma holds_flow_ip:
  assumes "table.holds t es" "\<forall>e\<in>set es. key_ok (ev_key e) \<and> (k_ip_version (ev_key e) = 4 \<or> k_ip_version (ev_key e) = 6)"
  shows "\<forall>f\<in>set (flows t). flow_ip f"
proof
  fix f assume f: "f \<in> set (flows t)"
  have inv: "flow_inv t" and look: "lookup t (f_key f) = flow_of (filter (\<lambda>e. ev_key e = f_key f) es)"
    using assms(1) by (auto simp: table.holds_def)
  have "lookup t (f_key f) = Some f" using f inv by (simp add: lookup_iff)
  then have "filter (\<lambda>e. ev_key e = f_key f) es \<noteq> []" using look flow_of_Nil by (metis option.distinct(1))
  then obtain e where "e \<in> set es" "ev_key e = f_key f" by (auto simp: filter_empty_conv)
  then show "flow_ip f" using assms(2) by (auto simp: flow_ip_def)
qed

lemma attribute_version [simp]: "pi_ip_version (attribute ps pi) = pi_ip_version pi"
  "pi_is_gtpu (attribute ps pi) = pi_is_gtpu pi"
  by (auto simp: attribute_def split: option.split)

lemma event_versions:
  assumes "\<forall>p\<in>set ps. frame_info False (fst p)"
  shows "\<forall>e\<in>set (flow_events ps) \<union> set (tunnel_events ps).
    key_ok (ev_key e) \<and> (k_ip_version (ev_key e) = 4 \<or> k_ip_version (ev_key e) = 6)"
proof
  fix e assume "e \<in> set (flow_events ps) \<union> set (tunnel_events ps)"
  then obtain q where q: "q \<in> set (attributed ps)" "flow_event_of q = Some e \<or> tunnel_event_of q = Some e"
    by (auto simp: flow_events_def tunnel_events_def List.map_filter_def)
  then obtain i where i: "i < length ps" "fst q = attribute (map fst (take i ps)) (fst (ps ! i))"
    by (auto simp: attributed_def)
  then have info: "frame_info False (fst (ps ! i))" using assms by simp
  then have addr: "addr_ok (fst q)" using i(2) frame_info_addr_ok by simp
  have l3: "pi_has_l3 (fst q) \<longrightarrow> pi_ip_version (fst q) = 4 \<or> pi_ip_version (fst q) = 6"
    "pi_is_gtpu (fst q) \<longrightarrow> pi_has_l3 (fst q)"
    using info unfolding i(2) by (simp_all add: frame_info_def decode_is_gtpu_port_def)
  have "key_ok (ev_key e)" using q(2) event_keys_ok [OF addr] by blast
  moreover have "k_ip_version (ev_key e) = pi_ip_version (fst q) \<and> pi_has_l3 (fst q)"
    using q(2) l3(2) by (auto simp: flow_event_of_def tunnel_event_of_def in_tunnel_def flow_key_from_packet_alt ends_key_def
        tunnel_key_from_packet_def split: prod.splits if_splits)
  ultimately show "key_ok (ev_key e) \<and> (k_ip_version (ev_key e) = 4 \<or> k_ip_version (ev_key e) = 6)"
    using l3(1) by auto
qed

text \<open>What the reports need of an analysis.\<close>

definition reportable :: "analysis \<Rightarrow> bool" where
  "reportable an \<longleftrightarrow> flow_inv (a_flows an) \<and> flow_inv (a_tunnels an) \<and> (\<forall>f\<in>set (flows (a_flows an)). flow_ip f) \<and>
     (\<forall>f\<in>set (flows (a_tunnels an)). flow_ip f) \<and> stats_ok (a_stats an)"

lemma describes_reportable:
  assumes "describes ps fs ts an" "\<forall>p\<in>set fs \<union> set ts. frame_info False (fst p)"
  shows "reportable an"
proof -
  have h: "table.holds (a_flows an) (flow_events fs)" "table.holds (a_tunnels an) (tunnel_events ts)" "counted ps (a_stats an)"
    using assms(1) by (auto simp: describes_def)
  have "\<forall>p\<in>set fs. frame_info False (fst p)" "\<forall>p\<in>set ts. frame_info False (fst p)" using assms(2) by auto
  then have "\<forall>f\<in>set (flows (a_flows an)). flow_ip f" "\<forall>f\<in>set (flows (a_tunnels an)). flow_ip f"
    using holds_flow_ip [OF h(1)] holds_flow_ip [OF h(2)] event_versions by blast+
  then show ?thesis using h by (simp add: reportable_def table.holds_def counted_def)
qed

section \<open>The reports\<close>

text \<open>What was printed is only ever added to.\<close>

definition prints :: "out_file \<Rightarrow> out_file \<Rightarrow> bool" where
  "prints out out' \<longleftrightarrow> (\<exists>ls. out' = print_all ls out)"

lemma prints_refl [simp, intro]: "prints out out"
  unfolding prints_def by (rule exI [of _ "[]"]) (simp add: print_all_def)

lemma prints_all [simp, intro]: "prints out (print_all ls out)"
  by (auto simp: prints_def)

lemma prints_trans [trans]: "prints a b \<Longrightarrow> prints b c \<Longrightarrow> prints a c"
  unfolding prints_def print_all_def by (metis foldl_append)

lemma prints_fprintf: "prints a b \<Longrightarrow> prints a (fprintf s b)"
  by (rule prints_trans, assumption, unfold prints_def, rule exI [of _ "[s]"]) (simp add: print_all_def)

lemma prints_late: "prints a b \<Longrightarrow> o_late b = o_late a"
  by (auto simp: prints_def print_all_simps)

lemma prints_text: "prints a b \<Longrightarrow> \<exists>s. o_text b = o_text a @ s"
  by (auto simp: prints_def print_all_simps)

lemma prints_for_each:
  assumes "\<And>i s. a \<le> i \<Longrightarrow> i < a + n \<Longrightarrow> \<exists>s'. body i s = Some s' \<and> prints s s'"
  shows "\<exists>s'. for_each a n body s = Some s' \<and> prints s s'"
  using assms
proof (induction n arbitrary: a s)
  case (Suc n)
  obtain s1 where 1: "body a s = Some s1" "prints s s1" using Suc.prems [of a s] by auto
  obtain s2 where "for_each (a + 1) n body s1 = Some s2" "prints s1 s2" using Suc.IH [of "a + 1" s1] Suc.prems by auto
  with 1 show ?case by (auto intro: prints_trans)
qed simp

lemma reasons_printed:
  assumes "length by_status = 28"
  shows "\<exists>out'. report_reasons indent w by_status out = Some out' \<and> prints out out'"
  unfolding report_reasons_def
proof (rule prints_for_each)
  fix i out assume "1 \<le> i" "i < 1 + (status_num DEC_STATUS_COUNT - 1)"
  then have "i < 28" by simp
  then have "rd by_status i = Some (by_status ! i)" "rd all_status i = Some (all_status ! i)"
    using assms by (simp_all add: rd_def all_status_def)
  then show "\<exists>s'. (do { c \<leftarrow> rd by_status i; if c > 0 then do { st \<leftarrow> rd all_status i;
      Some (fprintf (indent @ pad_right w (decode_status_str st) @ '' '' @ fmt_u c @ ''\<newline>'') out) } else Some out }) = Some s' \<and>
      prints out s'"
    by (auto intro: prints_fprintf)
qed

lemma utc_printed: "prints a b \<Longrightarrow> prints a (print_utc ts b)"
  by (auto simp: print_utc_def Let_def prints_fprintf split: option.split)

lemma times_printed: "prints a b \<Longrightarrow> prints a (report_times D s n b)"
  by (auto simp: report_times_def Let_def prints_fprintf utc_printed)

text \<open>The lines of the totals.\<close>

definition totals_lines :: "stats \<Rightarrow> string" where
  "totals_lines s = (''Packets:     '' @ fmt_u (s_packets s) @ ''\<newline>'') @
     (''Bytes:       '' @ fmt_u (s_wire_bytes s) @ '' on the wire, '' @ fmt_u (s_captured_bytes s) @ '' captured\<newline>'')"

definition shows_text :: "string \<Rightarrow> out_file \<Rightarrow> out_file \<Rightarrow> bool" where
  "shows_text t out out' \<longleftrightarrow> (\<exists>before after. o_text out' = o_text out @ before @ t @ after)"

lemma shows_prints: "shows_text t a b \<Longrightarrow> prints b c \<Longrightarrow> shows_text t a c"
  unfolding shows_text_def using prints_text by fastforce

lemma shows_two:
  assumes "prints a b"
  shows "shows_text (s1 @ s2) a (fprintf s2 (fprintf s1 b))"
proof -
  obtain s where "o_text b = o_text a @ s" using prints_text [OF assms] by blast
  then have "o_text (fprintf s2 (fprintf s1 b)) = o_text a @ s @ (s1 @ s2) @ []" by (simp add: fprintf_def)
  then show ?thesis unfolding shows_text_def by blast
qed

lemma summary_printed:
  assumes "stats_ok s"
  shows "\<exists>out'. report_summary D out path info s n = Some out' \<and> prints out out' \<and> shows_text (totals_lines s) out out'"
proof -
  define out0 where "out0 = fprintf (''Bytes:       '' @ fmt_u (s_wire_bytes s) @ '' on the wire, '' @ fmt_u (s_captured_bytes s) @ '' captured\<newline>'')
    (fprintf (''Packets:     '' @ fmt_u (s_packets s) @ ''\<newline>'') (fprintf (''Format:      pcap '' @ fmt_u (i_version_major info) @ ''.'' @
      fmt_u (i_version_minor info) @ '', '' @ (if i_big_endian info then ''big'' else ''little'') @ ''-endian, '' @
      (if i_nsec info then ''nanosecond'' else ''microsecond'') @ '' timestamps, snaplen '' @ fmt_u (i_snaplen info) @ '', Ethernet\<newline>'')
      (fprintf (''File:        '' @ path @ ''\<newline>'') out)))"
  have 0: "prints out out0" unfolding out0_def by (intro prints_fprintf prints_refl)
  have "shows_text (totals_lines s) out out0"
    unfolding totals_lines_def out0_def by (intro shows_two prints_fprintf prints_refl)
  moreover have "\<exists>out1. report_summary D out path info s n = report_reasons ''  '' 40 (s_by_status s) out1 \<and> prints out0 out1"
    unfolding report_summary_def Let_def out0_def [symmetric] by (intro exI conjI, rule refl) (simp add: prints_fprintf times_printed)
  then obtain out1 where out1: "report_summary D out path info s n = report_reasons ''  '' 40 (s_by_status s) out1" "prints out0 out1"
    by blast
  moreover obtain out2 where "report_reasons ''  '' 40 (s_by_status s) out1 = Some out2" "prints out1 out2"
    using reasons_printed [of "s_by_status s" "''  ''" 40 out1] assms by (auto simp: stats_ok_def)
  ultimately show ?thesis using 0 shows_prints prints_trans by metis
qed

lemma gtpu_printed_on:
  assumes "stats_ok s" "flow_inv t"
  shows "\<exists>rc out'. report_gtpu al out s t = Some (rc, out') \<and> prints out out' \<and> (al = (\<lambda>_. True) \<longrightarrow> rc = 0)"
proof -
  have "prints out (report_gtpu_problems g (report_gtpu_counts g t teids out))" for g teids
    by (simp add: report_gtpu_problems_def report_gtpu_counts_def Let_def prints_fprintf)
  then have "\<exists>out'. report_reasons ''    '' 38 (g_by_status (s_gtpu s))
      (report_gtpu_problems (s_gtpu s) (report_gtpu_counts (s_gtpu s) t teids out)) = Some out' \<and> prints out out'" for teids
    using reasons_printed [of "g_by_status (s_gtpu s)" "''    ''" 38] assms(1) prints_trans by (fastforce simp: stats_ok_def)
  then obtain f where "report_reasons ''    '' 38 (g_by_status (s_gtpu s))
      (report_gtpu_problems (s_gtpu s) (report_gtpu_counts (s_gtpu s) t teids out)) = Some (f teids)" "prints out (f teids)" for teids
    by metis
  then show ?thesis using distinct_teids_ok [OF assms(2), of al]
    by (auto simp: report_gtpu_def Let_def split: if_splits)
qed

text \<open>The two tables.\<close>

lemma table_rows_printed:
  assumes "\<And>i f. f \<in> set tops \<Longrightarrow> row i f \<noteq> None"
  shows "\<exists>out'. for_each 0 (length tops) (\<lambda>i out. do { f \<leftarrow> rd tops i; l \<leftarrow> row i f; Some (fprintf l out) }) out = Some out' \<and>
    prints out out'"
proof (rule prints_for_each)
  fix i s assume i: "0 \<le> i" "i < 0 + length tops"
  then obtain l where "row i (tops ! i) = Some l" using assms [of "tops ! i" i] by auto
  with i show "\<exists>s'. (do { f \<leftarrow> rd tops i; l \<leftarrow> row i f; Some (fprintf l s) }) = Some s' \<and> prints s s'"
    by (auto simp: rd_def intro: prints_fprintf)
qed

lemma flow_table_printed:
  assumes "\<forall>f\<in>set tops. flow_ip f"
  shows "\<exists>out'. report_top_flows out tops (length tops) c = Some out' \<and> prints out out'"
proof -
  obtain w1 w2 where w: "column_widths (\<lambda>f. flow_endpoints f ENDPOINT_STR_LEN) tops (length tops) = Some (w1, w2)"
    using column_widths_ok [of tops "\<lambda>f. flow_endpoints f ENDPOINT_STR_LEN"] assms flow_endpoints_total by blast
  have "top_flow_row w1 w2 i f \<noteq> None" if "f \<in> set tops" for i f
    using flow_endpoints_total [of f] assms that by (auto simp: top_flow_row_def Let_def)
  note rows = table_rows_printed [of tops "top_flow_row w1 w2", OF this]
  show ?thesis
  proof (cases "tops = []")
    case False
    then have some: "length tops \<noteq> 0" by simp
    have "\<exists>out1. report_top_flows out tops (length tops) c = for_each 0 (length tops) (\<lambda>i out. do {
        f \<leftarrow> rd tops i; l \<leftarrow> top_flow_row w1 w2 i f; Some (fprintf l out) }) out1 \<and> prints out out1"
      unfolding report_top_flows_def w Let_def bind.bind_lunit prod.case if_not_P [OF some]
      by (intro exI conjI, rule refl) (intro prints_fprintf prints_refl)
    then obtain out1 where "report_top_flows out tops (length tops) c = for_each 0 (length tops) (\<lambda>i out. do {
        f \<leftarrow> rd tops i; l \<leftarrow> top_flow_row w1 w2 i f; Some (fprintf l out) }) out1" "prints out out1" by blast
    with rows [of out1] show ?thesis using prints_trans by auto
  qed (simp add: report_top_flows_def)
qed

lemma tunnel_table_printed:
  assumes "\<forall>f\<in>set tops. flow_ip f"
  shows "\<exists>out'. report_top_tunnels out tops (length tops) c = Some out' \<and> prints out out'"
proof -
  obtain w1 w2 where w: "column_widths (\<lambda>f. tunnel_endpoints f ADDR_STR_LEN) tops (length tops) = Some (w1, w2)"
    using column_widths_ok [of tops "\<lambda>f. tunnel_endpoints f ADDR_STR_LEN"] assms tunnel_endpoints_total by blast
  have "top_tunnel_row w1 w2 i f \<noteq> None" if "f \<in> set tops" for i f
    using tunnel_endpoints_total [of f] assms that by (auto simp: top_tunnel_row_def Let_def)
  note rows = table_rows_printed [of tops "top_tunnel_row w1 w2", OF this]
  show ?thesis
  proof (cases "tops = []")
    case False
    then have some: "length tops \<noteq> 0" by simp
    have "\<exists>out1. report_top_tunnels out tops (length tops) c = for_each 0 (length tops) (\<lambda>i out. do {
        f \<leftarrow> rd tops i; l \<leftarrow> top_tunnel_row w1 w2 i f; Some (fprintf l out) }) out1 \<and> prints out out1"
      unfolding report_top_tunnels_def w Let_def bind.bind_lunit prod.case if_not_P [OF some]
      by (intro exI conjI, rule refl) (intro prints_fprintf prints_refl)
    then obtain out1 where "report_top_tunnels out tops (length tops) c = for_each 0 (length tops) (\<lambda>i out. do {
        f \<leftarrow> rd tops i; l \<leftarrow> top_tunnel_row w1 w2 i f; Some (fprintf l out) }) out1" "prints out out1" by blast
    with rows [of out1] show ?thesis using prints_trans by auto
  qed (simp add: report_top_tunnels_def)
qed

section \<open>The steps of the output\<close>

text \<open>The lines that each requested file should get.\<close>

definition requested :: "options \<Rightarrow> analysis \<Rightarrow> (string \<times> string list) list" where
  "requested opts an =
     (case csv_path opts of None \<Rightarrow> [] | Some p \<Rightarrow> [(p, flow_csv.printed (ranking (a_flows an)))]) @
     (case tunnels_path opts of None \<Rightarrow> [] | Some p \<Rightarrow> [(p, tunnel_csv.printed (ranking (a_tunnels an)))])"

text \<open>A file with exactly these lines, written and closed without an error.\<close>

definition complete :: "'d env \<Rightarrow> string \<times> string list \<Rightarrow> string \<times> out_file \<Rightarrow> bool" where
  "complete e want got \<longleftrightarrow> (\<exists>f. open_write e (fst want) = Inr f \<and> got = (fst want, print_all (snd want) f) \<and>
     \<not> o_error (snd got) \<and> \<not> o_late f (o_text (snd got)))"

text \<open>What a part of the output may do: add to the streams, write files among those wanted, and
  set the status to 2; if it does not, the files are complete. If all goes \<open>well\<close> it does not.\<close>

definition progress :: "'d env \<Rightarrow> bool \<Rightarrow> (string \<times> string list) list \<Rightarrow> int \<times> world \<Rightarrow> int \<times> world \<Rightarrow> bool" where
  "progress e well want s s' \<longleftrightarrow> fst s' \<in> {fst s, 2} \<and> prints (w_stdout (snd s)) (w_stdout (snd s')) \<and>
     prints (w_stderr (snd s)) (w_stderr (snd s')) \<and> w_closed (snd s') = w_closed (snd s) \<and>
     (\<exists>fs. w_files (snd s') = w_files (snd s) @ fs \<and> subseq (map fst fs) (map fst want) \<and>
       (fst s' \<noteq> 2 \<or> well \<longrightarrow> list_all2 (complete e) want fs)) \<and>
     (well \<longrightarrow> fst s' = fst s \<and> w_stderr (snd s') = w_stderr (snd s))"

lemma progress_trans [trans]:
  assumes "progress e well w1 s s'" "progress e well w2 s' s''"
  shows "progress e well (w1 @ w2) s s''"
proof -
  obtain fs where f: "w_files (snd s') = w_files (snd s) @ fs" "subseq (map fst fs) (map fst w1)"
      "fst s' \<noteq> 2 \<or> well \<longrightarrow> list_all2 (complete e) w1 fs"
    using assms(1) by (auto simp only: progress_def)
  obtain gs where g: "w_files (snd s'') = w_files (snd s') @ gs" "subseq (map fst gs) (map fst w2)"
      "fst s'' \<noteq> 2 \<or> well \<longrightarrow> list_all2 (complete e) w2 gs"
    using assms(2) by (auto simp only: progress_def)
  have st: "fst s' \<in> {fst s, 2}" "fst s'' \<in> {fst s', 2}" using assms by (simp_all only: progress_def)
  then have "list_all2 (complete e) (w1 @ w2) (fs @ gs)" if "fst s'' \<noteq> 2 \<or> well"
    using f(3) g(3) that by (intro list_all2_appendI) auto
  moreover have "w_files (snd s'') = w_files (snd s) @ (fs @ gs)" using f(1) g(1) by simp
  moreover have "subseq (map fst (fs @ gs)) (map fst (w1 @ w2))"
    unfolding map_append using f(2) g(2) by (rule list_emb_append_mono)
  ultimately have "\<exists>hs. w_files (snd s'') = w_files (snd s) @ hs \<and> subseq (map fst hs) (map fst (w1 @ w2)) \<and>
      (fst s'' \<noteq> 2 \<or> well \<longrightarrow> list_all2 (complete e) (w1 @ w2) hs)" by blast
  moreover have "prints (w_stdout (snd s)) (w_stdout (snd s''))" "prints (w_stderr (snd s)) (w_stderr (snd s''))"
    using assms unfolding progress_def by (blast intro: prints_trans)+
  ultimately show ?thesis using assms st unfolding progress_def by auto
qed

lemma progress_refl: "progress e well [] s s"
  by (simp add: progress_def)

text \<open>A step that only prints.\<close>

lemma progress_print:
  assumes "f w = Some (rc, w')" "prints (w_stdout w) (w_stdout w')" "prints (w_stderr w) (w_stderr w')"
    "w_files w' = w_files w" "w_closed w' = w_closed w" "well \<longrightarrow> rc = 0 \<and> w_stderr w' = w_stderr w"
  shows "\<exists>s'. step f (status, w) = Some s' \<and> progress e well [] (status, w) s'"
  using assms by (auto simp: step_def progress_def)

lemma summary_step:
  assumes "stats_ok s"
  shows "\<exists>s'. step (\<lambda>w. do { out \<leftarrow> report_summary D (w_stdout w) path info s n; Some (0, w\<lparr>w_stdout := out\<rparr>) }) (status, w) = Some s' \<and>
    progress e well [] (status, w) s' \<and> shows_text (totals_lines s) (w_stdout w) (w_stdout (snd s'))"
proof -
  obtain out' where "report_summary D (w_stdout w) path info s n = Some out'" "prints (w_stdout w) out'"
      "shows_text (totals_lines s) (w_stdout w) out'"
    using summary_printed [OF assms] by blast
  then show ?thesis by (intro exI [of _ "(status, w\<lparr>w_stdout := out'\<rparr>)"]) (simp add: step_def progress_def)
qed

lemma top_step:
  assumes "flow_inv t" "\<forall>f\<in>set (flows t). flow_ip f" "well \<longrightarrow> al = (\<lambda>_. True)"
  shows "\<exists>s'. step (print_top al t n tunnels) (status, w) = Some s' \<and> progress e well [] (status, w) s'"
proof -
  define m where "m = (if n < t_count t then n else t_count t)"
  define tops where "tops = take (unat m) (ranking t)"
  have tops: "top_array al t m = Some (if al m then Inr tops else Inl ())"
    using top_array_ok [OF assms(1), of m al] by (auto simp: m_def tops_def)
  have "\<forall>f\<in>set tops. flow_ip f" using assms(2) set_take_subset [of "unat m" "ranking t"] by (auto simp: tops_def)
  then obtain out' where "(if tunnels then report_top_tunnels (w_stdout w) tops (length tops) (t_count t)
      else report_top_flows (w_stdout w) tops (length tops) (t_count t)) = Some out'" "prints (w_stdout w) out'"
    using flow_table_printed [of tops "w_stdout w" "t_count t"] tunnel_table_printed [of tops "w_stdout w" "t_count t"]
    by (cases tunnels) auto
  then have "\<exists>rc w'. print_top al t n tunnels w = Some (rc, w') \<and> prints (w_stdout w) (w_stdout w') \<and>
      prints (w_stderr w) (w_stderr w') \<and> w_files w' = w_files w \<and> w_closed w' = w_closed w \<and>
      (well \<longrightarrow> rc = 0 \<and> w_stderr w' = w_stderr w)"
    using tops assms(3) by (auto simp: print_top_def Let_def m_def [symmetric] print_err_def prints_fprintf)
  then show ?thesis using progress_print by blast
qed

lemma gtpu_step:
  assumes "stats_ok (a_stats an)" "flow_inv (a_tunnels an)" "well \<longrightarrow> al = (\<lambda>_. True)"
  shows "\<exists>s'. step (print_gtpu al an) (status, w) = Some s' \<and> progress e well [] (status, w) s'"
proof -
  obtain rc out' where "report_gtpu al (w_stdout w) (a_stats an) (a_tunnels an) = Some (rc, out')" "prints (w_stdout w) out'"
      "al = (\<lambda>_. True) \<longrightarrow> rc = 0"
    using gtpu_printed_on [OF assms(1,2)] by blast
  then have "\<exists>rc w'. print_gtpu al an w = Some (rc, w') \<and> prints (w_stdout w) (w_stdout w') \<and>
      prints (w_stderr w) (w_stderr w') \<and> w_files w' = w_files w \<and> w_closed w' = w_closed w \<and>
      (well \<longrightarrow> rc = 0 \<and> w_stderr w' = w_stderr w)"
    using assms(3) by (auto simp: print_gtpu_def Let_def print_err_def prints_fprintf)
  then show ?thesis using progress_print by blast
qed

text \<open>A CSV file. \<open>writer\<close> is one of the two exports.\<close>

definition exports :: "(out_file \<Rightarrow> flow_table \<Rightarrow> (int \<times> out_file) option) \<Rightarrow> alloc \<Rightarrow> flow_table \<Rightarrow> string list \<Rightarrow> bool" where
  "exports writer al t ls \<longleftrightarrow> (\<forall>f. writer f t =
     Some (if t_count t \<noteq> 0 \<and> \<not> al (t_count t) then (-1, f) else (if o_error (print_all ls f) then -1 else 0, print_all ls f)))"

lemma exports_csv:
  assumes "flow_inv t" "\<forall>f\<in>set (flows t). flow_ip f"
  shows "exports (report_csv al) al t (flow_csv.printed (ranking t))"
    "exports (report_tunnels_csv al) al t (tunnel_csv.printed (ranking t))"
proof -
  have "top_array al t (t_count t) = Some (Inl ())" if "\<not> al (t_count t)"
    using top_array_ok [OF assms(1), of "t_count t" al] that by simp
  then have "csv_export header row al f t = Some (-1, f)" if "t_count t \<noteq> 0" "\<not> al (t_count t)" for header row f
    using that by (simp add: csv_export_def word_neq_0_conv [symmetric])
  then show "exports (report_csv al) al t (flow_csv.printed (ranking t))"
    "exports (report_tunnels_csv al) al t (tunnel_csv.printed (ranking t))"
    using flow_csv_export [OF assms, of al] tunnel_csv_export [OF assms, of al]
    by (auto simp: exports_def Let_def report_csv_def report_tunnels_csv_def)
qed

text \<open>A file that can be opened and takes everything.\<close>

definition sound_file :: "int + out_file \<Rightarrow> bool" where
  "sound_file r = (case r of Inl _ \<Rightarrow> False | Inr f \<Rightarrow> \<not> o_error f \<and> o_fault f = (\<lambda>_. False) \<and> o_late f = (\<lambda>_. False))"

lemma csv_step:
  assumes "exports writer al t ls" "well \<longrightarrow> al = (\<lambda>_. True) \<and> sound_file (open_write e p)"
  shows "\<exists>s'. step (write_csv e p t writer) (status, w) = Some s' \<and> progress e well [(p, ls)] (status, w) s'"
proof (cases "open_write e p")
  case (Inl err)
  then show ?thesis using assms(2) by (auto simp: step_def write_csv_def progress_def print_err_def prints_fprintf sound_file_def)
next
  case (Inr f)
  show ?thesis
  proof (cases "t_count t \<noteq> 0 \<and> \<not> al (t_count t)")
    case True
    then have "writer f t = Some (-1, f)" using assms(1) by (simp add: exports_def)
    with True Inr show ?thesis using assms(2)
      by (auto simp: step_def write_csv_def progress_def print_err_def prints_fprintf Let_def)
  next
    case False
    from assms(1) have "writer f t = Some (if t_count t \<noteq> 0 \<and> \<not> al (t_count t) then (-1, f)
        else (if o_error (print_all ls f) then -1 else 0, print_all ls f))" by (simp only: exports_def)
    then have w: "writer f t = Some (if o_error (print_all ls f) then -1 else 0, print_all ls f)"
      unfolding if_not_P [OF False] .
    have good: "\<not> o_error (print_all ls f) \<and> \<not> o_late f (o_text (print_all ls f))" if "well"
      using assms(2) Inr that by (simp add: sound_file_def print_all_error)
    show ?thesis using w Inr good
      by (auto simp: step_def write_csv_def progress_def complete_def print_err_def prints_fprintf Let_def print_all_simps)
  qed
qed

lemma csv_option_step:
  assumes "exports writer al t ls" "well \<longrightarrow> al = (\<lambda>_. True)" "\<And>p. well \<longrightarrow> po = Some p \<longrightarrow> sound_file (open_write e p)"
  shows "\<exists>s'. (case po of None \<Rightarrow> Some s | Some p \<Rightarrow> step (write_csv e p t writer) s) = Some s' \<and>
    progress e well (case po of None \<Rightarrow> [] | Some p \<Rightarrow> [(p, ls)]) s s'"
proof (cases po)
  case (Some p)
  then show ?thesis using csv_step [OF assms(1), of well e p "fst s" "snd s"] assms(2,3) by simp
qed (simp add: progress_refl)

lemma flush_step:
  assumes "well \<longrightarrow> o_late (w_stdout w) = (\<lambda>_. False)"
  shows "\<exists>s'. step (\<lambda>w. Some (if o_late (w_stdout w) (o_text (w_stdout w)) then -1 else 0, w)) (status, w) = Some s' \<and>
    progress e well [] (status, w) s' \<and> snd s' = w \<and> (o_late (w_stdout w) (o_text (w_stdout w)) \<longrightarrow> fst s' = 2)"
  using assms by (auto simp: step_def progress_def)

text \<open>Everything the reports use works.\<close>

definition all_well :: "'d env \<Rightarrow> options \<Rightarrow> world \<Rightarrow> bool" where
  "all_well e opts w \<longleftrightarrow> (\<forall>b. al_top e b = (\<lambda>_. True) \<and> al_csv e b = (\<lambda>_. True)) \<and> al_gtpu e = (\<lambda>_. True) \<and>
     (\<forall>p. csv_path opts = Some p \<or> tunnels_path opts = Some p \<longrightarrow> sound_file (open_write e p)) \<and>
     o_late (w_stdout w) = (\<lambda>_. False)"

lemma report_ok:
  assumes "reportable an"
  shows "\<exists>s'. report e opts path info an (status, w) = Some s' \<and>
    progress e (all_well e opts w) (requested opts an) (status, w) s' \<and>
    shows_text (totals_lines (a_stats an)) (w_stdout w) (w_stdout (snd s')) \<and>
    (o_late (w_stdout (snd s')) (o_text (w_stdout (snd s'))) \<longrightarrow> fst s' = 2)"
proof -
  let ?W = "all_well e opts w"
  have an: "flow_inv (a_flows an)" "flow_inv (a_tunnels an)" "\<forall>f\<in>set (flows (a_flows an)). flow_ip f"
     "\<forall>f\<in>set (flows (a_tunnels an)). flow_ip f" "stats_ok (a_stats an)"
    using assms by (auto simp: reportable_def)
  have W: "?W \<longrightarrow> al_top e b = (\<lambda>_. True)" "?W \<longrightarrow> al_gtpu e = (\<lambda>_. True)" "?W \<longrightarrow> al_csv e b = (\<lambda>_. True)"
    "?W \<longrightarrow> csv_path opts = Some p \<or> tunnels_path opts = Some p \<longrightarrow> sound_file (open_write e p)" for b p
    by (auto simp: all_well_def)
  obtain s1 where 1: "step (\<lambda>w. do { out \<leftarrow> report_summary (doubles e) (w_stdout w) path info (a_stats an) (t_count (a_flows an));
      Some (0, w\<lparr>w_stdout := out\<rparr>) }) (status, w) = Some s1" "progress e ?W [] (status, w) s1"
      "shows_text (totals_lines (a_stats an)) (w_stdout w) (w_stdout (snd s1))"
    using summary_step [OF an(5)] by blast
  obtain s2 where 2: "step (print_top (al_top e False) (a_flows an) (top_n opts) False) s1 = Some s2" "progress e ?W [] s1 s2"
    using top_step [OF an(1,3) W(1), where n = "top_n opts" and tunnels = False and status = "fst s1" and w = "snd s1" and e = e] unfolding prod.collapse by blast
  obtain s3 where 3: "step (print_gtpu (al_gtpu e) an) s2 = Some s3" "progress e ?W [] s2 s3"
    using gtpu_step [OF an(5,2) W(2), where status = "fst s2" and w = "snd s2" and e = e] unfolding prod.collapse by blast
  obtain s4 where 4: "step (print_top (al_top e True) (a_tunnels an) (top_n opts) True) s3 = Some s4" "progress e ?W [] s3 s4"
    using top_step [OF an(2,4) W(1), where n = "top_n opts" and tunnels = True and status = "fst s3" and w = "snd s3" and e = e] unfolding prod.collapse by blast
  obtain s5 where 5: "(case csv_path opts of None \<Rightarrow> Some s4
        | Some p \<Rightarrow> step (write_csv e p (a_flows an) (report_csv (al_csv e False))) s4) = Some s5"
      "progress e ?W (case csv_path opts of None \<Rightarrow> [] | Some p \<Rightarrow> [(p, flow_csv.printed (ranking (a_flows an)))]) s4 s5"
    using csv_option_step [OF exports_csv(1) [OF an(1,3)], of ?W "al_csv e False" "csv_path opts" e s4] W(3,4) by blast
  obtain s6 where 6: "(case tunnels_path opts of None \<Rightarrow> Some s5
        | Some p \<Rightarrow> step (write_csv e p (a_tunnels an) (report_tunnels_csv (al_csv e True))) s5) = Some s6"
      "progress e ?W (case tunnels_path opts of None \<Rightarrow> [] | Some p \<Rightarrow> [(p, tunnel_csv.printed (ranking (a_tunnels an)))]) s5 s6"
    using csv_option_step [OF exports_csv(2) [OF an(2,4)], of ?W "al_csv e True" "tunnels_path opts" e s5] W(3,4) by blast
  from 2(2) 3(2) have "progress e ?W ([] @ []) s1 s3" by (rule progress_trans)
  also note 4(2) also note 5(2) also note 6(2)
  finally have q: "progress e ?W (requested opts an) s1 s6" by (simp add: requested_def)
  from 1(2) q have p: "progress e ?W ([] @ requested opts an) (status, w) s6" by (rule progress_trans)
  then have "?W \<longrightarrow> o_late (w_stdout (snd s6)) = (\<lambda>_. False)"
    using prints_late by (fastforce simp: progress_def all_well_def)
  from flush_step [OF this, of "fst s6" e] obtain s7 where
    7: "step (\<lambda>w. Some (if o_late (w_stdout w) (o_text (w_stdout w)) then -1 else 0, w)) s6 = Some s7"
      "progress e ?W [] s6 s7" "snd s7 = snd s6" "o_late (w_stdout (snd s6)) (o_text (w_stdout (snd s6))) \<longrightarrow> fst s7 = 2"
    by auto
  from p 7(2) have "progress e ?W (([] @ requested opts an) @ []) (status, w) s7" by (rule progress_trans)
  moreover have "shows_text (totals_lines (a_stats an)) (w_stdout w) (w_stdout (snd s7))"
    using shows_prints [OF 1(3), of "w_stdout (snd s6)"] q 7(3) by (simp add: progress_def)
  ultimately show ?thesis unfolding report_def 1(1) 2(1) 3(1) 4(1) 5(1) 6(1) bind.bind_lunit 7(1) using 7(3,4) by auto
qed

section \<open>A run\<close>

text \<open>What a capture with the records \<open>recs\<close> that ends with \<open>est\<close> leaves after a loop that returned \<open>st\<close>.\<close>

definition analysed :: "pcap_record list \<Rightarrow> pcap_status \<Rightarrow> pcap_status \<Rightarrow> analysis \<Rightarrow> bool" where
  "analysed recs est st an \<longleftrightarrow> (\<exists>m\<le>length recs. let qs = map decoded (take m recs) in
     (m = length recs \<and> st = est \<and> describes qs qs qs an) \<or>
     (0 < m \<and> st = PCAP_ERR_NOMEM \<and> (describes qs (butlast qs) (butlast qs) an \<or> describes qs qs (butlast qs) an)))"

abbreviation fails :: "stdio_file \<Rightarrow> bool" where
  "fails fp \<equiv> fp_fault fp \<or> fp_error fp"

lemma stream_capture_records:
  "stream_capture f data = (recs, est) \<Longrightarrow> p \<in> set (map decoded recs) \<Longrightarrow> frame_info False (fst p)"
  using decoded_records_info [of data] by (cases "capture data") (auto simp: stream_capture_def faulty_def split: if_splits)

lemma stream_capture_eof:
  "stream_capture f data = (recs, PCAP_EOF) \<longleftrightarrow> capture data = (recs, PCAP_EOF) \<and> \<not> f"
  using global_header_ok_length [of data] global_header_status [of data]
  by (auto simp: stream_capture_def faulty_def capture_def split: prod.splits if_splits)

lemma analysed_reportable:
  assumes "analysed recs est st an" "stream_capture f data = (recs, est)"
  shows "reportable an"
proof -
  obtain ps fs ts where d: "describes ps fs ts an" "set fs \<union> set ts \<subseteq> set (map decoded recs)"
  proof -
    from assms(1) obtain m where m: "let qs = map decoded (take m recs) in
       (m = length recs \<and> st = est \<and> describes qs qs qs an) \<or>
       (0 < m \<and> st = PCAP_ERR_NOMEM \<and> (describes qs (butlast qs) (butlast qs) an \<or> describes qs qs (butlast qs) an))"
      by (auto simp only: analysed_def)
    have "set (map decoded (take m recs)) \<subseteq> set (map decoded recs)"
      unfolding set_map by (rule image_mono, rule set_take_subset)
    moreover from this have "set (butlast (map decoded (take m recs))) \<subseteq> set (map decoded recs)" by (blast dest: in_set_butlastD)
    ultimately show thesis using m that unfolding Let_def by blast
  qed
  show ?thesis using describes_reportable [OF d(1)] d(2) stream_capture_records [OF assms(2)] by blast
qed

lemma stream_run:
  assumes "length buf = 262144" "header_status (fails fp) (fp_rest fp) = PCAP_OK"
    "stream_capture (fails fp) (fp_rest fp) = (recs, est)" "analysis_init alf alt alc a0 = Some (0, a)"
  shows "\<exists>r st an r'. pcap_open_file (Some buf) (Inr fp) = Some (PCAP_OK, r, None) \<and>
    analysis_run al a r rec = Some (st, an, r') \<and> r_fp r' \<noteq> None \<and> analysed recs est st an \<and>
    ((\<forall>k n. fst (al k) n \<and> snd (al k) n) \<and> length recs \<le> 2 ^ 56 \<longrightarrow> st = est)"
proof -
  let ?data = "fp_rest fp"
  obtain r where r: "pcap_open_file (Some buf) (Inr fp) = Some (PCAP_OK, r, None)" "file_ok r" "r_error r = PCAP_OK"
      "r_info r = snd (global_header ?data)" "file_rest r = drop 24 ?data" "file_fault r = fails fp"
    using open_stream_reads [OF assms(1), of fp] assms(2) by (auto simp: pcap_open_file_def)
  have ok: "fst (global_header ?data) = PCAP_OK" using assms(2) by (simp add: header_status_def split: if_splits)
  then have long: "24 \<le> length ?data" by (rule global_header_ok_length)
  obtain est0 where cr: "capture_records (r_info r) (file_rest r) = (recs, est0)" and est: "stream.at_end r est0 = est"
    using assms(3) ok long r
    by (auto simp: stream_capture_def faulty_def capture_def stream.at_end_def case_prod_beta prod_eq_iff)
  from stream.analysis_loop_ok [OF r(2,3) init_describes(1) [OF assms(4)] cr, of al 0 rec] obtain st an r' m where
    run: "analysis_run al a r rec = Some (st, an, r')" "file_ok r'" "m \<le> length recs"
    "let qs = map decoded (take m recs) in (m = length recs \<and> st = est \<and> describes qs qs qs an) \<or>
       (0 < m \<and> st = PCAP_ERR_NOMEM \<and> (describes qs (butlast qs) (butlast qs) an \<or> describes qs qs (butlast qs) an))"
    "(\<forall>k n. fst (al k) n \<and> snd (al k) n) \<and> length recs \<le> 2 ^ 56 \<longrightarrow> st = est"
    unfolding analysis_run_def init_describes(2,3) [OF assms(4)] est by (simp only: append_Nil) blast
  then have "analysed recs est st an" unfolding analysed_def by blast
  with r(1) run show ?thesis by (auto simp: file_ok_def)
qed

text \<open>The files the options name, in the order they are written.\<close>

definition named :: "options \<Rightarrow> string list" where
  "named opts = (case csv_path opts of None \<Rightarrow> [] | Some p \<Rightarrow> [p]) @ (case tunnels_path opts of None \<Rightarrow> [] | Some p \<Rightarrow> [p])"

lemma requested_names: "map fst (requested opts an) = named opts"
  by (simp add: requested_def named_def split: option.split)

lemma run_analysed:
  assumes "record_buffer e = Some buf" "length buf = 262144" "open_read e path = Inr fp"
    "header_status (fails fp) (fp_rest fp) = PCAP_OK" "stream_capture (fails fp) (fp_rest fp) = (recs, est)"
    "analysis_init (al_flows e) (al_tunnels e) (al_frags e) (an_garbage e) = Some (0, a)"
  shows "\<exists>st an status w'. run e opts path w = Some (status, w') \<and> analysed recs est st an \<and>
    ((\<forall>k n. fst (al_packets e k) n \<and> snd (al_packets e k) n) \<and> length recs \<le> 2 ^ 56 \<longrightarrow> st = est) \<and>
    length (w_closed w') = Suc (length (w_closed w)) \<and>
    prints (w_stdout w) (w_stdout w') \<and> prints (w_stderr w) (w_stderr w') \<and>
    status \<in> {2, if st = PCAP_EOF then 0 else 2} \<and>
    (all_well e opts w \<longrightarrow> status = (if st = PCAP_EOF then 0 else 2)) \<and>
    (\<exists>fs. w_files w' = w_files w @ fs \<and> subseq (map fst fs) (named opts) \<and>
      (status \<noteq> 2 \<or> all_well e opts w \<longrightarrow> list_all2 (complete e) (requested opts an) fs)) \<and>
    shows_text (totals_lines (a_stats an)) (w_stdout w) (w_stdout w') \<and>
    (status \<noteq> 2 \<longrightarrow> \<not> o_late (w_stdout w') (o_text (w_stdout w')))"
proof -
  obtain r st an r' where r: "pcap_open_file (Some buf) (Inr fp) = Some (PCAP_OK, r, None)"
      "analysis_run (al_packets e) a r (rec_garbage e) = Some (st, an, r')" "r_fp r' \<noteq> None" "analysed recs est st an"
      "(\<forall>k n. fst (al_packets e k) n \<and> snd (al_packets e k) n) \<and> length recs \<le> 2 ^ 56 \<longrightarrow> st = est"
    using stream_run [OF assms(2,4,5,6), of "al_packets e" "rec_garbage e"] by blast
  define s0 :: "int \<times> world" where "s0 = (if st \<noteq> PCAP_EOF
      then (2, print_err (''pcapstat: '' @ path @ '': '' @ pcap_status_str st @ '' after '' @
              fmt_u (r_records r') @ '' records; statistics below cover those records only\<newline>'') w)
      else (0, w))"
  have s0: "fst s0 = (if st = PCAP_EOF then 0 else 2)" "w_stdout (snd s0) = w_stdout w" "prints (w_stderr w) (w_stderr (snd s0))"
    "w_files (snd s0) = w_files w" "w_closed (snd s0) = w_closed w" "all_well e opts (snd s0) = all_well e opts w"
    by (auto simp: s0_def print_err_def prints_fprintf all_well_def)
  obtain s' where s': "report e opts path (r_info r') an s0 = Some s'"
      "progress e (all_well e opts (snd s0)) (requested opts an) s0 s'"
      "shows_text (totals_lines (a_stats an)) (w_stdout (snd s0)) (w_stdout (snd s'))"
      "o_late (w_stdout (snd s')) (o_text (w_stdout (snd s'))) \<longrightarrow> fst s' = 2"
    using report_ok [OF analysed_reportable [OF r(4) assms(5)], of e opts path "r_info r'" "fst s0" "snd s0"] by auto
  obtain fp' where fp': "r_fp r' = Some fp'" using r(3) by blast
  have run: "run e opts path w = Some (fst s', close_input (Some fp') (snd s'))"
    by (simp only: run_def assms(1,3,6) r(1,2) bind.bind_lunit prod.case Let_def simp_thms if_False s0_def [symmetric]
        s'(1) case_prod_beta prod.sel close_input_def option.case pcap_close_def fp')
  have close: "w_stdout (close_input c v) = w_stdout v" "w_stderr (close_input c v) = w_stderr v"
    "w_files (close_input c v) = w_files v" for c v by (simp_all add: close_input_def split: option.split)
  have "length (w_closed (close_input (Some fp') (snd s'))) = Suc (length (w_closed w))"
    using s'(2) s0(5) by (simp add: close_input_def progress_def)
  then show ?thesis
    using run r(4,5) s' s0 unfolding progress_def requested_names
    by (intro exI [of _ st] exI [of _ an] exI [of _ "fst s'"] exI [of _ "close_input (Some fp') (snd s')"])
      (auto simp: close intro: prints_trans)
qed

lemma analysis_init_total: "\<exists>rc a. analysis_init alf alt alc a0 = Some (rc, a)"
proof -
  obtain r1 t1 r2 t2 where "flow_table_init alf 1024 = Some (r1, t1)" "flow_table_init alt 64 = Some (r2, t2)"
    using init_result by blast
  then show ?thesis by (auto simp: analysis_init_def frag_cache_init_def Let_def)
qed

text \<open>The totals of the records of a capture.\<close>

definition capture_lines :: "pcap_record list \<Rightarrow> string" where
  "capture_lines recs = ''Packets:     '' @ fmt_u (of_nat (length recs) :: u64) @ ''\<newline>'' @
     ''Bytes:       '' @ fmt_u (sum_list (map (\<lambda>x. ucast (rec_wirelen x)) recs) :: u64) @ '' on the wire, '' @
     fmt_u (sum_list (map (\<lambda>x. ucast (rec_caplen x)) recs) :: u64) @ '' captured\<newline>''"

lemma totals_of_capture:
  assumes "describes (map decoded recs) (map decoded recs) (map decoded recs) an"
  shows "totals_lines (a_stats an) = capture_lines recs"
proof -
  let ?s = "(a_stats an)\<lparr>s_frag_matched := 0\<rparr>" and ?ps = "attributed (map decoded recs)"
  have c: "stats_counts ?ps ?s" using assms by (simp add: describes_def counted_def)
  have snds: "map snd ?ps = map (\<lambda>x. (rec_caplen x, rec_wirelen x, rec_ts_ns x)) recs"
    by (rule nth_equalityI) (simp_all add: attributed_def decoded_def)
  have "map (\<lambda>p. ucast (pk_wire p) :: u64) ?ps = map (\<lambda>q. ucast (fst (snd q))) (map snd ?ps)"
    "map (\<lambda>p. ucast (pk_cap p) :: u64) ?ps = map (\<lambda>q. ucast (fst q)) (map snd ?ps)"
    by (simp_all add: pk_wire_def pk_cap_def)
  then have "map (\<lambda>p. ucast (pk_wire p) :: u64) ?ps = map (\<lambda>x. ucast (rec_wirelen x)) recs"
    "map (\<lambda>p. ucast (pk_cap p) :: u64) ?ps = map (\<lambda>x. ucast (rec_caplen x)) recs"
    unfolding snds by simp_all
  moreover have "s_packets ?s = of_nat (length recs)"
    using c [unfolded stats_counts_def stats_counters_def] by (simp add: tally_def attributed_def)
  moreover have "s_wire_bytes ?s = sum_list (map (\<lambda>p. ucast (pk_wire p)) ?ps)"
    "s_captured_bytes ?s = sum_list (map (\<lambda>p. ucast (pk_cap p)) ?ps)"
    using c unfolding stats_counts_def by blast+
  ultimately show ?thesis by (simp add: totals_lines_def capture_lines_def)
qed

text \<open>What exit status 0 of a run means.\<close>

definition run_success :: "'d env \<Rightarrow> options \<Rightarrow> string \<Rightarrow> world \<Rightarrow> world \<Rightarrow> bool" where
  "run_success e opts path w w' \<longleftrightarrow> (\<exists>fp recs an fs. open_read e path = Inr fp \<and> \<not> fails fp \<and>
     capture (fp_rest fp) = (recs, PCAP_EOF) \<and>
     describes (map decoded recs) (map decoded recs) (map decoded recs) an \<and>
     w_files w' = w_files w @ fs \<and> list_all2 (complete e) (requested opts an) fs \<and>
     shows_text (capture_lines recs) (w_stdout w) (w_stdout w') \<and>
     \<not> o_late (w_stdout w') (o_text (w_stdout w')))"

definition buffer_ok :: "'d env \<Rightarrow> bool" where
  "buffer_ok e \<longleftrightarrow> (case record_buffer e of None \<Rightarrow> True | Some buf \<Rightarrow> length buf = 262144)"

text \<open>What every run does.\<close>

definition run_outcome :: "'d env \<Rightarrow> options \<Rightarrow> string \<Rightarrow> world \<Rightarrow> int \<Rightarrow> world \<Rightarrow> bool" where
  "run_outcome e opts path w status w' \<longleftrightarrow> run e opts path w = Some (status, w') \<and> status \<in> {0, 2} \<and>
     prints (w_stdout w) (w_stdout w') \<and> prints (w_stderr w) (w_stderr w') \<and>
     length (w_closed w') = length (w_closed w) + (case open_read e path of Inl _ \<Rightarrow> 0 | Inr _ \<Rightarrow> 1) \<and>
     (\<exists>fs. w_files w' = w_files w @ fs \<and> subseq (map fst fs) (named opts)) \<and>
     (status = 0 \<longrightarrow> run_success e opts path w w')"

lemma run_not_opened:
  assumes "pcap_open_file (record_buffer e) (open_read e path) = Some (st, r, closed)" "st \<noteq> PCAP_OK"
    "case open_read e path of Inl _ \<Rightarrow> closed = None | Inr _ \<Rightarrow> closed \<noteq> None"
  shows "\<exists>w'. run_outcome e opts path w 2 w'"
proof -
  define m where "m = (if st = PCAP_ERR_OPEN \<or> st = PCAP_ERR_IO
      then ''pcapstat: '' @ path @ '': '' @ pcap_status_str st @ '': '' @ strerror e (r_sys_errno r) @ ''\<newline>''
      else ''pcapstat: '' @ path @ '': '' @ pcap_status_str st @ ''\<newline>'')"
  have "run e opts path w = Some (2, print_err m (close_input closed w))"
    by (simp only: run_def assms(1) bind.bind_lunit prod.case Let_def m_def if_P [OF assms(2)])
  moreover have "length (w_closed (close_input closed w)) = length (w_closed w) + (case open_read e path of Inl _ \<Rightarrow> 0 | Inr _ \<Rightarrow> 1)"
    using assms(3) by (auto simp: close_input_def split: sum.splits)
  ultimately show ?thesis
    by (intro exI [of _ "print_err m (close_input closed w)"])
      (auto simp: run_outcome_def print_err_def close_input_def prints_fprintf split: option.split)
qed

lemma run_ok:
  assumes "buffer_ok e"
  shows "\<exists>status w'. run_outcome e opts path w status w'"
proof (cases "open_read e path")
  case (Inl err)
  then obtain r where "pcap_open_file (record_buffer e) (open_read e path) = Some (PCAP_ERR_OPEN, r, None)"
    by (simp add: pcap_open_file_def)
  from run_not_opened [OF this] Inl show ?thesis by fastforce
next
  case (Inr fp)
  show ?thesis
  proof (cases "record_buffer e")
    case None
    obtain r where "pcap_open_file None (Inr fp) = Some (PCAP_ERR_NOMEM, r, Some fp)"
      using open_file_parts(2) [of "replicate 262144 0" fp] by auto
    with run_not_opened [of e path PCAP_ERR_NOMEM r "Some fp"] Inr None show ?thesis by fastforce
  next
    case (Some buf)
    with assms have len: "length buf = 262144" by (simp add: buffer_ok_def)
    let ?st = "header_status (fails fp) (fp_rest fp)"
    from open_file_parts(1) [OF len, of fp] obtain r closed where r: "pcap_open_file (Some buf) (Inr fp) = Some (?st, r, closed)"
      "if ?st = PCAP_OK then r_fp r \<noteq> None \<and> closed = None else r_fp r = None \<and> r_buf r = None \<and> closed \<noteq> None"
      by blast
    show ?thesis
    proof (cases "?st = PCAP_OK")
      case False
      with run_not_opened [of e path ?st r closed opts w] r Inr Some show ?thesis by auto
    next
      case ok: True
      obtain rc a where init: "analysis_init (al_flows e) (al_tunnels e) (al_frags e) (an_garbage e) = Some (rc, a)"
        using analysis_init_total by blast
      obtain recs est where cap: "stream_capture (fails fp) (fp_rest fp) = (recs, est)" by fastforce
      show ?thesis
      proof (cases "rc = 0")
        case False
        let ?w = "close_input (r_fp r) (print_err ''pcapstat: out of memory\<newline>'' w)"
        have "run e opts path w = Some (2, ?w)"
          using r ok Inr Some init False by (simp add: run_def pcap_close_def close_input_def)
        then show ?thesis using r(2) ok Inr
          by (intro exI [of _ 2] exI [of _ ?w]) (auto simp: run_outcome_def close_input_def print_err_def prints_fprintf)
      next
        case True
        from run_analysed [OF Some len Inr ok cap init [unfolded True], of opts w] obtain st an status w' fs where
          *: "run e opts path w = Some (status, w')" "analysed recs est st an"
            "length (w_closed w') = Suc (length (w_closed w))" "prints (w_stdout w) (w_stdout w')" "prints (w_stderr w) (w_stderr w')"
            "status \<in> {2, if st = PCAP_EOF then 0 else 2}"
            "w_files w' = w_files w @ fs" "subseq (map fst fs) (named opts)" "status \<noteq> 2 \<longrightarrow> list_all2 (complete e) (requested opts an) fs"
            "status \<noteq> 2 \<longrightarrow> \<not> o_late (w_stdout w') (o_text (w_stdout w'))"
            "shows_text (totals_lines (a_stats an)) (w_stdout w) (w_stdout w')"
          by blast
        have "run_success e opts path w w'" if "status = 0"
        proof -
          from that *(6) have "st = PCAP_EOF" by (auto split: if_splits)
          with *(2) have "est = PCAP_EOF" "describes (map decoded recs) (map decoded recs) (map decoded recs) an"
            by (auto simp: analysed_def Let_def)
          then show ?thesis using *(7,9,10,11) that Inr cap totals_of_capture [of recs an] unfolding run_success_def
            by (intro exI [of _ fp] exI [of _ recs] exI [of _ an] exI [of _ fs]) (simp add: stream_capture_eof)
        qed
        with * Inr show ?thesis
          by (intro exI [of _ status] exI [of _ w']) (auto simp: run_outcome_def split: if_splits)
      qed
    qed
  qed
qed

end
