(* ===== verification/Cli_Props.thy ===== *)
theory Cli_Props
  imports Cli_Run
begin

text \<open>
  The program as a whole: the command line, that \<open>main\<close> always returns, what its exit status
  means, which files it writes, and that what it prints and writes is that of the capture.
\<close>

section \<open>The command line\<close>

definition digits :: "char set" where
  "digits = set ''0123456789''"

lemma digit_codes: "c \<in> digits \<longleftrightarrow> \<not> ((of_char c :: nat) < 48 \<or> (of_char c :: nat) > 57)"
proof -
  have "''0123456789'' = map char_of [48..<58 :: nat]" by code_simp
  then have "digits = char_of ` {48..<58 :: nat}" unfolding digits_def by (metis set_map set_upt)
  also have "c \<in> char_of ` {48..<58 :: nat} \<longleftrightarrow> \<not> ((of_char c :: nat) < 48 \<or> (of_char c :: nat) > 57)"
  proof
    assume "\<not> ((of_char c :: nat) < 48 \<or> (of_char c :: nat) > 57)"
    then show "c \<in> char_of ` {48..<58 :: nat}" by (intro image_eqI [of _ _ "of_char c"]) auto
  qed auto
  finally show ?thesis .
qed

lemma all_digits_iff: "all_digits s \<longleftrightarrow> set s \<subseteq> digits"
  by (induction s) (auto simp: digit_codes)

lemma parse_count_iff:
  "parse_count s = Some n \<longleftrightarrow> s \<noteq> [] \<and> set s \<subseteq> digits \<and> num_val 10 s \<le> 1000000 \<and> unat n = num_val 10 s"
proof (cases "s \<noteq> [] \<and> set s \<subseteq> digits \<and> num_val 10 s \<le> 1000000")
  case True
  then show ?thesis
    by (auto simp: parse_count_def all_digits_iff strtoul_def word_less_nat_alt unsigned_of_nat take_bit_nat_eq_self
        word_unat_eq_iff)
next
  case False
  then show ?thesis
    by (auto simp: parse_count_def all_digits_iff strtoul_def word_less_nat_alt unsigned_of_nat take_bit_nat_eq_self
        split: if_splits)
qed

section \<open>The program\<close>

text \<open>The three ways \<open>main\<close> goes: help, a message about the arguments, or a run on an input that is
  none of the files it writes.\<close>

lemma main_ways:
  assumes "buffer_ok e"
  obtains (helped) "parse_args (tl argv) options0 = Help" "main e argv w = Some (0, print_out usage w)"
  | (wrong) w' where "main e argv w = Some (1, w')" "prints (w_stderr w) (w_stderr w')" "w_stdout w' = w_stdout w"
      "w_files w' = w_files w" "w_closed w' = w_closed w"
  | (runs) opts path status w' where "parse_args (tl argv) options0 = Run opts" "pcap_path opts = Some path"
      "main e argv w = Some (status, w')" "run_outcome e opts path w status w'" "distinct (named opts)" "path \<notin> set (named opts)"
proof (cases "parse_args (tl argv) options0")
  case Help
  then show ?thesis by (intro helped) (simp_all add: main_def)
next
  case (Wrong m u)
  let ?w = "if u then print_err usage (print_err m w) else print_err m w"
  have "main e argv w = Some (1, ?w)" by (simp add: main_def Wrong Let_def)
  then show ?thesis by (rule wrong) (auto simp: print_err_def prints_fprintf)
next
  case (Run opts)
  have msg: thesis if "main e argv w = Some (1, print_err m w)" for m
    using that by (rule wrong) (auto simp: print_err_def prints_fprintf)
  show ?thesis
  proof (cases "pcap_path opts")
    case None
    then have "main e argv w = Some (1, print_err usage w)" by (simp add: main_def Run)
    then show ?thesis by (rule msg)
  next
    case (Some path)
    note m = main_def Run Some arguments.case option.case
    consider "csv_path opts = Some path \<or> tunnels_path opts = Some path"
      | "\<not> (csv_path opts = Some path \<or> tunnels_path opts = Some path)" "csv_path opts \<noteq> None \<and> csv_path opts = tunnels_path opts"
      | "\<not> (csv_path opts = Some path \<or> tunnels_path opts = Some path)" "\<not> (csv_path opts \<noteq> None \<and> csv_path opts = tunnels_path opts)"
      by blast
    then show ?thesis
    proof cases
      case 1
      show ?thesis by (rule msg, unfold m if_P [OF 1], rule refl)
    next
      case 2
      show ?thesis by (rule msg, unfold m if_not_P [OF 2(1)] if_P [OF 2(2)], rule refl)
    next
      case 3
      obtain status w' where o: "run_outcome e opts path w status w'" using run_ok [OF assms] by blast
      have "main e argv w = run e opts path w" by (unfold m if_not_P [OF 3(1)] if_not_P [OF 3(2)], rule refl)
      then have "main e argv w = Some (status, w')" using o by (simp add: run_outcome_def)
      moreover have "distinct (named opts)" "path \<notin> set (named opts)"
        using 3 by (auto simp: named_def split: option.splits)
      ultimately show ?thesis using runs [OF Run Some] o by blast
    qed
  qed
qed

section \<open>Properties\<close>

text \<open>
  The number after \<open>-n\<close>. It is accepted exactly if it is not empty, has no other characters than
  digits and is at most 1000000, and then its value is that of its digits. So no sign, space, trailing
  text or number that overflows \<open>unsigned long\<close> is taken.
\<close>

theorem parse_count_exact:
  "parse_count s = Some n \<longleftrightarrow> s \<noteq> [] \<and> set s \<subseteq> set ''0123456789'' \<and> num_val 10 s \<le> 1000000 \<and> unat n = num_val 10 s"
  unfolding digits_def [symmetric] by (rule parse_count_iff)

text \<open>
  C7. The program returns. Whatever the arguments, the files and their contents, and the failures of memory,
  files and streams, \<open>main\<close> returns 0, 1 or 2. It only adds to the streams. Status 1 is returned before
  anything is opened: then nothing but \<open>stderr\<close> has changed. Every input stream that was opened has been closed,
  once.
\<close>

theorem main_returns:
  assumes "buffer_ok e"
  shows "\<exists>status w'. main e argv w = Some (status, w') \<and> status \<in> {0, 1, 2} \<and>
    prints (w_stdout w) (w_stdout w') \<and> prints (w_stderr w) (w_stderr w') \<and>
    (if status = 1 then w' = w\<lparr>w_stderr := w_stderr w'\<rparr>
     else parse_args (tl argv) options0 = Help \<and> w' = w\<lparr>w_stdout := w_stdout w'\<rparr> \<or>
       (\<exists>opts path. parse_args (tl argv) options0 = Run opts \<and> pcap_path opts = Some path \<and>
         length (w_closed w') = length (w_closed w) + (case open_read e path of Inl _ \<Rightarrow> 0 | Inr _ \<Rightarrow> 1)))"
proof (rule main_ways [OF assms, of argv w])
  assume "parse_args (tl argv) options0 = Help" "main e argv w = Some (0, print_out usage w)"
  then show ?thesis by (auto simp: print_out_def prints_fprintf)
next
  fix w' assume "main e argv w = Some (1, w')" "prints (w_stderr w) (w_stderr w')" "w_stdout w' = w_stdout w"
      "w_files w' = w_files w" "w_closed w' = w_closed w"
  then show ?thesis by auto
next
  fix opts path status w' assume "parse_args (tl argv) options0 = Run opts" "pcap_path opts = Some path"
      "main e argv w = Some (status, w')" "run_outcome e opts path w status w'"
  then show ?thesis by (auto simp: run_outcome_def)
qed

definition sample_env :: "unit env" where
  "sample_env = \<lparr>open_read = \<lambda>p. if p = ''a.pcap'' then Inr sample_file else Inl 2, open_write = \<lambda>_. Inr good_file,
     strerror = \<lambda>_. ''no such file'', doubles = \<lparr>d_of = \<lambda>_. (), d_mul = \<lambda>_ _. (), d_div = \<lambda>_ _. (), d_pos = \<lambda>_. False, d_fixed = \<lambda>_ _. ''0''\<rparr>,
     record_buffer = Some (replicate 262144 0), al_flows = \<lambda>_. True, al_tunnels = \<lambda>_. True, al_frags = True,
     al_packets = \<lambda>_. (\<lambda>_. True, \<lambda>_. True), al_top = \<lambda>_ _. True, al_gtpu = \<lambda>_. True, al_csv = \<lambda>_ _. True,
     rec_garbage = sample_record, an_garbage = sample_analysis\<rparr>"

definition sample_world :: world where
  "sample_world = \<lparr>w_stdout = good_file, w_stderr = good_file, w_files = [], w_closed = []\<rparr>"

lemma sample_env_buffer: "buffer_ok sample_env"
  by (simp add: buffer_ok_def sample_env_def)

theorem main_returns_witness:
  "\<exists>status w'. main sample_env [''pcapstat'', ''-n'', ''5'', ''b.pcap''] sample_world = Some (status, w') \<and> status \<in> {0, 1, 2}"
  using main_returns [OF sample_env_buffer, of "[''pcapstat'', ''-n'', ''5'', ''b.pcap'']" sample_world] by blast

text \<open>The program on an input that can be opened, with everything else in order.\<close>

definition all_allocated :: "'d env \<Rightarrow> bool" where
  "all_allocated e \<longleftrightarrow> (case record_buffer e of None \<Rightarrow> False | Some buf \<Rightarrow> length buf = 262144) \<and>
     al_flows e = (\<lambda>_. True) \<and> al_tunnels e = (\<lambda>_. True) \<and> al_frags e \<and> (\<forall>k n. fst (al_packets e k) n \<and> snd (al_packets e k) n)"

lemma main_complete_run:
  assumes "all_allocated e" "all_well e opts w"
    "parse_args (tl argv) options0 = Run opts" "pcap_path opts = Some path" "path \<notin> set (named opts)" "distinct (named opts)"
    "open_read e path = Inr fp" "header_status (fails fp) (fp_rest fp) = PCAP_OK"
    "stream_capture (fails fp) (fp_rest fp) = (recs, est)" "length recs \<le> 2 ^ 56"
  shows "\<exists>w' an fs. main e argv w = Some (if est = PCAP_EOF then 0 else 2, w') \<and>
    describes (map decoded recs) (map decoded recs) (map decoded recs) an \<and>
    shows_text (capture_lines recs) (w_stdout w) (w_stdout w') \<and>
    w_files w' = w_files w @ fs \<and> list_all2 (complete e) (requested opts an) fs \<and> prints (w_stdout w) (w_stdout w')"
proof -
  from assms(1) obtain buf where buf: "record_buffer e = Some buf" "length buf = 262144"
    by (auto simp: all_allocated_def split: option.splits)
  obtain a where init: "analysis_init (al_flows e) (al_tunnels e) (al_frags e) (an_garbage e) = Some (0, a)"
  proof -
    obtain t1 t2 where "flow_table_init (al_flows e) 1024 = Some (0, t1)" "flow_table_init (al_tunnels e) 64 = Some (0, t2)"
      using init_result [of "\<lambda>_. True"] assms(1) by (auto simp: all_allocated_def)
    with that show ?thesis using assms(1) by (simp add: analysis_init_def frag_cache_init_def Let_def all_allocated_def)
  qed
  from run_analysed [OF buf assms(7-9) init, of opts w] assms(1,2,10) obtain an status w' fs where
    *: "run e opts path w = Some (status, w')" "analysed recs est est an" "status = (if est = PCAP_EOF then 0 else 2)"
      "w_files w' = w_files w @ fs" "list_all2 (complete e) (requested opts an) fs"
      "shows_text (totals_lines (a_stats an)) (w_stdout w) (w_stdout w')"
      "prints (w_stdout w) (w_stdout w')"
    by (auto simp only: all_allocated_def simp_thms)
  have "est \<noteq> PCAP_ERR_NOMEM"
    using assms(9) capture_status [of "fp_rest fp"] by (auto simp: stream_capture_def faulty_def split: prod.splits if_splits)
  with *(2) have d: "describes (map decoded recs) (map decoded recs) (map decoded recs) an"
    by (auto simp: analysed_def Let_def)
  have not: "\<not> (csv_path opts = Some path \<or> tunnels_path opts = Some path)" "\<not> (csv_path opts \<noteq> None \<and> csv_path opts = tunnels_path opts)"
    using assms(5,6) by (auto simp: named_def split: option.splits)
  have "main e argv w = run e opts path w"
    by (unfold main_def assms(3,4) arguments.case option.case if_not_P [OF not(1)] if_not_P [OF not(2)], rule refl)
  then show ?thesis using * d totals_of_capture [OF d] by auto
qed

lemma main_complete_ok:
  assumes "all_allocated e" "all_well e opts w"
    "parse_args (tl argv) options0 = Run opts" "pcap_path opts = Some path" "path \<notin> set (named opts)" "distinct (named opts)"
    "open_read e path = Inr fp" "header_status (fails fp) (fp_rest fp) = PCAP_OK"
    "stream_capture (fails fp) (fp_rest fp) = (recs, est)" "length recs \<le> 2 ^ 56"
  shows "\<exists>w' an fs. main e argv w = Some (if est = PCAP_EOF then 0 else 2, w') \<and>
    describes (map decoded recs) (map decoded recs) (map decoded recs) an \<and>
    shows_text (capture_lines recs) (w_stdout w) (w_stdout w') \<and>
    w_files w' = w_files w @ fs \<and> list_all2 (complete e) (requested opts an) fs"
  using main_complete_run [OF assms] by blast

definition sample_args :: "string list" where
  "sample_args = [''pcapstat'', ''--csv'', ''b.csv'', ''a.pcap'']"

definition sample_options :: options where
  "sample_options = options0\<lparr>csv_path := Some ''b.csv'', pcap_path := Some ''a.pcap''\<rparr>"

lemma sample_args_parse: "parse_args (tl sample_args) options0 = Run sample_options"
  by (simp add: sample_args_def sample_options_def is_option_def options0_def)

lemma sample_run:
  "all_allocated sample_env" "all_well sample_env sample_options sample_world" "pcap_path sample_options = Some ''a.pcap''"
  "''a.pcap'' \<notin> set (named sample_options)" "distinct (named sample_options)" "open_read sample_env ''a.pcap'' = Inr sample_file"
  "header_status (fails sample_file) (fp_rest sample_file) = PCAP_OK"
  "stream_capture (fails sample_file) (fp_rest sample_file) = ([sample_record], PCAP_EOF)"
proof -
  have "fst (global_header sample_capture) = PCAP_OK"
    using sample_capture_opens open_mem_reads [of 43 sample_capture] sample_capture_length by auto
  then show "header_status (fails sample_file) (fp_rest sample_file) = PCAP_OK"
    by (simp add: header_status_def sample_file_def)
  show "stream_capture (fails sample_file) (fp_rest sample_file) = ([sample_record], PCAP_EOF)"
    by (simp add: stream_capture_eof sample_file_def sample_capture_meaning)
qed (simp_all add: all_allocated_def all_well_def sample_env_def sample_world_def sound_file_def good_file_def sample_options_def
    options0_def named_def)

lemma sample_main: "\<exists>w'. main sample_env sample_args sample_world = Some (0, w')"
  using main_complete_ok [OF sample_run(1,2) sample_args_parse sample_run(3-8)] by auto

text \<open>
  A failed \<open>printf\<close> can go unnoticed. \<open>main\<close> looks at the result of the last \<open>fflush\<close> only, and not at
  the error indicator of \<open>stdout\<close>: if calls of \<open>printf\<close> fail and the last flush succeeds, the exit status is 0. The CSV
  exports do look at the indicator.
\<close>

lemma shows_text_grows: "shows_text t a b \<Longrightarrow> t \<noteq> [] \<Longrightarrow> o_text b \<noteq> o_text a"
  by (auto simp: shows_text_def)

theorem stdout_failure_unnoticed:
  "\<exists>w'. main sample_env sample_args (sample_world\<lparr>w_stdout := good_file\<lparr>o_fault := \<lambda>_. True\<rparr>\<rparr>) = Some (0, w') \<and> o_error (w_stdout w')"
proof -
  let ?f = "good_file\<lparr>o_fault := \<lambda>_. True\<rparr>"
  let ?w = "sample_world\<lparr>w_stdout := ?f\<rparr>"
  have "all_well sample_env sample_options ?w"
    using sample_run(2) by (simp add: all_well_def good_file_def)
  from main_complete_run [OF sample_run(1) this sample_args_parse sample_run(3-8)] obtain w' where
    w': "main sample_env sample_args ?w = Some (0, w')" "shows_text (capture_lines [sample_record]) ?f (w_stdout w')"
      "prints ?f (w_stdout w')" by auto
  obtain ls where ls: "w_stdout w' = print_all ls ?f" using w'(3) by (auto simp: prints_def)
  have "capture_lines [sample_record] \<noteq> []" by (simp add: capture_lines_def)
  with shows_text_grows [OF w'(2)] have "ls \<noteq> []" by (auto simp: ls print_all_def)
  then have "1 \<in> {1..length ls}" by (cases ls) auto
  then have "o_error (w_stdout w')" unfolding ls print_all_error by auto
  with w'(1) show ?thesis by blast
qed

text \<open>
  C8. What exit status 0 means. If \<open>main\<close> returns 0, either it was asked for help and has printed the usage text and done nothing else; or
  the input could be opened and read to its end without an error, every record in it was complete and is described by the analysis, the
  text passed to the \<open>printf\<close> calls for \<open>stdout\<close> has the totals of exactly those records, the flush of \<open>stdout\<close> at the end succeeded,
  and every CSV file that was asked for has been written completely, with the lines of all flows (all tunnels) of that analysis.
  That the flush succeeded does not mean that all of the text has been written: a \<open>printf\<close> to \<open>stdout\<close> that failed before it only sets the
  error indicator, which \<open>main\<close> does not test (\<open>stdout_failure_unnoticed\<close>). The text is complete if no such call fails: then
  the error indicator is still as it was.
\<close>

theorem main_success:
  assumes "buffer_ok e" "main e argv w = Some (0, w')"
  shows "parse_args (tl argv) options0 = Help \<and> w' = print_out usage w \<or>
    (\<exists>opts path fp recs an fs. parse_args (tl argv) options0 = Run opts \<and> pcap_path opts = Some path \<and>
       open_read e path = Inr fp \<and> \<not> fails fp \<and> capture (fp_rest fp) = (recs, PCAP_EOF) \<and>
       describes (map decoded recs) (map decoded recs) (map decoded recs) an \<and>
       shows_text (capture_lines recs) (w_stdout w) (w_stdout w') \<and> \<not> o_late (w_stdout w') (o_text (w_stdout w')) \<and>
       ((\<forall>t. \<not> o_fault (w_stdout w) t) \<longrightarrow> o_error (w_stdout w') = o_error (w_stdout w)) \<and>
       w_files w' = w_files w @ fs \<and> list_all2 (complete e) (requested opts an) fs)"
proof (rule main_ways [OF assms(1), of argv w])
  fix opts path status w'' assume "parse_args (tl argv) options0 = Run opts" "pcap_path opts = Some path"
      "main e argv w = Some (status, w'')" "run_outcome e opts path w status w''"
  moreover from this(4) have "(\<forall>t. \<not> o_fault (w_stdout w) t) \<longrightarrow> o_error (w_stdout w'') = o_error (w_stdout w)"
    by (auto simp: run_outcome_def prints_def print_all_error)
  ultimately show ?thesis using assms(2) by (simp add: run_outcome_def run_success_def) blast
qed (use assms(2) in auto)

theorem main_success_witness:
  "\<exists>w' an fs. main sample_env sample_args sample_world = Some (0, w') \<and> w_files w' = fs \<and>
     list_all2 (complete sample_env) (requested sample_options an) fs"
proof -
  obtain w' where w': "main sample_env sample_args sample_world = Some (0, w')" using sample_main by blast
  from main_success [OF sample_env_buffer w'] obtain an fs where
    "w_files w' = w_files sample_world @ fs" "list_all2 (complete sample_env) (requested sample_options an) fs"
    unfolding sample_args_parse by auto
  with w' show ?thesis by (auto simp: sample_world_def)
qed

text \<open>
  C37. The files that are written. Every file that \<open>main\<close> writes is named by an option, none is written twice, and none
  has the name of the input. If the arguments are wrong, or ask for help, none is written.
\<close>

theorem main_writes_only_named:
  assumes "buffer_ok e" "main e argv w = Some (status, w')"
  shows "\<exists>fs. w_files w' = w_files w @ fs \<and> (fs = [] \<or>
    (\<exists>opts path. parse_args (tl argv) options0 = Run opts \<and> pcap_path opts = Some path \<and> status \<noteq> 1 \<and>
       distinct (map fst fs) \<and> (\<forall>p\<in>set (map fst fs). p \<noteq> path \<and> (csv_path opts = Some p \<or> tunnels_path opts = Some p))))"
proof (rule main_ways [OF assms(1), of argv w])
  fix opts path status' w'' assume r: "parse_args (tl argv) options0 = Run opts" "pcap_path opts = Some path"
      "main e argv w = Some (status', w'')" "run_outcome e opts path w status' w''" "distinct (named opts)" "path \<notin> set (named opts)"
  then obtain fs where fs: "w_files w' = w_files w @ fs" "subseq (map fst fs) (named opts)" "status \<in> {0, 2}"
    using assms(2) by (auto simp: run_outcome_def)
  have "set (named opts) \<subseteq> {p. csv_path opts = Some p \<or> tunnels_path opts = Some p}"
    by (auto simp: named_def split: option.splits)
  moreover have "set (map fst fs) \<subseteq> set (named opts)" using fs(2) by (fastforce elim: list_emb_set)
  moreover have "distinct (map fst fs)" using subseqs_distinctD [of "map fst fs" "named opts"] fs(2) r(5) by simp
  ultimately show ?thesis using r(1,2,6) fs(1,3) by (intro exI [of _ fs] conjI disjI2) auto
qed (use assms(2) in \<open>auto simp: print_out_def\<close>)

theorem main_writes_only_named_witness:
  "\<exists>w'. main sample_env sample_args sample_world = Some (0, w') \<and> set (map fst (w_files w')) \<subseteq> {''b.csv''}"
proof -
  obtain w' where w': "main sample_env sample_args sample_world = Some (0, w')" using sample_main by blast
  from main_writes_only_named [OF sample_env_buffer w'] show ?thesis using w'
    unfolding sample_args_parse by (auto simp: sample_options_def options0_def sample_world_def)
qed

text \<open>
  C9. A capture is reported, damaged or not. When allocations and the output files do not fail and the input's
  global header is valid, \<open>main\<close> returns, \<open>stdout\<close> shows the totals of the records up to the end or the damage,
  and every CSV file has all flows of exactly these records. The status is 0 if the capture ends on a record boundary and
  2 if it is damaged or reading fails.
\<close>

theorem main_reports_capture:
  assumes "all_allocated e" "all_well e opts w"
    "parse_args (tl argv) options0 = Run opts" "pcap_path opts = Some path" "path \<notin> set (named opts)" "distinct (named opts)"
    "open_read e path = Inr fp" "header_status (fails fp) (fp_rest fp) = PCAP_OK"
    "stream_capture (fails fp) (fp_rest fp) = (recs, est)" "length recs \<le> 2 ^ 56"
  shows "\<exists>w' an fs. main e argv w = Some (if est = PCAP_EOF then 0 else 2, w') \<and>
    describes (map decoded recs) (map decoded recs) (map decoded recs) an \<and>
    shows_text (capture_lines recs) (w_stdout w) (w_stdout w') \<and>
    w_files w' = w_files w @ fs \<and> list_all2 (complete e) (requested opts an) fs"
  by (rule main_complete_ok [OF assms])

theorem main_reports_capture_witness:
  "\<exists>w'. main sample_env sample_args sample_world = Some (0, w') \<and>
     shows_text (capture_lines [sample_record]) (w_stdout sample_world) (w_stdout w') \<and> map fst (w_files w') = [''b.csv'']"
proof -
  from main_reports_capture [OF sample_run(1,2) sample_args_parse sample_run(3-8)] obtain w' an fs where
    "main sample_env sample_args sample_world = Some (0, w')"
    "shows_text (capture_lines [sample_record]) (w_stdout sample_world) (w_stdout w')"
    "w_files w' = w_files sample_world @ fs" "list_all2 (complete sample_env) (requested sample_options an) fs" by auto
  then show ?thesis
    by (auto simp: sample_world_def requested_def sample_options_def options0_def list_all2_Cons1 complete_def)
qed

text \<open>The arguments that say what \<open>opts\<close> says, each option with its value.\<close>

definition argument_groups :: "options \<Rightarrow> string list list" where
  "argument_groups opts = [[''-n'', fmt_u (top_n opts)]] @
     (case csv_path opts of None \<Rightarrow> [] | Some p \<Rightarrow> [[''--csv'', p]]) @
     (case tunnels_path opts of None \<Rightarrow> [] | Some p \<Rightarrow> [[''--tunnels-csv'', p]]) @
     (case pcap_path opts of None \<Rightarrow> [] | Some p \<Rightarrow> [[p]])"

lemma digit_in_digits: "d < 10 \<Longrightarrow> digit d \<in> digits"
  unfolding digits_def by (rule digit_in(2))

lemma parse_number: "unat n \<le> 1000000 \<Longrightarrow> parse_count (fmt_u n) = Some n"
  unfolding parse_count_iff fmt_u_def dec_def using num_str_set [of 10 digits "unat n"] digit_in_digits
  by (simp add: num_val_num_str digits_def [symmetric])

text \<open>The options after the groups \<open>gs\<close>, which start from \<open>o\<close>.\<close>

definition after_groups :: "options \<Rightarrow> string list list \<Rightarrow> options \<Rightarrow> options" where
  "after_groups opts gs o' =
     \<lparr>top_n = if [''-n'', fmt_u (top_n opts)] \<in> set gs then top_n opts else top_n o',
      csv_path = if \<exists>p. [''--csv'', p] \<in> set gs then csv_path opts else csv_path o',
      tunnels_path = if \<exists>p. [''--tunnels-csv'', p] \<in> set gs then tunnels_path opts else tunnels_path o',
      pcap_path = if \<exists>p. [p] \<in> set gs then pcap_path opts else pcap_path o'\<rparr>"

lemma parse_groups:
  assumes "unat (top_n opts) \<le> 1000000" "\<And>p. pcap_path opts = Some p \<Longrightarrow> \<not> is_option p"
    "set gs \<subseteq> set (argument_groups opts)" "distinct gs" "(\<exists>p. [p] \<in> set gs) \<longrightarrow> pcap_path o' = None"
  shows "parse_args (concat gs) o' = Run (after_groups opts gs o')"
  using assms(3-5)
proof (induction gs arbitrary: o')
  case Nil
  then show ?case by (simp add: after_groups_def)
next
  case (Cons g gs)
  have opt: "is_option ''-h''" "is_option ''--help''" "is_option ''-n''" "is_option ''--csv''" "is_option ''--tunnels-csv''"
    by (simp_all add: is_option_def)
  have g: "g \<in> set (argument_groups opts)" using Cons.prems by simp
  then consider (n) "g = [''-n'', fmt_u (top_n opts)]" | (c) p where "csv_path opts = Some p" "g = [''--csv'', p]"
    | (t) p where "tunnels_path opts = Some p" "g = [''--tunnels-csv'', p]" | (p) p where "pcap_path opts = Some p" "g = [p]"
    by (cases "csv_path opts"; cases "tunnels_path opts"; cases "pcap_path opts") (auto simp: argument_groups_def)
  then show ?case
  proof cases
    case n
    show ?thesis using Cons.IH [of "o'\<lparr>top_n := top_n opts\<rparr>"] Cons.prems
      by (simp add: n parse_number [OF assms(1)] after_groups_def)
  next
    case c
    show ?thesis using Cons.IH [of "o'\<lparr>csv_path := csv_path opts\<rparr>"] Cons.prems
      by (auto simp: c after_groups_def)
  next
    case t
    show ?thesis using Cons.IH [of "o'\<lparr>tunnels_path := tunnels_path opts\<rparr>"] Cons.prems
      by (auto simp: t after_groups_def)
  next
    case (p q)
    have "q \<noteq> ''-h''" "q \<noteq> ''--help''" "q \<noteq> ''-n''" "q \<noteq> ''--csv''" "q \<noteq> ''--tunnels-csv''" "\<not> is_option q"
      using assms(2) [OF p(1)] opt by blast+
    moreover have "\<not> (\<exists>x. [x] \<in> set gs)" "pcap_path o' = None"
      using Cons.prems p by (auto simp: argument_groups_def split: option.splits)
    ultimately show ?thesis using Cons.IH [of "o'\<lparr>pcap_path := pcap_path opts\<rparr>"] Cons.prems
      by (auto simp: p after_groups_def)
  qed
qed

text \<open>
  C38. The command line. Each option with its value and the input may be given in any order, and then they
  are understood: for every \<open>opts\<close> with a number up to 1000000 and an input that does not look like an option, any
  order of the groups of its arguments is parsed as \<open>opts\<close>.
\<close>

theorem parse_args_any_order:
  assumes "unat (top_n opts) \<le> 1000000" "\<And>p. pcap_path opts = Some p \<Longrightarrow> \<not> is_option p" "mset gs = mset (argument_groups opts)"
  shows "parse_args (concat gs) options0 = Run opts"
proof -
  have "distinct (argument_groups opts)"
    by (cases "csv_path opts"; cases "tunnels_path opts"; cases "pcap_path opts") (auto simp: argument_groups_def)
  then have gs: "set gs = set (argument_groups opts)" "distinct gs"
    using mset_eq_setD [OF assms(3)] mset_eq_imp_distinct_iff [OF assms(3)] by auto
  have "after_groups opts gs options0 = opts"
    unfolding after_groups_def gs(1)
    by (cases "csv_path opts"; cases "tunnels_path opts"; cases "pcap_path opts")
      (auto simp: argument_groups_def options0_def)
  then show ?thesis using parse_groups [OF assms(1,2), of gs options0] gs by (simp add: options0_def)
qed

theorem parse_args_any_order_witness:
  "parse_args [''a.pcap'', ''--csv'', ''b.csv'', ''-n'', ''25''] options0 =
     Run (options0\<lparr>top_n := 25, csv_path := Some ''b.csv'', pcap_path := Some ''a.pcap''\<rparr>)"
proof -
  have n: "fmt_u (25 :: size_t) = ''25''" by (simp add: fmt_u_def num_eval)
  show ?thesis
    using parse_args_any_order [of "options0\<lparr>top_n := 25, csv_path := Some ''b.csv'', pcap_path := Some ''a.pcap''\<rparr>"
        "[[''a.pcap''], [''--csv'', ''b.csv''], [''-n'', ''25'']]"]
    by (simp add: argument_groups_def n options0_def is_option_def)
qed

end
