(* ===== verification/Reader_Steps.thy ===== *)
theory Reader_Steps
  imports Reader_Props
begin

text \<open>
  The reader as a state machine: a transition is a call of \<open>pcap_next\<close>, labelled with what the
  caller gets to see. From every opened reader each sequence of transitions is determined by the
  bytes of the capture, and it never gets stuck.
\<close>

section \<open>Transitions\<close>

datatype reader_event = Record pcap_record | Ended pcap_status

text \<open>The record variable that the caller passes may hold anything.\<close>

inductive reader_step :: "pcap_reader \<Rightarrow> reader_event \<Rightarrow> pcap_reader \<Rightarrow> bool" where
  returns_record: "pcap_next r rec = Some (PCAP_OK, r', x) \<Longrightarrow> reader_step r (Record x) r'"
| returns_status: "pcap_next r rec = Some (st, r', x) \<Longrightarrow> st \<noteq> PCAP_OK \<Longrightarrow> reader_step r (Ended st) r'"

inductive reader_run :: "pcap_reader \<Rightarrow> reader_event list \<Rightarrow> pcap_reader \<Rightarrow> bool" where
  stay: "reader_run r [] r"
| step: "reader_step r ev r1 \<Longrightarrow> reader_run r1 evs r2 \<Longrightarrow> reader_run r (ev # evs) r2"

inductive_cases reader_stepE: "reader_step r ev r'"
inductive_simps reader_run_simps [simp]: "reader_run r [] r'" "reader_run r (ev # evs) r'"

lemma reader_step_iff:
  "reader_step r ev r' \<longleftrightarrow> (\<exists>rec st x. pcap_next r rec = Some (st, r', x) \<and> ev = (if st = PCAP_OK then Record x else Ended st))"
  by (auto elim!: reader_stepE intro: reader_step.intros)

text \<open>What \<open>n\<close> calls tell of a capture with these records and this end.\<close>

definition trace :: "nat \<Rightarrow> pcap_record list \<times> pcap_status \<Rightarrow> reader_event list" where
  "trace n c = take n (map Record (fst c) @ replicate n (Ended (snd c)))"

lemma trace_simps [simp]:
  "trace 0 c = []" "trace (Suc n) (x # recs, st) = Record x # trace n (recs, st)" "trace (Suc n) ([], st) = Ended st # trace n ([], st)"
  by (simp_all add: trace_def replicate_append_same [symmetric])

context pcap_input begin

text \<open>What a reader in this state has yet to tell.\<close>

definition pending :: "pcap_reader \<Rightarrow> pcap_record list \<times> pcap_status" where
  "pending r = (if r_error r = PCAP_OK then (case capture_records (r_info r) (rest r) of (recs, st) \<Rightarrow> (recs, at_end r st))
     else ([], r_error r))"

lemma step_exists: "ok r \<Longrightarrow> \<exists>ev r'. reader_step r ev r' \<and> ok r'"
  unfolding reader_step_iff using next_bounds [of r] by blast

lemma step_pending:
  assumes "ok r" "reader_step r ev r'"
  shows "ok r' \<and> trace 1 (pending r) = [ev] \<and> pending r' = (tl (fst (pending r)), snd (pending r)) \<and>
    r_records r' = r_records r + (if fst (pending r) = [] then 0 else 1) \<and> snd (pending r') \<noteq> PCAP_OK"
proof -
  obtain rec st' x' where run: "pcap_next r rec = Some (st', r', x')" and ev: "ev = (if st' = PCAP_OK then Record x' else Ended st')"
    using assms(2) by (auto simp: reader_step_iff)
  show ?thesis
  proof (cases "r_error r = PCAP_OK")
    case False
    then have "r' = r \<and> ev = Ended (r_error r)" using run ev by (auto simp: pcap_next_stuck)
    then show ?thesis using False assms(1) by (simp add: pending_def trace_def)
  next
    case True
    note cr = capture_records.simps [of "r_info r" "rest r"]
    show ?thesis
    proof (cases "next_record (r_info r) (rest r)")
      case (Inl st)
      have st: "st \<noteq> PCAP_OK" using Inl by (rule next_record_Inl)
      have "ok r' \<and> ev = Ended (at_end r st) \<and> meta r' = (r_info r, r_records r, at_end r st)"
        using run ev next_Inl [OF assms(1) True Inl, of rec] st by auto
      then show ?thesis using True st by (auto simp: pending_def cr Inl meta_def trace_def)
    next
      case (Inr p)
      then obtain x bs where p: "next_record (r_info r) (rest r) = Inr (x, bs)" by (cases p) auto
      have *: "ok r' \<and> ev = Record x \<and> rest r' = bs \<and> fault r' = fault r \<and> meta r' = (r_info r, r_records r + 1, PCAP_OK)"
        using run ev next_Inr [OF assms(1) True p, of rec] by auto
      have ends: "at_end r' st = at_end r st" for st using * by (simp add: at_end_def)
      have "snd (capture_records (r_info r) bs) \<noteq> PCAP_OK"
        using capture_records_status [of "r_info r" bs] by (cases "capture_records (r_info r) bs") simp
      with * True ends show ?thesis
        by (auto simp: pending_def cr p meta_def trace_def split: prod.split)
    qed
  qed
qed

lemma run_pending:
  assumes "reader_run r evs r'" "ok r"
  shows "ok r' \<and> evs = trace (length evs) (pending r) \<and> r_records r' = r_records r + of_nat (min (length evs) (length (fst (pending r))))"
  using assms
proof (induction rule: reader_run.induct)
  case (step r ev r1 evs r2)
  obtain recs st where p: "pending r = (recs, st)" by fastforce
  from step_pending [OF step.prems step.hyps(1)] step.IH show ?case
    by (cases recs) (auto simp: p)
qed simp

lemma runs_exist: "ok r \<Longrightarrow> \<exists>evs r'. reader_run r evs r' \<and> length evs = n"
proof (induction n arbitrary: r)
  case (Suc n)
  from step_exists [OF Suc.prems] obtain ev r1 where 1: "reader_step r ev r1" "ok r1" by blast
  from Suc.IH [OF 1(2)] obtain evs r2 where "reader_run r1 evs r2" "length evs = n" by blast
  with 1(1) show ?case by (intro exI [of _ "ev # evs"] exI [of _ r2]) auto
qed (auto intro: exI [of _ "[]"])

end

section \<open>Opened readers\<close>

text \<open>A reader that has just been opened on these bytes, in memory or through a stream whose end is an
  error if \<open>flt\<close>.\<close>

inductive opened :: "pcap_reader \<Rightarrow> u8 list \<Rightarrow> bool \<Rightarrow> bool" where
  in_memory: "pcap_open_mem data len = Some (PCAP_OK, r) \<Longrightarrow> unat len = length data \<Longrightarrow> opened r data False"
| on_stream: "pcap_open_stream (Some buf) (Some fp) = Some (PCAP_OK, r, closed) \<Longrightarrow> length buf = 262144 \<Longrightarrow>
    opened r (fp_rest fp) (fp_fault fp \<or> fp_error fp)"

lemma opened_pending:
  assumes "opened r data flt"
  shows "mem_ok r \<and> mem.pending r = stream_capture flt data \<or> file_ok r \<and> stream.pending r = stream_capture flt data"
    "r_records r = 0"
proof -
  have "(mem_ok r \<and> mem.pending r = stream_capture flt data \<or> file_ok r \<and> stream.pending r = stream_capture flt data) \<and>
      r_records r = 0"
    using assms
  proof cases
    case (in_memory len)
    with open_mem_reads [OF in_memory(3)] have "fst (global_header data) = PCAP_OK" "mem_ok r" "r_records r = 0" "r_error r = PCAP_OK"
      "r_info r = snd (global_header data)" "mem_rest r = drop 24 data" by auto
    then show ?thesis using in_memory(1)
      by (auto simp: mem.pending_def mem.at_end_def mem_fault_def stream_capture_def faulty_def capture_def split: prod.split)
  next
    case (on_stream buf fp closed)
    let ?f = "fp_fault fp \<or> fp_error fp"
    from on_stream(3) open_stream_reads [OF on_stream(4), of fp] have
      "header_status ?f (fp_rest fp) = PCAP_OK" "file_ok r" "r_records r = 0" "r_error r = PCAP_OK"
      "r_info r = snd (global_header (fp_rest fp))" "file_rest r = drop 24 (fp_rest fp)" "file_fault r = ?f"
      by (auto simp: pcap_open_stream_def)
    moreover from this have "fst (global_header (fp_rest fp)) = PCAP_OK" "\<not> length (fp_rest fp) < 24"
      using global_header_ok_length [of "fp_rest fp"] by (auto simp: header_status_def split: if_splits)
    ultimately have "file_ok r \<and> stream.pending r = stream_capture ?f (fp_rest fp) \<and> r_records r = 0"
      by (simp add: stream.pending_def stream.at_end_def stream_capture_def faulty_def capture_def case_prod_beta)
    then show ?thesis using on_stream(1,2) by blast
  qed
  then show "mem_ok r \<and> mem.pending r = stream_capture flt data \<or> file_ok r \<and> stream.pending r = stream_capture flt data"
    "r_records r = 0" by blast+
qed

lemma opened_runs: "opened r data flt \<Longrightarrow> \<exists>evs r'. reader_run r evs r' \<and> length evs = n"
  using opened_pending(1) [of r data flt] mem.runs_exist [of r n] stream.runs_exist [of r n] by blast

section \<open>Properties\<close>

text \<open>
  C25. The reader as a state machine. Every run of any length from an opened reader, in memory or on a
  stream, with whatever the record variable of the caller holds at each call, returns the records of the
  capture in order and then the reason why it ends, again and again; the reader has counted exactly the
  records returned; and every state that is reached has a next transition.
\<close>

theorem reader_runs_tell_capture:
  assumes "opened r data flt" "reader_run r evs r'"
  shows "evs = trace (length evs) (stream_capture flt data) \<and>
    r_records r' = of_nat (min (length evs) (length (fst (stream_capture flt data)))) \<and> (\<exists>ev r''. reader_step r' ev r'')"
  using opened_pending [OF assms(1)] mem.run_pending [OF assms(2)] stream.run_pending [OF assms(2)]
    mem.step_exists [of r'] stream.step_exists [of r'] by force

theorem reader_runs_tell_capture_witness:
  "\<exists>r r'. opened r sample_capture False \<and> reader_run r [Record sample_record, Ended PCAP_EOF] r' \<and> r_records r' = 1"
proof -
  have data: "sample_capture = take (24 + 19) (capture_bytes False False 65535 [(7, 5, 60, [1, 2, 3])])"
    using sample_capture_length by (simp add: sample_capture_def)
  have ok: "\<forall>p\<in>set [(7, 5, 60, [1, 2, 3])]. packet_ok p" by (simp add: packet_ok_def)
  have "packet_record False (7, 5, 60, [1, 2, 3]) = sample_record"
    by (simp add: packet_record_def sample_record_def time_ns_def max_def)
  then have "capture sample_capture = ([sample_record], PCAP_EOF)" "fst (global_header sample_capture) = PCAP_OK"
    using capture_cut [OF ok, of 19 False False 65535] unfolding data [symmetric] by simp_all
  moreover have "unat (43 :: size_t) = length sample_capture" by (simp add: sample_capture_length)
  ultimately have c: "stream_capture False sample_capture = ([sample_record], PCAP_EOF)"
    and "\<exists>r. pcap_open_mem sample_capture 43 = Some (PCAP_OK, r)"
    using open_mem_reads [of 43 sample_capture] by (auto simp: stream_capture_def faulty_def)
  then obtain r where "pcap_open_mem sample_capture 43 = Some (PCAP_OK, r)" by blast
  then have r: "opened r sample_capture False" by (rule in_memory) (simp add: sample_capture_length)
  then obtain evs r' where run: "reader_run r evs r'" "length evs = 2" using opened_runs by blast
  from reader_runs_tell_capture [OF r run(1)] have "evs = [Record sample_record, Ended PCAP_EOF]" "r_records r' = 1"
    by (simp_all add: c run(2) trace_def numeral_2_eq_2)
  with r run(1) show ?thesis by blast
qed

end
