(* ===== verification/Fuzz_Gen.thy ===== *)
theory Fuzz_Gen
  imports Builder
begin

text \<open>
  \<open>fuzz/fuzz_decode.c\<close>, what it feeds to the program: the random numbers, the seed frames and
  the mutations. A buffer is the list of its bytes; a store outside it has no value. The state of
  the generator is passed through every draw, in the order in which the code draws.
\<close>

section \<open>Random numbers\<close>

text \<open>The number drawn, and the new state, which is the same.\<close>

definition rng :: "u64 \<Rightarrow> u64 \<times> u64" where
  "rng state =
     (let x = state;
          x = x XOR push_bit 13 x;
          x = x XOR drop_bit 7 x;
          x = x XOR push_bit 17 x
      in (x, x))"

definition rng_below :: "size_t \<Rightarrow> u64 \<Rightarrow> size_t \<times> u64" where
  "rng_below n s = (if n \<noteq> 0 then case rng s of (x, s) \<Rightarrow> (x mod n, s) else (0, s))"

definition interesting16 :: "u16 list" where
  "interesting16 = [0x0000, 0x0001, 0x0004, 0x0005, 0x0008, 0x000F, 0x0014, 0x0028,
     0x003C, 0x0040, 0x007F, 0x0080, 0x00FF, 0x0100, 0x05DC, 0x7FFF, 0x8000, 0xFFFE, 0xFFFF,
     0x0800, 0x86DD, 0x8100, 0x88A8, 0x9100]"

definition interesting32 :: "u32 list" where
  "interesting32 = [0, 1, 13, 14, 15, 16, 54, 60, 1514, 65535, 65536, 262144 - 1, 262144, 262144 + 1,
     0x7FFFFFFF, 0x80000000, 0xFFFFFFF0, 0xFFFFFFFF]"

text \<open>A random element: \<open>a[rng_below(COUNT_OF(a))]\<close>.\<close>

definition pick :: "'a list \<Rightarrow> u64 \<Rightarrow> ('a \<times> u64) option" where
  "pick a s = (case rng_below (of_nat (length a)) s of (i, s) \<Rightarrow> do { x \<leftarrow> rd a (unat i); Some (x, s) })"

section \<open>Mutations\<close>

definition flip_random_bit :: "u8 list \<Rightarrow> size_t \<Rightarrow> u64 \<Rightarrow> (u8 list \<times> u64) option" where
  "flip_random_bit buf len s =
     (if len = 0 then Some (buf, s)
      else case rng_below len s of (at, s) \<Rightarrow> case rng_below 8 s of (k, s) \<Rightarrow> do {
        x \<leftarrow> rd8 buf (unat at);
        buf \<leftarrow> wr buf (unat at) (x XOR ucast (push_bit (unat k) (1 :: cuint)));
        Some (buf, s) })"

text \<open>\<open>while (add--) buf[(*len)++] = rng()\<close>\<close>

fun append_random :: "nat \<Rightarrow> u8 list \<Rightarrow> size_t \<Rightarrow> u64 \<Rightarrow> (u8 list \<times> size_t \<times> u64) option" where
  "append_random 0 buf len s = Some (buf, len, s)"
| "append_random (Suc add) buf len s =
     (case rng s of (x, s) \<Rightarrow>
        Option.bind (wr buf (unat len) (ucast x)) (\<lambda>buf. append_random add buf (len + 1) s))"

text \<open>A 16-bit value at \<open>off\<close>, most significant byte first.\<close>

definition wr16 :: "u8 list \<Rightarrow> size_t \<Rightarrow> u16 \<Rightarrow> u8 list option" where
  "wr16 buf off v = do {
     buf \<leftarrow> wr buf (unat off) (ucast (drop_bit 8 v));
     wr buf (unat (off + 1)) (ucast v) }"

text \<open>The cases of \<open>mutate\<close>: overwrite a byte, store a boundary value, rewrite a nibble, append.\<close>

definition overwrite_byte :: "u8 list \<Rightarrow> size_t \<Rightarrow> u64 \<Rightarrow> (u8 list \<times> u64) option" where
  "overwrite_byte buf len s =
     (if len > 0
      then case rng_below len s of (at, s) \<Rightarrow> case rng s of (x, s) \<Rightarrow> do {
        buf \<leftarrow> wr buf (unat at) (ucast x);
        Some (buf, s) }
      else Some (buf, s))"

definition store_boundary :: "u8 list \<Rightarrow> size_t \<Rightarrow> u64 \<Rightarrow> (u8 list \<times> u64) option" where
  "store_boundary buf len s =
     (if len \<ge> 2
      then case rng_below ((if len < 96 then len else 96) - 1) s of (off, s) \<Rightarrow> do {
        (v, s) \<leftarrow> pick interesting16 s;
        buf \<leftarrow> wr16 buf off v;
        Some (buf, s) }
      else Some (buf, s))"

definition rewrite_nibble :: "u8 list \<Rightarrow> size_t \<Rightarrow> u64 \<Rightarrow> (u8 list \<times> u64) option" where
  "rewrite_nibble buf len s =
     (if len > 0
      then case rng_below (if len < 96 then len else 96) s of (off, s) \<Rightarrow>
           case rng_below 16 s of (nib, s) \<Rightarrow> case rng s of (x, s) \<Rightarrow> do {
             old \<leftarrow> rd8 buf (unat off);
             buf \<leftarrow> wr buf (unat off)
               (if x AND 1 \<noteq> 0 then ucast ((ucast old AND 0x0F) OR push_bit 4 (ucast nib) :: cuint)
                else ucast ((ucast old AND 0xF0) OR ucast nib :: cuint));
             Some (buf, s) }
      else Some (buf, s))"

definition append_bytes :: "u8 list \<Rightarrow> size_t \<Rightarrow> size_t \<Rightarrow> u64 \<Rightarrow> (u8 list \<times> size_t \<times> u64) option" where
  "append_bytes buf len mx s =
     (case rng_below 64 s of (add, s) \<Rightarrow>
        append_random (unat (if add > mx - len then mx - len else add)) buf len s)"

text \<open>One round: the buffer, its length and the generator afterwards.\<close>

definition mutate_round :: "u8 list \<Rightarrow> size_t \<Rightarrow> size_t \<Rightarrow> u64 \<Rightarrow> (u8 list \<times> size_t \<times> u64) option" where
  "mutate_round buf len mx s =
     (case rng_below 6 s of (kind, s) \<Rightarrow>
        if kind = 0 then do { (buf, s) \<leftarrow> flip_random_bit buf len s; Some (buf, len, s) }
        else if kind = 1 then do { (buf, s) \<leftarrow> overwrite_byte buf len s; Some (buf, len, s) }
        else if kind = 2 then do { (buf, s) \<leftarrow> store_boundary buf len s; Some (buf, len, s) }
        else if kind = 3 then do { (buf, s) \<leftarrow> rewrite_nibble buf len s; Some (buf, len, s) }
        else if kind = 4 then (case rng_below (len + 1) s of (len, s) \<Rightarrow> Some (buf, len, s))
        else append_bytes buf len mx s)"

fun mutate_rounds :: "nat \<Rightarrow> u8 list \<Rightarrow> size_t \<Rightarrow> size_t \<Rightarrow> u64 \<Rightarrow> (u8 list \<times> size_t \<times> u64) option" where
  "mutate_rounds 0 buf len mx s = Some (buf, len, s)"
| "mutate_rounds (Suc n) buf len mx s =
     Option.bind (mutate_round buf len mx s) (\<lambda>(buf, len, s). mutate_rounds n buf len mx s)"

definition mutate :: "u8 list \<Rightarrow> size_t \<Rightarrow> size_t \<Rightarrow> u64 \<Rightarrow> (u8 list \<times> size_t \<times> u64) option" where
  "mutate buf len mx s =
     (case rng_below 4 s of (r, s) \<Rightarrow> mutate_rounds (unat (1 + ucast r :: cuint)) buf len mx s)"

text \<open>The targeted changes to a GTP-U header at \<open>at\<close>.\<close>

definition ext_len :: "u8 list" where
  "ext_len = [0, 1, 2, 3, 0xFF]"

definition flip_flag :: "u8 list \<Rightarrow> size_t \<Rightarrow> size_t \<Rightarrow> u64 \<Rightarrow> (u8 list \<times> u64) option" where
  "flip_flag buf len at s =
     (if at < len
      then case rng_below 8 s of (k, s) \<Rightarrow> do {
        x \<leftarrow> rd8 buf (unat at);
        buf \<leftarrow> wr buf (unat at) (x XOR ucast (push_bit (unat k) (1 :: cuint)));
        Some (buf, s) }
      else Some (buf, s))"

definition set_length :: "u8 list \<Rightarrow> size_t \<Rightarrow> size_t \<Rightarrow> u64 \<Rightarrow> (u8 list \<times> u64) option" where
  "set_length buf len at s =
     (if at + 4 \<le> len
      then do { (v, s) \<leftarrow> pick interesting16 s; buf \<leftarrow> wr16 buf (at + 2) v; Some (buf, s) }
      else Some (buf, s))"

definition shift_length :: "u8 list \<Rightarrow> size_t \<Rightarrow> size_t \<Rightarrow> u64 \<Rightarrow> (u8 list \<times> u64) option" where
  "shift_length buf len at s =
     (if at + 4 \<le> len
      then do {
        b2 \<leftarrow> rd8 buf (unat (at + 2));
        b3 \<leftarrow> rd8 buf (unat (at + 3));
        let old = (push_bit 8 (ucast b2) OR ucast b3 :: cuint);
        (delta, s) \<leftarrow> Some (rng_below 9 s);
        buf \<leftarrow> wr16 buf (at + 2) (ucast (ucast old + delta - 4));
        Some (buf, s) }
      else Some (buf, s))"

definition set_next_type :: "u8 list \<Rightarrow> size_t \<Rightarrow> size_t \<Rightarrow> u64 \<Rightarrow> (u8 list \<times> u64) option" where
  "set_next_type buf len at s =
     (if at + 12 \<le> len
      then case rng s of (x, s) \<Rightarrow>
        case (if x AND 1 \<noteq> 0 then (0x85, s) else case rng s of (y, s) \<Rightarrow> (ucast y, s)) of (v, s) \<Rightarrow> do {
          buf \<leftarrow> wr buf (unat (at + 11)) v;
          Some (buf, s) }
      else Some (buf, s))"

definition set_ext_length :: "u8 list \<Rightarrow> size_t \<Rightarrow> size_t \<Rightarrow> u64 \<Rightarrow> (u8 list \<times> u64) option" where
  "set_ext_length buf len at s =
     (if at + 13 \<le> len
      then do { (v, s) \<leftarrow> pick ext_len s; buf \<leftarrow> wr buf (unat (at + 12)) v; Some (buf, s) }
      else Some (buf, s))"

definition mutate_gtpu :: "u8 list \<Rightarrow> size_t \<Rightarrow> size_t \<Rightarrow> u64 \<Rightarrow> (u8 list \<times> u64) option" where
  "mutate_gtpu buf len at s =
     (case rng_below 5 s of (kind, s) \<Rightarrow>
        if kind = 0 then flip_flag buf len at s
        else if kind = 1 then set_length buf len at s
        else if kind = 2 then shift_length buf len at s
        else if kind = 3 then set_next_type buf len at s
        else set_ext_length buf len at s)"

section \<open>Seed frames\<close>

text \<open>Each seed is the bytes of a frame and the offset of its GTP-U header, 0 if it has none. Here
  the frames without GTP-U.\<close>

definition plain_seeds :: "u8 list list" where
  "plain_seeds = [
     frame_v4_tcp [] TEST_V4_A TEST_V4_B 40000 443 0x02 0,
     (let b = put_eth [] 0x0800;
          b = put_ipv4 b 6 TEST_V4_A TEST_V4_B 40 3 0x4000;
          b = put_tcp b 443 40000 (0x08 OR 0x10)
      in bb_fill b 0x42 20),
     frame_v4_udp [] TEST_V4_A TEST_V4_B 5353 53 40,
     (let b = put_eth [] 0x0800;
          b = put_ipv4 b 1 TEST_V4_A TEST_V4_B (8 + 16) 0 0;
          b = put_icmp b 8 0
      in bb_fill b 0x61 16),
     frame_v6_tcp [] TEST_V6_A TEST_V6_B 443 50000 0x10 32,
     (let b = put_eth [] 0x86DD;
          b = put_ipv6 b 0 TEST_V6_A TEST_V6_B (8 + 8 + 8 + 8);
          b = bb_u8 b 44; b = bb_u8 b 0; b = bb_u8 b 1; b = bb_u8 b 4; b = bb_fill b 0 4;
          b = bb_u8 b 17; b = bb_u8 b 0; b = bb_be16 b 1; b = bb_be32 b 7;
          b = put_udp b 1000 2000 100
      in bb_fill b 0 8),
     (let b = put_eth [] 0x86DD;
          b = put_ipv6 b 60 TEST_V6_A TEST_V6_B (16 + 8 + 20);
          b = bb_u8 b 43; b = bb_u8 b 1; b = bb_fill b 0 14;
          b = bb_u8 b 6; b = bb_u8 b 0; b = bb_fill b 0 6
      in put_tcp b 80 60000 (0x01 OR 0x10)),
     (let b = put_eth [] 0x86DD;
          b = put_ipv6 b 58 TEST_V6_A TEST_V6_B 8
      in put_icmp b 128 0),
     (let b = put_eth [] 0x88A8;
          b = put_vlan b 300 0x8100;
          b = put_vlan b 30 0x0800;
          b = put_ipv4 b 17 TEST_V4_A TEST_V4_B (8 + 12) 0 0;
          b = put_udp b 4789 4789 12
      in bb_fill b 0 12),
     (let b = put_eth [] 0x8100;
          b = put_vlan b 7 0x86DD;
          b = put_ipv6 b 17 TEST_V6_A TEST_V6_B (8 + 4);
          b = put_udp b 546 547 4
      in bb_fill b 0 4),
     (let b = put_eth [] 0x0800;
          b = put_ipv4 b 17 TEST_V4_A TEST_V4_B 24 0 0x2000;
          b = put_udp b 4500 4500 200
      in bb_fill b 0x33 16),
     (let b = put_eth [] 0x0800;
          b = put_ipv4 b 17 TEST_V4_A TEST_V4_B 24 0 185
      in bb_fill b 0x33 24),
     (let b = put_eth [] 0x0806 in bb_fill b 0 28)]"

definition gtpu_seeds :: "(u8 list \<times> size_t) list" where
  "gtpu_seeds = [
     (let b = put_eth [] 0x0800;
          b = put_ipv4 b 17 TEST_V4_A TEST_V4_B (8 + 8 + 40 + 12) 0 0;
          b = put_udp b 2152 2152 (8 + 40 + 12);
          b = put_gtpu b 0x30 255 (40 + 12) 0x12345678;
          b = put_ipv4 b 6 TEST_V4_B TEST_V4_A (20 + 12) 0 0x4000;
          b = put_tcp b 40000 443 (0x08 OR 0x10)
      in bb_fill b 0x42 12, 42),
     (let b = put_eth [] 0x0800;
          b = put_ipv4 b 17 TEST_V4_A TEST_V4_B (8 + 8 + 64) 0 0;
          b = put_udp b 2152 2152 (8 + 64);
          b = put_gtpu b 0x36 255 64 0xBEEF;
          b = put_gtpu_opt b 1 0 0x85;
          b = bb_u8 b 1; b = bb_u8 b 0x10; b = bb_u8 b 9; b = bb_u8 b 0;
          b = put_ipv6 b 17 TEST_V6_A TEST_V6_B (8 + 8);
          b = put_udp b 50000 53 8
      in bb_fill b 0 8, 42),
     (let b = put_eth [] 0x8100;
          b = put_vlan b 300 0x86DD;
          b = put_ipv6 b 17 TEST_V6_A TEST_V6_B (8 + 8 + 44);
          b = put_udp b 2152 2152 (8 + 44);
          b = put_gtpu b 0x34 255 44 0xCAFE0001;
          b = put_gtpu_opt b 0 0 0x81;
          b = put_gtpu_ext b 2 0x85;
          b = put_gtpu_ext b 1 0;
          b = put_ipv4 b 1 TEST_V4_B TEST_V4_A 8 0 0
      in put_icmp b 0 0, 66),
     (let b = put_eth [] 0x0800;
          b = put_ipv4 b 17 TEST_V4_A TEST_V4_B (8 + 8 + 4) 0 0;
          b = put_udp b 50000 2152 (8 + 4);
          b = put_gtpu b 0x32 1 4 0
      in put_gtpu_opt b 0x0102 0 0, 42),
     (let b = put_eth [] 0x0800;
          b = put_ipv4 b 17 TEST_V4_A TEST_V4_B (8 + 8 + 76) 0 0;
          b = put_udp b 2152 2152 (8 + 76);
          b = put_gtpu b 0x30 255 76 0x11;
          b = put_ipv4 b 17 TEST_V4_B TEST_V4_A (8 + 48) 0 0;
          b = put_udp b 2152 2152 48;
          b = put_gtpu b 0x30 255 40 0x22;
          b = put_ipv4 b 6 TEST_V4_A TEST_V4_B 20 0 0
      in put_tcp b 1 2 0x02, 42)]"

definition build_seeds :: "(u8 list \<times> size_t) list" where
  "build_seeds = map (\<lambda>b. (b, 0)) plain_seeds @ gtpu_seeds"

end
