(* ===== verification/Fuzz.thy ===== *)
theory Fuzz
  imports Fuzz_Gen Fuzz_Checks Cli
begin

text \<open>
  \<open>fuzz/fuzz_decode.c\<close>, the program: each iteration mutates a seed frame, decodes and checks it,
  accounts it as the real tool does, reads a damaged capture file in lockstep from memory and from a
  stream, and compares the text of an address with that of \<open>inet_ntop\<close>; at the end it checks the
  totals and writes the reports.
\<close>

section \<open>Outcomes\<close>

text \<open>
  A computation has no value when it leaves a buffer; otherwise it gives the message with
  which the process exits with status 1, or a result.
\<close>

type_synonym 'a outcome = "(string + 'a) option"

definition chain :: "'a outcome \<Rightarrow> ('a \<Rightarrow> 'b outcome) \<Rightarrow> 'b outcome" where
  "chain m f = (case m of None \<Rightarrow> None | Some (Inl msg) \<Rightarrow> Some (Inl msg) | Some (Inr x) \<Rightarrow> f x)"

definition fail_text :: "string \<Rightarrow> u64 \<Rightarrow> string" where
  "fail_text what iter = ''fuzz_decode: invariant violated at iteration '' @ fmt_u iter @ '': '' @ what @ ''\<newline>''"

definition fail :: "string \<Rightarrow> u64 \<Rightarrow> 'a outcome" where
  "fail what iter = Some (Inl (fail_text what iter))"

text \<open>
  The outside: which of the fuzzer's own allocations succeed, what \<open>tmpfile\<close> gives for reading
  back the bytes written to it and for writing reports, the memory the program asks for,
  \<open>inet_ntop\<close>, and the contents of uninitialised variables. \<open>fe_packet\<close>: the growth of the two
  tables, for the packet with this number.
\<close>

record 'd fuzz_env =
  fe_malloc :: "size_t \<Rightarrow> bool"
  fe_tmpfile :: "u64 \<Rightarrow> u8 list \<Rightarrow> stdio_file option"
  fe_report :: "nat \<Rightarrow> out_file option"
  fe_buffer :: "u64 \<Rightarrow> u8 list option"
  fe_flows :: alloc
  fe_tunnels :: alloc
  fe_frags :: bool
  fe_packet :: "u64 \<Rightarrow> alloc \<times> alloc"
  fe_gtpu :: alloc
  fe_csv :: "bool \<Rightarrow> alloc"
  fe_doubles :: "'d double_ops"
  fe_inet_ntop :: "u8 list \<Rightarrow> string option"
  fe_work :: "u8 list"
  fe_frame :: "u64 \<Rightarrow> u8 list"
  fe_addr :: "u64 \<Rightarrow> u8 list"
  fe_record :: "u64 \<Rightarrow> pcap_record \<times> pcap_record"
  fe_analysis :: analysis

definition out_of_memory :: string where
  "out_of_memory = ''fuzz_decode: out of memory\<newline>''"

record totals =
  tot_frames :: u64
  tot_by_status :: "u64 list"
  tot_gtpu_frames :: u64
  tot_gtpu_inner :: u64
  tot_gtpu_by_status :: "u64 list"
  tot_tunnel_gpdus :: u64
  tot_files :: u64
  tot_file_records :: u64
  tot_file_outcome :: "u64 list"
  tot_stream_files :: u64
  tot_addrs :: u64

definition pcap_statuses :: "pcap_status list" where
  "pcap_statuses = [PCAP_OK, PCAP_EOF, PCAP_ERR_OPEN, PCAP_ERR_IO, PCAP_ERR_NOMEM, PCAP_ERR_SHORT_HEADER,
     PCAP_ERR_BAD_MAGIC, PCAP_ERR_PCAPNG, PCAP_ERR_BAD_VERSION, PCAP_ERR_BAD_LINKTYPE,
     PCAP_ERR_TRUNC_RECORD_HDR, PCAP_ERR_TRUNC_RECORD, PCAP_ERR_BAD_CAPLEN]"

definition pcap_status_num :: "pcap_status \<Rightarrow> nat" where
  "pcap_status_num st = length (takeWhile (\<lambda>x. x \<noteq> st) pcap_statuses)"

text \<open>The enumerators are compared as numbers.\<close>

lemma pcap_status_num_at: "pcap_statuses ! pcap_status_num st = st"
  by (cases st) (simp_all add: pcap_statuses_def pcap_status_num_def)

instantiation pcap_status :: linorder
begin

definition less_eq_pcap_status :: "pcap_status \<Rightarrow> pcap_status \<Rightarrow> bool" where
  "st \<le> st' \<longleftrightarrow> pcap_status_num st \<le> pcap_status_num st'"

definition less_pcap_status :: "pcap_status \<Rightarrow> pcap_status \<Rightarrow> bool" where
  "st < st' \<longleftrightarrow> pcap_status_num st < pcap_status_num st'"

instance
proof
  fix x y :: pcap_status
  show "x \<le> y \<Longrightarrow> y \<le> x \<Longrightarrow> x = y"
    unfolding less_eq_pcap_status_def by (metis antisym pcap_status_num_at)
qed (auto simp: less_eq_pcap_status_def less_pcap_status_def)

end

definition totals0 :: totals where
  "totals0 = \<lparr>tot_frames = 0, tot_by_status = replicate 28 0, tot_gtpu_frames = 0, tot_gtpu_inner = 0,
     tot_gtpu_by_status = replicate 28 0, tot_tunnel_gpdus = 0, tot_files = 0, tot_file_records = 0,
     tot_file_outcome = replicate 13 0, tot_stream_files = 0, tot_addrs = 0\<rparr>"

text \<open>\<open>xs[i]++\<close>\<close>

definition count_up :: "u64 list \<Rightarrow> nat \<Rightarrow> u64 list option" where
  "count_up xs i = do { c \<leftarrow> rd xs i; wr xs i (c + 1) }"

section \<open>Frames\<close>

fun random_bytes :: "nat \<Rightarrow> u64 \<Rightarrow> u8 list \<times> u64" where
  "random_bytes 0 s = ([], s)"
| "random_bytes (Suc n) s = (case rng s of (x, s) \<Rightarrow> case random_bytes n s of (xs, s) \<Rightarrow> (ucast x # xs, s))"

text \<open>With the allocations of \<open>decode_exact\<close> and of \<open>check_no_read_past_cap\<close>, and the random
  bytes that the latter puts behind the frame.\<close>

definition decode_checked ::
    "'d fuzz_env \<Rightarrow> u8 list \<Rightarrow> size_t \<Rightarrow> size_t \<Rightarrow> u64 \<Rightarrow> u64 \<Rightarrow> (packet_info \<times> u64) outcome" where
  "decode_checked e data len wirelen iter s =
     (if \<not> fe_malloc e (if len \<noteq> 0 then len else 1) then Some (Inl out_of_memory)
      else do {
        pi \<leftarrow> decode_exact data len wirelen;
        case check_invariants pi (pi_status pi) (wirelen = len) of
          Some what \<Rightarrow> fail what iter
        | None \<Rightarrow>
            if \<not> fe_malloc e (len + 64) then Some (Inl out_of_memory)
            else case random_bytes 64 s of (past, s) \<Rightarrow> do {
              r \<leftarrow> check_no_read_past_cap data len wirelen pi past;
              case r of Some what \<Rightarrow> fail what iter | None \<Rightarrow> Some (Inr (pi, s)) } })"

definition fuzz_account ::
    "'d fuzz_env \<Rightarrow> analysis \<Rightarrow> totals \<Rightarrow> packet_info \<Rightarrow> u32 \<Rightarrow> u32 \<Rightarrow> u64 \<Rightarrow> u64 \<Rightarrow> (analysis \<times> totals) outcome" where
  "fuzz_account e an tot pi caplen wirelen ts_ns iter = do {
     let tot = (if pi_is_gtpu pi \<and> pi_gtp_msg_ok pi \<and> pi_gtp_msg_type pi = GTPU_MSG_GPDU
                then tot\<lparr>tot_tunnel_gpdus := tot_tunnel_gpdus tot + 1\<rparr> else tot);
     let al = fe_packet e (s_packets (a_stats an));
     (r, an, pi) \<leftarrow> analysis_account (fst al) (snd al) an pi caplen wirelen ts_ns;
     if r \<noteq> 0 then fail ''flow table out of memory'' iter else Some (Inr (an, tot)) }"

definition process_record ::
    "'d fuzz_env \<Rightarrow> pcap_record \<Rightarrow> analysis \<Rightarrow> totals \<Rightarrow> u64 \<Rightarrow> u64 \<Rightarrow> (analysis \<times> totals \<times> u64) outcome" where
  "process_record e rec an tot iter s =
     (if rec_wirelen rec < rec_caplen rec then fail ''record wire length below captured length'' iter
      else do {
        data \<leftarrow> rec_data rec;
        chain (decode_checked e data (ucast (rec_caplen rec)) (ucast (rec_wirelen rec)) iter s) (\<lambda>(pi, s).
          chain (fuzz_account e an tot pi (rec_caplen rec) (rec_wirelen rec) (rec_ts_ns rec) iter) (\<lambda>(an, tot).
            Some (Inr (an, tot, s)))) })"

section \<open>Capture files\<close>

text \<open>One record of the file: the file, the offsets of the record headers, and the local array.\<close>

definition put_random_record ::
    "bool \<Rightarrow> u8 list \<times> size_t list \<times> u8 list \<times> u64 \<Rightarrow> (u8 list \<times> size_t list \<times> u8 list \<times> u64) option" where
  "put_random_record be st = (case st of (file, hdrs, frame, s) \<Rightarrow> do {
     ((seed, at), s) \<leftarrow> pick build_seeds s;
     if length seed > length frame then None
     else do {
       let frame = set_prefix frame seed;
       let len = (of_nat (length seed) :: size_t);
       (frame, len, s) \<leftarrow> (case rng s of (x, s) \<Rightarrow>
         if x AND 1 \<noteq> 0 then mutate frame len (of_nat (length frame)) s else Some (frame, len, s));
       (wire, s) \<leftarrow> (case rng s of (x, s) \<Rightarrow>
         if x AND 3 = 0 then (case rng_below 1500 s of (extra, s) \<Rightarrow> Some (ucast len + ucast extra :: u32, s))
         else Some (ucast len, s));
       (sec, s) \<leftarrow> Some (rng s);
       (frac, s) \<leftarrow> Some (rng s);
       let hdrs = hdrs @ [of_nat (length file)];
       file \<leftarrow> pcap_put_record file be (ucast sec) (ucast frac) frame (ucast len) wire;
       Some (file, hdrs, frame, s) } })"

fun put_random_records ::
    "nat \<Rightarrow> bool \<Rightarrow> u8 list \<times> size_t list \<times> u8 list \<times> u64 \<Rightarrow> (u8 list \<times> size_t list \<times> u8 list \<times> u64) option" where
  "put_random_records 0 be st = Some st"
| "put_random_records (Suc n) be st = Option.bind (put_random_record be st) (put_random_records n be)"

text \<open>The damage: a record length field, one bit, and a cut.\<close>

definition corrupt_length :: "bool \<Rightarrow> u8 list \<Rightarrow> size_t list \<Rightarrow> u64 \<Rightarrow> (u8 list \<times> u64) option" where
  "corrupt_length be file hdrs s = do {
     (hdr, s) \<leftarrow> pick hdrs s;
     (field, s) \<leftarrow> Some (rng_below 2 s);
     let at = hdr + 8 + 4 * field;
     (v, s) \<leftarrow> pick interesting32 s;
     file \<leftarrow> wr file (unat at) (ucast (if be then drop_bit 24 v else v));
     file \<leftarrow> wr file (unat (at + 1)) (ucast (if be then drop_bit 16 v else drop_bit 8 v));
     file \<leftarrow> wr file (unat (at + 2)) (ucast (if be then drop_bit 8 v else drop_bit 16 v));
     file \<leftarrow> wr file (unat (at + 3)) (ucast (if be then v else drop_bit 24 v));
     Some (file, s) }"

definition damage :: "bool \<Rightarrow> u8 list \<Rightarrow> size_t list \<Rightarrow> u64 \<Rightarrow> (u8 list \<times> u64) option" where
  "damage be file hdrs s = do {
     (file, s) \<leftarrow> (if hdrs \<noteq> [] then (case rng s of (x, s) \<Rightarrow>
         if x AND 1 \<noteq> 0 then corrupt_length be file hdrs s else Some (file, s))
       else Some (file, s));
     (file, s) \<leftarrow> (case rng s of (x, s) \<Rightarrow>
       if x AND 3 = 0 then flip_random_bit file (of_nat (length file)) s else Some (file, s));
     (case rng s of (x, s) \<Rightarrow>
       if x AND 3 = 0 then (case rng_below (of_nat (length file) + 1) s of (len, s) \<Rightarrow> Some (take (unat len) file, s))
       else Some (file, s)) }"

text \<open>
  The loop that reads from memory and from the stream in turn. A record read from memory lies
  in place, where the reader stood before its data: \<open>data - exact\<close> is the position behind
  it less \<open>caplen\<close>.
\<close>

partial_function (option) lockstep ::
    "'d fuzz_env \<Rightarrow> size_t \<Rightarrow> u64 \<Rightarrow> pcap_reader \<Rightarrow> pcap_record \<Rightarrow> pcap_reader \<Rightarrow> pcap_record \<Rightarrow> analysis \<Rightarrow> totals \<Rightarrow> u64 \<Rightarrow>
     (string + (pcap_status \<times> pcap_reader \<times> pcap_reader \<times> analysis \<times> totals \<times> u64)) option" where
  "lockstep e file_len iter mr mrec fr frec an tot s =
     Option.bind (pcap_next mr mrec) (\<lambda>(ms, mr, mrec).
     Option.bind (pcap_next fr frec) (\<lambda>(fs, fr, frec).
       if ms \<noteq> fs then fail ''memory and stream readers disagree on a record'' iter
       else if ms \<noteq> PCAP_OK then Some (Inr (ms, mr, fr, an, tot, s))
       else
         Option.bind (rec_data mrec) (\<lambda>mdata. Option.bind (rec_data frec) (\<lambda>fdata.
           if rec_caplen mrec \<noteq> rec_caplen frec \<or> rec_wirelen mrec \<noteq> rec_wirelen frec \<or> rec_ts_ns mrec \<noteq> rec_ts_ns frec \<or>
              memcmp (unat (rec_caplen mrec)) mdata fdata \<noteq> 0
           then fail ''memory and stream readers returned different records'' iter
           else if rec_caplen mrec > PCAP_MAX_CAPLEN \<or> ucast (rec_caplen mrec) > file_len \<or>
                   r_mem_pos mr - ucast (rec_caplen mrec) > file_len - ucast (rec_caplen mrec)
           then fail ''record outside the input buffer'' iter
           else
             Option.bind (process_record e mrec an tot iter s) (\<lambda>r.
               case r of
                 Inl msg \<Rightarrow> Some (Inl msg)
               | Inr (an, tot, s) \<Rightarrow>
                   lockstep e file_len iter mr mrec fr frec an (tot\<lparr>tot_file_records := tot_file_records tot + 1\<rparr>) s)))))"

text \<open>Reading a file of these bytes in both ways. \<open>pcap_close\<close> at the end has no effect on what follows.\<close>

definition read_both ::
    "'d fuzz_env \<Rightarrow> u8 list \<Rightarrow> u64 \<Rightarrow> analysis \<Rightarrow> totals \<Rightarrow> u64 \<Rightarrow> (analysis \<times> totals \<times> u64) outcome" where
  "read_both e file iter an tot s =
     (if \<not> fe_malloc e (if file \<noteq> [] then of_nat (length file) else 1) then Some (Inl [])
      else case fe_tmpfile e iter file of
        None \<Rightarrow> Some (Inl ''fuzz_decode: cannot write temporary file\<newline>'')
      | Some tmp \<Rightarrow> do {
          let tot = tot\<lparr>tot_files := tot_files tot + 1\<rparr>;
          (ms, mr) \<leftarrow> pcap_open_mem file (of_nat (length file));
          (fs, fr, closed) \<leftarrow> pcap_open_stream (fe_buffer e iter) (Some tmp);
          if ms \<noteq> fs then fail ''memory and stream readers disagree on the global header'' iter
          else
            chain (if ms = PCAP_OK
                   then lockstep e (of_nat (length file)) iter mr (fst (fe_record e iter)) fr (snd (fe_record e iter)) an tot s
                   else Some (Inr (ms, mr, fr, an, tot, s)))
              (\<lambda>(ms, mr, fr, an, tot, s).
                if r_records mr \<noteq> r_records fr then fail ''memory and stream readers returned different counts'' iter
                else do {
                  let tot = tot\<lparr>tot_stream_files := tot_stream_files tot + 1\<rparr>;
                  outcome \<leftarrow> (if ms \<le> PCAP_ERR_BAD_CAPLEN
                              then count_up (tot_file_outcome tot) (pcap_status_num ms) else Some (tot_file_outcome tot));
                  Some (Inr (an, tot\<lparr>tot_file_outcome := outcome\<rparr>, s)) }) })"

definition fuzz_reader :: "'d fuzz_env \<Rightarrow> u64 \<Rightarrow> analysis \<Rightarrow> totals \<Rightarrow> u64 \<Rightarrow> (analysis \<times> totals \<times> u64) outcome" where
  "fuzz_reader e iter an tot s = do {
     (nrec, s) \<leftarrow> Some (rng_below (4 + 1) s);
     (x, s) \<leftarrow> Some (rng s);
     (y, s) \<leftarrow> Some (rng s);
     let be = (x AND 1 \<noteq> 0);
     let nsec = (y AND 1 \<noteq> 0);
     (file, hdrs, frame, s) \<leftarrow> put_random_records (unat nrec) be (pcap_put_global [] be nsec 65535 1, [], fe_frame e iter, s);
     (file, s) \<leftarrow> damage be file hdrs s;
     read_both e file iter an tot s }"

section \<open>Addresses\<close>

text \<open>The eight groups, stored at \<open>2 * g\<close> and behind.\<close>

fun random_groups :: "nat \<Rightarrow> nat \<Rightarrow> u8 list \<Rightarrow> u64 \<Rightarrow> (u8 list \<times> u64) option" where
  "random_groups g 0 a s = Some (a, s)"
| "random_groups g (Suc n) a s =
     (case rng_below 4 s of (kind, s) \<Rightarrow>
      case (if kind = 0 \<or> kind = 1 then (0 :: cuint, s)
            else if kind = 2 then (case rng_below 16 s of (x, s) \<Rightarrow> (ucast x, s))
            else (case rng s of (x, s) \<Rightarrow> (ucast (x AND 0xFFFF), s))) of (v, s) \<Rightarrow>
        Option.bind (wr a (2 * g) (ucast (drop_bit 8 v))) (\<lambda>a.
        Option.bind (wr a (2 * g + 1) (ucast v)) (\<lambda>a. random_groups (g + 1) n a s)))"

text \<open>96 zero bits, then a non-zero group.\<close>

definition v4_compatible :: "u8 list \<Rightarrow> bool option" where
  "v4_compatible a = do {
     a12 \<leftarrow> rd8 a 12;
     a13 \<leftarrow> rd8 a 13;
     if a12 \<noteq> 0 \<or> a13 \<noteq> 0 then all_zero a 0 12 else Some False }"

definition fuzz_addr :: "'d fuzz_env \<Rightarrow> u64 \<Rightarrow> totals \<Rightarrow> u64 \<Rightarrow> (totals \<times> u64) outcome" where
  "fuzz_addr e iter tot s = do {
     (a, s) \<leftarrow> random_groups 0 8 (fe_addr e iter) s;
     (z, s) \<leftarrow> Some (rng_below 16 s);
     a \<leftarrow> (if z = 0
           then do { a \<leftarrow> Some (set_prefix a (replicate 10 0)); a \<leftarrow> wr a 11 0xff; wr a 10 0xff }
           else Some a);
     mine \<leftarrow> addr_format 6 a [] ADDR_STR_LEN;
     case fe_inet_ntop e a of
       None \<Rightarrow> fail ''inet_ntop failed'' iter
     | Some ref \<Rightarrow> do {
         compat \<leftarrow> v4_compatible a;
         if \<not> compat \<and> mine \<noteq> ref
         then Some (Inl (''fuzz_decode: addr_format gave '' @ [CHR 0x22] @ mine @ [CHR 0x22] @ '', inet_ntop gave '' @
                [CHR 0x22] @ ref @ [CHR 0x22] @ ''\<newline>'' @ fail_text ''IPv6 text form differs from inet_ntop'' iter))
         else Some (Inr (tot\<lparr>tot_addrs := tot_addrs tot + 1\<rparr>, s)) } }"

section \<open>The end\<close>

definition check_tunnel_totals :: "analysis \<Rightarrow> totals \<Rightarrow> out_file \<Rightarrow> out_file outcome" where
  "check_tunnel_totals an tot out = do {
     let g = s_gtpu (a_stats an);
     packets \<leftarrow> foreach (a_tunnels an) (\<lambda>f packets. Some (packets + f_packets f)) 0 (0 :: u64);
     if packets \<noteq> tot_tunnel_gpdus tot then fail ''tunnel table packets differ from G-PDUs with complete headers'' 0
     else if g_user_truncated g > g_truncated g \<or> g_user_malformed g > g_malformed g
     then fail ''user-packet problems exceed all GTP-U problems'' 0
     else Some (Inr (fprintf (''tunnels: '' @ fmt_u packets @
            '' G-PDUs with complete GTP-U headers, all in the tunnel table\<newline>'') out)) }"

text \<open>The top entries of a table, printed to a report; the number printed and the report.\<close>

definition fuzz_print_top :: "'d fuzz_env \<Rightarrow> out_file \<Rightarrow> flow_table \<Rightarrow> bool \<Rightarrow> (nat \<times> out_file) outcome" where
  "fuzz_print_top e f t tunnels =
     (let n = (if t_count t < 100 then t_count t else 100) in
      if \<not> fe_malloc e ((if n \<noteq> 0 then n else 1) * 8) then Some (Inl [])
      else do {
        tops \<leftarrow> flow_table_top_n t n;
        f \<leftarrow> (if tunnels then report_top_tunnels f tops (length tops) (t_count t)
              else report_top_flows f tops (length tops) (t_count t));
        Some (Inr (length tops, f)) })"

definition check_csv ::
    "'d fuzz_env \<Rightarrow> nat \<Rightarrow> flow_table \<Rightarrow> (out_file \<Rightarrow> flow_table \<Rightarrow> (int \<times> out_file) option) \<Rightarrow> string \<Rightarrow> unit outcome" where
  "check_csv e k t writer what =
     (case fe_report e k of
        None \<Rightarrow> fail ''cannot create temporary file for CSV'' 0
      | Some f \<Rightarrow> do {
          (rc, f) \<leftarrow> writer f t;
          if rc \<noteq> 0 then fail ''CSV write failed'' 0
          else if (of_nat (count_list (o_text f) CHR ''\<newline>'') :: u64) \<noteq> t_count t + 1 then fail what 0
          else Some (Inr ()) })"

definition fuzz_reports :: "'d fuzz_env \<Rightarrow> analysis \<Rightarrow> out_file \<Rightarrow> out_file outcome" where
  "fuzz_reports e an out =
     (case fe_report e 0 of
        None \<Rightarrow> fail ''cannot create temporary file for reports'' 0
      | Some f \<Rightarrow> do {
          let info = file_info0\<lparr>i_version_major := 2, i_version_minor := 4\<rparr>;
          f \<leftarrow> report_summary (fe_doubles e) f ''fuzz'' info (a_stats an) (t_count (a_flows an));
          chain (fuzz_print_top e f (a_flows an) False) (\<lambda>(n_flows, f). do {
            (rc, f) \<leftarrow> report_gtpu (fe_gtpu e) f (a_stats an) (a_tunnels an);
            if rc \<noteq> 0 then fail ''GTP-U report failed'' 0
            else
              chain (fuzz_print_top e f (a_tunnels an) True) (\<lambda>(n_tunnels, f).
              if o_error f then fail ''report write failed'' 0
              else
                chain (check_csv e 1 (a_flows an) (report_csv (fe_csv e False))
                        ''CSV does not have one row per flow plus a header'') (\<lambda>_.
                chain (check_csv e 2 (a_tunnels an) (report_tunnels_csv (fe_csv e True))
                        ''tunnels CSV does not have one row per tunnel plus a header'') (\<lambda>_.
                Some (Inr (fprintf (''reports: summary, GTP-U section, top '' @ dec n_flows @ '' flow and top '' @
                  dec n_tunnels @ '' tunnel tables, '' @ fmt_u (t_count (a_flows an)) @ ''-row and '' @
                  fmt_u (t_count (a_tunnels an)) @ ''-row CSVs written\<newline>'') out))))) }) })"

section \<open>The main loop\<close>

text \<open>A mutated seed in the working buffer, its length and its length on the wire. The buffer keeps the
  rest of its contents from the iteration before.\<close>

definition fuzz_frame :: "u8 list \<Rightarrow> u64 \<Rightarrow> (u8 list \<times> size_t \<times> size_t \<times> u64) option" where
  "fuzz_frame work s = do {
     ((seed, gtp_at), s) \<leftarrow> pick build_seeds s;
     if length seed > length work then None
     else do {
       let work = set_prefix work seed;
       let len = (of_nat (length seed) :: size_t);
       (work, s) \<leftarrow> (if gtp_at \<noteq> 0
         then (case rng s of (x, s) \<Rightarrow> if x AND 1 \<noteq> 0 then mutate_gtpu work len gtp_at s else Some (work, s))
         else Some (work, s));
       (work, len, s) \<leftarrow> mutate work len (of_nat (length work)) s;
       (case rng s of (x, s) \<Rightarrow>
         if x AND 1 \<noteq> 0 then Some (work, len, len, s)
         else (case rng_below 3000 s of (more', s) \<Rightarrow> Some (work, len, len + more', s))) } }"

definition count_frame :: "totals \<Rightarrow> packet_info \<Rightarrow> totals option" where
  "count_frame tot pi = do {
     by_status \<leftarrow> count_up (tot_by_status tot) (status_num (pi_status pi));
     let tot = tot\<lparr>tot_frames := tot_frames tot + 1, tot_by_status := by_status\<rparr>;
     if pi_is_gtpu pi then do {
         by_status \<leftarrow> count_up (tot_gtpu_by_status tot) (status_num (pi_gtp_status pi));
         Some (tot\<lparr>tot_gtpu_frames := tot_gtpu_frames tot + 1, tot_gtpu_by_status := by_status,
                   tot_gtpu_inner := tot_gtpu_inner tot + (if pi_has_inner pi then 1 else 0)\<rparr>) }
       else Some tot }"

definition fuzz_iteration ::
    "'d fuzz_env \<Rightarrow> u64 \<Rightarrow> analysis \<times> totals \<times> u8 list \<times> u64 \<Rightarrow> (analysis \<times> totals \<times> u8 list \<times> u64) outcome" where
  "fuzz_iteration e i st = (case st of (an, tot, work, s) \<Rightarrow> do {
     (work, len, wirelen, s) \<leftarrow> fuzz_frame work s;
     chain (decode_checked e work len wirelen i s) (\<lambda>(pi, s). do {
       tot \<leftarrow> count_frame tot pi;
       chain (fuzz_account e an tot pi (ucast len) (ucast wirelen) i i) (\<lambda>(an, tot).
         chain (if i AND 3 = 0 then fuzz_reader e i an tot s else Some (Inr (an, tot, s))) (\<lambda>(an, tot, s).
           chain (fuzz_addr e i tot s) (\<lambda>(tot, s). Some (Inr (an, tot, work, s))))) }) })"

text \<open>\<open>n\<close> iterations, from number \<open>i\<close> on.\<close>

fun fuzz_loop ::
    "'d fuzz_env \<Rightarrow> nat \<Rightarrow> u64 \<Rightarrow> analysis \<times> totals \<times> u8 list \<times> u64 \<Rightarrow> (analysis \<times> totals \<times> u8 list \<times> u64) outcome" where
  "fuzz_loop e 0 i st = Some (Inr st)"
| "fuzz_loop e (Suc n) i st = chain (fuzz_iteration e i st) (fuzz_loop e n (i + 1))"

text \<open>The counts above 0, with their names.\<close>

definition print_counts :: "string list \<Rightarrow> u64 list \<Rightarrow> out_file \<Rightarrow> out_file option" where
  "print_counts names counts =
     for_each 0 (length names) (\<lambda>k out. do {
       c \<leftarrow> rd counts k;
       name \<leftarrow> rd names k;
       Some (if c > 0 then fprintf (''  '' @ pad_right 38 name @ '' '' @ fmt_u c @ ''\<newline>'') out else out) })"

definition fuzz_summary :: "u64 \<Rightarrow> u64 \<Rightarrow> analysis \<Rightarrow> totals \<Rightarrow> out_file \<Rightarrow> out_file option" where
  "fuzz_summary iterations seed an tot out = do {
     let out = fprintf (''fuzz_decode: '' @ fmt_u iterations @ '' iterations, seed '' @ fmt_u seed @ ''\<newline>'') out;
     let out = fprintf (''decoder: '' @ fmt_u (tot_frames tot) @ '' mutated frames\<newline>'') out;
     out \<leftarrow> print_counts (map decode_status_str (take 28 all_status)) (tot_by_status tot) out;
     let out = fprintf (''GTP-U: '' @ fmt_u (tot_gtpu_frames tot) @ '' of those frames decoded as GTP-U, '' @
                 fmt_u (tot_gtpu_inner tot) @ '' with a valid inner packet\<newline>'') out;
     out \<leftarrow> print_counts (map decode_status_str (take 28 all_status)) (tot_gtpu_by_status tot) out;
     let out = fprintf (''reader: '' @ fmt_u (tot_files tot) @ '' mutated pcap files (each read from memory and through stdio), '' @
                 fmt_u (tot_file_records tot) @ '' records decoded\<newline>'') out;
     out \<leftarrow> print_counts (map pcap_status_str pcap_statuses) (tot_file_outcome tot) out;
     let out = fprintf (''addresses: '' @ fmt_u (tot_addrs tot) @ '' IPv6 addresses checked against inet_ntop\<newline>'') out;
     Some (fprintf (''flow table: '' @ fmt_u (t_count (a_flows an)) @ '' flows, '' @ fmt_u (s_frag_matched (a_stats an)) @
            '' later fragments matched; tunnel table: '' @ fmt_u (t_count (a_tunnels an)) @ '' tunnels\<newline>'') out) }"

text \<open>\<open>strtoull (s, NULL, 10)\<close>: blanks, a sign, and as many digits as there are; \<open>ULLONG_MAX\<close> when
  they are out of range.\<close>

definition strtoull :: "string \<Rightarrow> u64" where
  "strtoull s =
     (let s = dropWhile (\<lambda>c. of_char c \<in> {9, 10, 11, 12, 13, 32 :: nat}) s;
          neg = (s \<noteq> [] \<and> hd s = CHR ''-'');
          s = (if s \<noteq> [] \<and> (hd s = CHR ''-'' \<or> hd s = CHR ''+'') then tl s else s);
          v = num_val 10 (takeWhile (\<lambda>c. 48 \<le> (of_char c :: nat) \<and> of_char c \<le> (57 :: nat)) s)
      in if v \<ge> 2 ^ 64 then - 1 else if neg then - of_nat v else of_nat v)"

definition rng_seed :: "u64 \<Rightarrow> u64" where
  "rng_seed seed = (let state = seed * 0x9E3779B97F4A7C15 + 1 in if state = 0 then 1 else state)"

text \<open>\<open>main\<close>: exit status 0 with what was printed, or the message before exit status 1.\<close>

definition fuzz_main :: "'d fuzz_env \<Rightarrow> string list \<Rightarrow> out_file \<Rightarrow> out_file outcome" where
  "fuzz_main e argv out =
     (let iterations = (if length argv > 1 then strtoull (argv ! 1) else 200000);
          seed = (if length argv > 2 then strtoull (argv ! 2) else 1)
      in do {
        (r, an) \<leftarrow> analysis_init (fe_flows e) (fe_tunnels e) (fe_frags e) (fe_analysis e);
        if r \<noteq> 0 then Some (Inl [])
        else
          chain (fuzz_loop e (unat iterations) 0 (an, totals0, fe_work e, rng_seed seed)) (\<lambda>(an, tot, work, s). do {
            out \<leftarrow> fuzz_summary iterations seed an tot out;
            chain (check_tunnel_totals an tot out) (\<lambda>out.
            chain (fuzz_reports e an out) (\<lambda>out.
            Some (Inr (fprintf ''result: no crashes, no sanitizer reports, all invariants held\<newline>'' out)))) }) })"

end
