(* ===== verification/Fuzz_Safe.thy ===== *)
theory Fuzz_Safe
  imports Fuzz_Gen
begin

text \<open>
  The mutations never leave their buffer: what they do to it is a change of bytes in it and
  a length within it.
\<close>

section \<open>Draws\<close>

lemma rng_below_less: "n \<noteq> 0 \<Longrightarrow> fst (rng_below n s) < n"
  by (simp add: rng_below_def word_mod_less_divisor word_neq_0_conv split: prod.split)

lemma rng_belowE:
  assumes "n \<noteq> 0"
  obtains x s' where "rng_below n s = (x, s')" "unat x < unat n"
  using rng_below_less [OF assms, of s] by (cases "rng_below n s") (auto simp: word_less_nat_alt)

lemma wp_rng_below:
  assumes "n \<noteq> 0" "\<And>x s'. unat x < unat n \<Longrightarrow> wp (f x s') Q"
  shows "wp (case rng_below n s of (x, s') \<Rightarrow> f x s') Q"
  using assms by (metis rng_belowE prod.case)

lemma wp_pair: "(\<And>x s'. wp (f x s') Q) \<Longrightarrow> wp (case p of (x, s') \<Rightarrow> f x s') Q"
  by (cases p) simp

lemma wp_pick:
  assumes "a \<noteq> []" "length a < 2 ^ 64" "\<And>x s'. x \<in> set a \<Longrightarrow> Q (x, s')"
  shows "wp (pick a s) Q"
proof -
  have n: "unat (of_nat (length a) :: size_t) = length a" using assms(2) by (simp add: unsigned_of_nat take_bit_nat_eq_self)
  moreover from this assms(1) have "(of_nat (length a) :: size_t) \<noteq> 0" by auto
  ultimately show ?thesis
    unfolding pick_def using assms(3) by (intro wp_rng_below) (auto simp: wp_def)
qed

section \<open>Mutations\<close>

text \<open>A buffer of the same size and a length in it.\<close>

definition in_buffer :: "u8 list \<Rightarrow> size_t \<Rightarrow> bool" where
  "in_buffer buf len \<longleftrightarrow> unat len \<le> length buf \<and> length buf < 2 ^ 32"

lemma flip_ok: "unat len \<le> length buf \<Longrightarrow> wp (flip_random_bit buf len s) (\<lambda>(buf', s'). length buf' = length buf)"
  unfolding flip_random_bit_def
  by (intro wp_if wpI wp_rng_below wp_bind wp_rd8 wp_wr) auto

lemma in_buffer_update: "in_buffer (buf[i := x]) len = in_buffer buf len"
  by (simp add: in_buffer_def)

lemma append_ok:
  assumes "unat len + n \<le> length buf" "length buf < 2 ^ 32"
  shows "wp (append_random n buf len s) (\<lambda>(buf', len', s'). length buf' = length buf \<and> in_buffer buf' len')"
  using assms
proof (induction n arbitrary: buf len s)
  case (Suc n)
  have "unat (len + 1) = unat len + 1"
    using Suc.prems by (simp add: unat_word_ariths)
  then have "wp (append_random n (buf[unat len := x]) (len + 1) s')
      (\<lambda>(buf', len', s'). length buf' = length buf \<and> in_buffer buf' len')" for x s'
    using Suc.IH [of "len + 1" "buf[unat len := x]"] Suc.prems by simp
  then show ?case using Suc.prems
    by (auto simp: wp_def wr_def split: prod.split)
qed (simp add: wp_def in_buffer_def)

lemma wp_wr16:
  assumes "unat off + 1 < length buf" "length buf < 2 ^ 32" "\<And>buf'. length buf' = length buf \<Longrightarrow> Q buf'"
  shows "wp (wr16 buf off v) Q"
proof -
  have "unat (off + 1) = unat off + 1" using assms(1,2) by (simp add: unat_word_ariths)
  then show ?thesis unfolding wr16_def using assms by (intro wp_bind wp_wr) simp_all
qed

lemma boundary_bound: "len \<ge> 2 \<Longrightarrow> unat ((if len < 96 then len else 96) - 1) < unat len" for len :: size_t
  by (auto simp: word_less_nat_alt word_le_nat_alt unat_minus)

lemma overwrite_ok: "unat len \<le> length buf \<Longrightarrow> wp (overwrite_byte buf len s) (\<lambda>(buf', s'). length buf' = length buf)"
  unfolding overwrite_byte_def
  by (intro wp_if wpI wp_rng_below wp_pair wp_bind wp_wr) (auto simp: word_less_nat_alt)

lemma boundary_ok:
  assumes "unat len \<le> length buf" "length buf < 2 ^ 32"
  shows "wp (store_boundary buf len s) (\<lambda>(buf', s'). length buf' = length buf)"
proof (cases "len \<ge> 2")
  case True
  have "(if len < 96 then len else 96) - 1 \<noteq> 0"
    using True by (auto simp: word_le_nat_alt word_less_nat_alt unat_minus dest!: arg_cong [of _ 0 unat])
  then obtain off s1 where off: "rng_below ((if len < 96 then len else 96) - 1) s = (off, s1)"
      "unat off < unat ((if len < 96 then len else 96) - 1)" by (rule rng_belowE)
  have bound: "unat off + 1 < length buf"
    using off(2) boundary_bound [OF True] assms(1) by linarith
  have pick: "wp (pick interesting16 s1) (\<lambda>_. True)"
    by (rule wp_pick) (simp_all add: interesting16_def)
  then obtain v s2 where v: "pick interesting16 s1 = Some (v, s2)" by (auto simp: wp_def)
  have "wp (wr16 buf off v) (\<lambda>buf'. length buf' = length buf)" by (rule wp_wr16 [OF bound assms(2)])
  then show ?thesis using True off(1) v by (auto simp: store_boundary_def wp_def)
qed (simp add: store_boundary_def wp_def)

lemma nibble_ok:
  assumes "unat len \<le> length buf"
  shows "wp (rewrite_nibble buf len s) (\<lambda>(buf', s'). length buf' = length buf)"
proof (cases "len > 0")
  case True
  then have "(if len < 96 then len else 96) \<noteq> 0" by auto
  then obtain off s1 where off: "rng_below (if len < 96 then len else 96) s = (off, s1)"
      "unat off < unat (if len < 96 then len else 96)" by (rule rng_belowE)
  then have "unat off < length buf" using assms by (auto simp: word_less_nat_alt split: if_splits)
  with True off(1) show ?thesis
    by (auto simp: rewrite_nibble_def wp_def rd8_def wr_def split: prod.split)
qed (simp add: rewrite_nibble_def wp_def)

lemma append_bytes_ok:
  assumes "in_buffer buf len" "mx = of_nat (length buf)"
  shows "wp (append_bytes buf len mx s) (\<lambda>(buf', len', s'). length buf' = length buf \<and> in_buffer buf' len')"
proof -
  have len: "unat len \<le> length buf" "length buf < 2 ^ 32" using assms(1) by (simp_all add: in_buffer_def)
  have mx: "unat mx = length buf" using len(2) by (simp add: assms(2) unsigned_of_nat take_bit_nat_eq_self)
  have "unat len + unat (if add > mx - len then mx - len else add) \<le> length buf" for add :: size_t
    using len mx unat_minus [of len mx] by (auto simp: word_le_nat_alt word_less_nat_alt)
  then show ?thesis unfolding append_bytes_def using append_ok len(2) by (intro wp_pair) blast
qed

lemma mutate_round_ok:
  assumes "in_buffer buf len" "mx = of_nat (length buf)"
  shows "wp (mutate_round buf len mx s) (\<lambda>(buf', len', s'). length buf' = length buf \<and> in_buffer buf' len')"
proof -
  have len: "unat len \<le> length buf" "length buf < 2 ^ 32" using assms(1) by (simp_all add: in_buffer_def)
  have keep: "wp (Option.bind m (\<lambda>(buf, s). Some (buf, len, s))) (\<lambda>(buf', len', s'). length buf' = length buf \<and> in_buffer buf' len')"
    if "wp m (\<lambda>(buf', s'). length buf' = length buf)" for m :: "(u8 list \<times> u64) option"
    using that len by (auto simp: wp_def in_buffer_def)
  have "unat (len + 1) = unat len + 1" using len by (simp add: unat_word_ariths)
  then have "len + 1 \<noteq> 0" by auto
  then have cut: "wp (case rng_below (len + 1) s of (len, s) \<Rightarrow> Some (buf, len, s))
      (\<lambda>(buf', len', s'). length buf' = length buf \<and> in_buffer buf' len')" for s
    using len \<open>unat (len + 1) = unat len + 1\<close> by (intro wp_rng_below wpI) (auto simp: in_buffer_def)
  show ?thesis unfolding mutate_round_def
    by (intro wp_pair wp_if keep flip_ok overwrite_ok boundary_ok nibble_ok cut append_bytes_ok len assms)
qed

lemma mutate_rounds_ok:
  assumes "in_buffer buf len" "mx = of_nat (length buf)"
  shows "wp (mutate_rounds n buf len mx s) (\<lambda>(buf', len', s'). length buf' = length buf \<and> in_buffer buf' len')"
  using assms
proof (induction n arbitrary: buf len s)
  case (Suc n)
  obtain buf1 len1 s1 where 1: "mutate_round buf len mx s = Some (buf1, len1, s1)" "length buf1 = length buf" "in_buffer buf1 len1"
    using mutate_round_ok [OF Suc.prems, of s] by (auto simp: wp_def)
  with Suc.IH [of buf1 len1 s1] Suc.prems show ?case by (auto simp: wp_def)
qed (simp add: wp_def)

lemma mutate_ok:
  assumes "in_buffer buf len" "mx = of_nat (length buf)"
  shows "wp (mutate buf len mx s) (\<lambda>(buf', len', s'). length buf' = length buf \<and> in_buffer buf' len')"
  unfolding mutate_def using mutate_rounds_ok [OF assms] by (intro wp_pair)

lemma mutate_gtpu_ok:
  assumes "in_buffer buf len" "unat at \<le> 100"
  shows "wp (mutate_gtpu buf len at s) (\<lambda>(buf', s'). length buf' = length buf)"
proof -
  have len: "unat len \<le> length buf" "length buf < 2 ^ 32" using assms(1) by (simp_all add: in_buffer_def)
  have plus: "unat (at + k) = unat at + unat k" if "unat k \<le> 13" for k
    using assms(2) that by (simp add: unat_word_ariths)
  have inside: "at + 4 \<le> len \<Longrightarrow> unat at + 4 \<le> length buf" "at + 12 \<le> len \<Longrightarrow> unat at + 12 \<le> length buf"
    "at + 13 \<le> len \<Longrightarrow> unat at + 13 \<le> length buf" "at < len \<Longrightarrow> unat at < length buf"
    using plus [of 4] plus [of 12] plus [of 13] len(1) by (auto simp: word_le_nat_alt word_less_nat_alt)
  have write16: "wp (Option.bind (wr16 buf (at + 2) v) (\<lambda>buf. Some (buf, s))) (\<lambda>(buf', s'). length buf' = length buf)"
    if "at + 4 \<le> len" for v s
  proof -
    have "wp (wr16 buf (at + 2) v) (\<lambda>buf'. length buf' = length buf)"
      using inside(1) [OF that] plus [of 2] len(2) by (intro wp_wr16) simp_all
    then show ?thesis by (auto simp: wp_def)
  qed
  have flag: "wp (flip_flag buf len at s) (\<lambda>(buf', s'). length buf' = length buf)" for s
    unfolding flip_flag_def using inside(4) by (intro wp_if wpI wp_pair wp_bind wp_rd8 wp_wr) auto
  have setl: "wp (set_length buf len at s) (\<lambda>(buf', s'). length buf' = length buf)" for s
  proof (cases "at + 4 \<le> len")
    case True
    have "wp (pick interesting16 s) (\<lambda>_. True)" by (rule wp_pick) (simp_all add: interesting16_def)
    then obtain v s1 where "pick interesting16 s = Some (v, s1)" by (auto simp: wp_def)
    then show ?thesis using True write16 [OF True, of v s1] by (simp add: set_length_def)
  qed (simp add: set_length_def wp_def)
  have shift: "wp (shift_length buf len at s) (\<lambda>(buf', s'). length buf' = length buf)" for s
  proof (cases "at + 4 \<le> len")
    case True
    then have "rd8 buf (unat (at + 2)) \<noteq> None" "rd8 buf (unat (at + 3)) \<noteq> None"
      using inside(1) plus [of 2] plus [of 3] by (simp_all add: rd8_def)
    then show ?thesis using True write16 [OF True] by (auto simp: shift_length_def Let_def split: prod.split)
  qed (simp add: shift_length_def wp_def)
  have nxt: "wp (set_next_type buf len at s) (\<lambda>(buf', s'). length buf' = length buf)" for s
    unfolding set_next_type_def using inside(2) plus [of 11] by (intro wp_if wpI wp_pair wp_bind wp_wr) auto
  have ext: "wp (set_ext_length buf len at s) (\<lambda>(buf', s'). length buf' = length buf)" for s
  proof (cases "at + 13 \<le> len")
    case True
    have "wp (pick ext_len s) (\<lambda>_. True)" by (rule wp_pick) (simp_all add: ext_len_def)
    then obtain v s1 where "pick ext_len s = Some (v, s1)" by (auto simp: wp_def)
    then show ?thesis using True inside(3) plus [of 12] by (simp add: set_ext_length_def wp_def wr_def)
  qed (simp add: set_ext_length_def wp_def)
  show ?thesis unfolding mutate_gtpu_def by (intro wp_pair wp_if flag setl shift nxt ext)
qed

end
