(* ===== verification/Fuzz_Read.thy ===== *)
theory Fuzz_Read
  imports Fuzz Fuzz_Safe Cli_Run Decode_Props
begin

text \<open>
  The checks of the fuzzer on frames, records and capture files hold whatever it draws.
\<close>

section \<open>Outcomes\<close>

definition returns :: "'a outcome \<Rightarrow> ('a \<Rightarrow> bool) \<Rightarrow> bool" where
  "returns m Q \<longleftrightarrow> (\<exists>x. m = Some (Inr x) \<and> Q x)"

lemma returnsI: "Q x \<Longrightarrow> returns (Some (Inr x)) Q"
  by (simp add: returns_def)

lemma returns_chain: "returns m P \<Longrightarrow> (\<And>x. P x \<Longrightarrow> returns (f x) Q) \<Longrightarrow> returns (chain m f) Q"
  by (auto simp: returns_def chain_def)

lemma returns_bind: "wp m P \<Longrightarrow> (\<And>x. P x \<Longrightarrow> returns (f x) Q) \<Longrightarrow> returns (Option.bind m f) Q"
  by (auto simp: returns_def wp_def)

lemma returns_mono: "returns m P \<Longrightarrow> (\<And>x. P x \<Longrightarrow> Q x) \<Longrightarrow> returns m Q"
  by (auto simp: returns_def)

section \<open>Frames\<close>

lemma decode_checked_ok:
  assumes "fe_malloc e = (\<lambda>_. True)" "unat len \<le> length data"
  shows "returns (decode_checked e data len wirelen iter s) (\<lambda>(pi, s'). decode_frame (take (unat len) data) len wirelen = Some pi \<and>
    frame_info False pi)"
proof -
  let ?exact = "take (unat len) data"
  have "wp (decode_frame ?exact len wirelen) (frame_info (wirelen \<le> len))"
    using assms(2) by (intro decode_frame_run) simp
  then obtain pi where pi: "decode_frame ?exact len wirelen = Some pi" "frame_info (wirelen \<le> len) pi" by (rule wpE)
  then have "frame_info False pi" unfolding frame_info_def by blast
  have exact: "rdn data 0 (unat len) = Some ?exact" using assms(2) by (simp add: rdn_def)
  have past: "decode_frame (?exact @ past) len wirelen = Some pi" for past
    using decode_frame_grow pi(1) by (rule ext_leD)
  have "check_invariants pi (pi_status pi) (wirelen = len) = None"
    using pi(2) by (rule check_invariants_info) auto
  then show ?thesis using pi \<open>frame_info False pi\<close> assms(1)
    by (auto simp: decode_checked_def decode_exact_def exact check_no_read_past_cap_def past returns_def split: prod.split)
qed

text \<open>The state of the accounting after the packets \<open>ps\<close>: the analysis describes them, the count of
  G-PDUs is that of the tunnel packets, and neither table has more flows than packets.\<close>

definition accounted :: "pkt list \<Rightarrow> analysis \<Rightarrow> totals \<Rightarrow> bool" where
  "accounted ps an tot \<longleftrightarrow> describes ps ps ps an \<and> (\<forall>p\<in>set ps. frame_info False (fst p)) \<and>
     tot_tunnel_gpdus tot = tally in_tunnel ps \<and>
     2 ^ 56 \<le> table_room (a_flows an) + length ps \<and> 2 ^ 56 \<le> table_room (a_tunnels an) + length ps"

text \<open>The totals that do not count packets have arrays of their sizes.\<close>

definition arrays_ok :: "totals \<Rightarrow> bool" where
  "arrays_ok tot \<longleftrightarrow> length (tot_by_status tot) = 28 \<and> length (tot_gtpu_by_status tot) = 28 \<and> length (tot_file_outcome tot) = 13"

lemma in_tunnel_condition:
  "frame_info False pi \<Longrightarrow> in_tunnel pi \<longleftrightarrow> pi_is_gtpu pi \<and> pi_gtp_msg_ok pi \<and> pi_gtp_msg_type pi = GTPU_MSG_GPDU"
  unfolding in_tunnel_def frame_info_def gtp_info_def by blast

lemma fuzz_account_ok:
  assumes "accounted ps an tot" "arrays_ok tot" "frame_info False pi" "length ps < 2 ^ 56"
    "\<forall>k n. fst (fe_packet e k) n \<and> snd (fe_packet e k) n"
  shows "returns (fuzz_account e an tot pi caplen wirelen ts iter) (\<lambda>(an', tot'). accounted (ps @ [(pi, caplen, wirelen, ts)]) an' tot' \<and>
    arrays_ok tot')"
proof -
  define p where "p = (pi, caplen, wirelen, ts)"
  define alf alt where "alf = fst (fe_packet e (s_packets (a_stats an)))" and "alt = snd (fe_packet e (s_packets (a_stats an)))"
  have d: "describes ps ps ps an" and room: "0 < table_room (a_flows an)" "0 < table_room (a_tunnels an)"
    using assms(1,4) by (auto simp: accounted_def)
  have sel: "fst p = pi" "pk_cap p = caplen" "pk_wire p = wirelen" "pk_ts p = ts"
    by (simp_all add: p_def pk_cap_def pk_wire_def pk_ts_def)
  have al: "\<forall>n. alf n \<and> alt n" using assms(5) by (simp add: alf_def alt_def)
  have addr: "addr_ok (fst p)" using frame_info_addr_ok [OF assms(3)] sel(1) by simp
  obtain r a' pi' where
    *: "analysis_account alf alt an (fst p) (pk_cap p) (pk_wire p) (pk_ts p) = Some (r, a', pi')"
      "if r = 0 then describes (ps @ [p]) (ps @ [p]) (ps @ [p]) a'
       else r = -1 \<and> (describes (ps @ [p]) ps ps a' \<or> describes (ps @ [p]) (ps @ [p]) ps a')"
      "(\<forall>n. alf n \<and> alt n) \<and> 0 < table_room (a_flows an) \<and> 0 < table_room (a_tunnels an) \<longrightarrow> r = 0 \<and>
         table_room (a_flows an) \<le> Suc (table_room (a_flows a')) \<and> table_room (a_tunnels an) \<le> Suc (table_room (a_tunnels a'))"
    using analysis_account_ok [OF d addr, of alf alt] by (elim exE conjE) (rule that)
  then have acc: "analysis_account alf alt an pi caplen wirelen ts = Some (0, a', pi')"
      "describes (ps @ [p]) (ps @ [p]) (ps @ [p]) a'"
      "table_room (a_flows an) \<le> Suc (table_room (a_flows a'))" "table_room (a_tunnels an) \<le> Suc (table_room (a_tunnels a'))"
    using al room sel by simp_all
  define tot1 where "tot1 = (if pi_is_gtpu pi \<and> pi_gtp_msg_ok pi \<and> pi_gtp_msg_type pi = GTPU_MSG_GPDU
      then tot\<lparr>tot_tunnel_gpdus := tot_tunnel_gpdus tot + 1\<rparr> else tot)"
  have run: "fuzz_account e an tot pi caplen wirelen ts iter = Some (Inr (a', tot1))"
    unfolding fuzz_account_def Let_def alf_def [symmetric] alt_def [symmetric] acc(1) tot1_def [symmetric] by simp
  have "tot_tunnel_gpdus tot1 = tally in_tunnel (ps @ [p])"
    using assms(1) in_tunnel_condition [OF assms(3)] by (simp add: tot1_def accounted_def tally_snoc sel)
  moreover from this have "accounted (ps @ [p]) a' tot1"
    using acc(2-4) assms(1,3) by (simp add: accounted_def sel)
  moreover have "arrays_ok tot1" using assms(2) by (simp add: tot1_def arrays_ok_def)
  ultimately show ?thesis using run by (simp add: returns_def p_def)
qed

lemma process_record_ok:
  assumes "accounted ps an tot" "arrays_ok tot" "length ps < 2 ^ 56" "\<forall>k n. fst (fe_packet e k) n \<and> snd (fe_packet e k) n"
    "fe_malloc e = (\<lambda>_. True)" "rec_data rec = Some data" "length data = unat (rec_caplen rec)" "rec_caplen rec \<le> rec_wirelen rec"
  shows "returns (process_record e rec an tot iter s) (\<lambda>(an', tot', s'). accounted (ps @ [decoded rec]) an' tot' \<and> arrays_ok tot')"
proof -
  have dec: "returns (decode_checked e data (ucast (rec_caplen rec)) (ucast (rec_wirelen rec)) iter s)
      (\<lambda>(pi, s'). pi = fst (decoded rec) \<and> frame_info False pi)"
    by (rule returns_mono [OF decode_checked_ok [OF assms(5)]]) (use decoded_ok [OF assms(6,7)] assms(7) in auto)
  have split: "(fst (decoded rec), rec_caplen rec, rec_wirelen rec, rec_ts_ns rec) = decoded rec" by (simp add: decoded_def)
  obtain s' where s': "decode_checked e data (ucast (rec_caplen rec)) (ucast (rec_wirelen rec)) iter s = Some (Inr (fst (decoded rec), s'))"
      "frame_info False (fst (decoded rec))"
    using dec by (auto simp: returns_def)
  obtain an' tot' where acc: "fuzz_account e an tot (fst (decoded rec)) (rec_caplen rec) (rec_wirelen rec) (rec_ts_ns rec) iter = Some (Inr (an', tot'))"
      "accounted (ps @ [decoded rec]) an' tot'" "arrays_ok tot'"
    using fuzz_account_ok [OF assms(1,2) s'(2) assms(3,4), of "rec_caplen rec" "rec_wirelen rec" "rec_ts_ns rec" iter]
    unfolding returns_def split by auto
  have "process_record e rec an tot iter s = Some (Inr (an', tot', s'))"
    using assms(6,8) s'(1) acc(1) by (simp add: process_record_def chain_def linorder_not_less [symmetric])
  then show ?thesis using acc(2,3) by (simp add: returns_def)
qed

section \<open>Files\<close>

lemma seeds_short: "list_all (\<lambda>(b, at). length b \<le> 200 \<and> unat at \<le> 100) build_seeds" "length build_seeds = 18"
  by code_simp+

lemma pick_seed:
  obtains seed at s' where "pick build_seeds s = Some ((seed, at), s')" "length seed \<le> 200" "unat at \<le> 100"
proof -
  have "build_seeds \<noteq> []" using seeds_short(2) by auto
  then have "wp (pick build_seeds s) (\<lambda>(x, s'). x \<in> set build_seeds)"
    by (rule wp_pick) (simp_all add: seeds_short(2))
  then obtain x s' where x: "pick build_seeds s = Some (x, s')" "x \<in> set build_seeds" by (auto simp: wp_def)
  moreover obtain seed at where "x = (seed, at)" by (cases x)
  ultimately show thesis using that seeds_short(1) by (auto simp: list_all_iff)
qed

text \<open>A file that \<open>n\<close> records have been written to: its size, and the record headers in it.\<close>

definition records_ok :: "nat \<Rightarrow> u8 list \<times> size_t list \<times> u8 list \<times> u64 \<Rightarrow> bool" where
  "records_ok n st = (case st of (cap, hdrs, frame, s) \<Rightarrow> length frame = 2112 \<and> length hdrs = n \<and> length cap \<le> 24 + 2128 * n \<and>
     (\<forall>h\<in>set hdrs. unat h + 16 \<le> length cap))"

lemma put_random_record_ok:
  assumes "records_ok n st" "n < 4"
  shows "wp (put_random_record be st) (records_ok (Suc n))"
proof -
  obtain cap hdrs frame s where st: "st = (cap, hdrs, frame, s)" by (cases st)
  then have ok: "length frame = 2112" "length hdrs = n" "length cap \<le> 24 + 2128 * n" "\<forall>h\<in>set hdrs. unat h + 16 \<le> length cap"
    using assms(1) by (auto simp: records_ok_def)
  obtain seed at s1 where seed: "pick build_seeds s = Some ((seed, at), s1)" "length seed \<le> 200" by (rule pick_seed)
  define frame1 where "frame1 = set_prefix frame seed"
  define len1 :: size_t where "len1 = of_nat (length seed)"
  have 1: "length frame1 = 2112" "unat len1 \<le> 200"
    using ok(1) seed(2) by (simp_all add: frame1_def len1_def unsigned_of_nat take_bit_nat_eq_self)
  then have "in_buffer frame1 len1" by (simp add: in_buffer_def)
  then have mut: "wp (mutate frame1 len1 (of_nat (length frame1)) s') (\<lambda>(f, l, s''). length f = 2112 \<and> unat l \<le> 2112)" for s'
    using mutate_ok [of frame1 len1 _ s'] 1(1) by (auto simp: wp_def in_buffer_def)
  have "wp (case rng s1 of (x, s) \<Rightarrow> if x AND 1 \<noteq> 0 then mutate frame1 len1 (of_nat (length frame1)) s else Some (frame1, len1, s))
      (\<lambda>(f, l, s''). length f = 2112 \<and> unat l \<le> 2112)"
    using mut 1 by (intro wp_pair wp_if wpI) auto
  then obtain frame2 len2 s2 where 2: "(case rng s1 of (x, s) \<Rightarrow> if x AND 1 \<noteq> 0 then mutate frame1 len1 (of_nat (length frame1)) s
      else Some (frame1, len1, s)) = Some (frame2, len2, s2)" "length frame2 = 2112" "unat len2 \<le> 2112" by (auto simp: wp_def)
  obtain wire s3 where 3: "(case rng s2 of (x, s) \<Rightarrow> if x AND 3 = 0 then (case rng_below 1500 s of (extra, s) \<Rightarrow> Some (ucast len2 + ucast extra :: u32, s))
      else Some (ucast len2, s)) = Some (wire, s3)"
    by (cases "rng s2"; cases "rng_below 1500 (snd (rng s2))"; cases "fst (rng s2) AND 3 = 0") auto
  have len32: "unat (ucast len2 :: u32) = unat len2" using 2(3) by (simp add: unsigned_ucast_eq take_bit_nat_eq_self)
  obtain sec s4 frac s5 where 4: "rng s3 = (sec, s4)" "rng s4 = (frac, s5)" by (meson surj_pair)
  obtain cap' where cap': "pcap_put_record cap be (ucast sec) (ucast frac) frame2 (ucast len2) wire = Some cap'"
      "length cap' = length cap + 16 + unat len2"
    using pcap_put_record_length [of "ucast len2" frame2 cap be "ucast sec" "ucast frac" wire] 2(2,3) len32 by auto
  have run: "put_random_record be st = Some (cap', hdrs @ [of_nat (length cap)], frame2, s5)"
    using seed ok(1) 2(1) 3 4 cap'(1)
    by (simp add: put_random_record_def st frame1_def [symmetric] len1_def [symmetric])
  have "unat (of_nat (length cap) :: size_t) = length cap"
    using ok(3) assms(2) by (simp add: unsigned_of_nat take_bit_nat_eq_self)
  then show ?thesis using run ok 2(2,3) cap'(2) by (auto simp: wp_def records_ok_def)
qed

lemma put_random_records_ok:
  "records_ok n st \<Longrightarrow> n + k \<le> 4 \<Longrightarrow> wp (put_random_records k be st) (records_ok (n + k))"
proof (induction k arbitrary: n st)
  case (Suc k)
  obtain st1 where "put_random_record be st = Some st1" "records_ok (Suc n) st1"
    using put_random_record_ok [OF Suc.prems(1), of be] Suc.prems(2) by (auto simp: wp_def)
  then show ?case using Suc.IH [of "Suc n" st1] Suc.prems(2) by (auto simp: wp_def)
qed (simp add: wp_def)

lemma corrupt_ok:
  assumes "hdrs \<noteq> []" "length hdrs \<le> 4" "\<forall>h\<in>set hdrs. unat h + 16 \<le> length cap" "length cap < 2 ^ 32"
  shows "wp (corrupt_length be cap hdrs s) (\<lambda>(cap', s'). length cap' = length cap)"
proof -
  have "wp (pick hdrs s) (\<lambda>(h, s'). h \<in> set hdrs)" using assms(1,2) by (intro wp_pick) auto
  then obtain h s1 where h: "pick hdrs s = Some (h, s1)" "h \<in> set hdrs" by (auto simp: wp_def)
  obtain field s2 where f: "rng_below 2 s1 = (field, s2)" "unat field < unat (2 :: size_t)"
    using rng_belowE [of 2 s1] by auto
  have "wp (pick interesting32 s2) (\<lambda>_. True)" by (rule wp_pick) (simp_all add: interesting32_def)
  then obtain v s3 where v: "pick interesting32 s2 = Some (v, s3)" by (auto simp: wp_def)
  define at where "at = h + 8 + 4 * field"
  have "unat h + 16 \<le> length cap" using assms(3) h(2) by blast
  moreover have "unat at = unat h + 8 + 4 * unat field"
    using calculation assms(4) f(2) by (simp add: at_def unat_word_ariths)
  ultimately have at: "unat (at + k) < length cap" if "unat k \<le> 3" for k
    using that f(2) assms(4) by (simp add: unat_word_ariths)
  show ?thesis
    using at [of 0] at [of 1] at [of 2] at [of 3] by (simp add: corrupt_length_def h(1) f(1) v Let_def at_def wr_def wp_def)
qed

lemma damage_ok:
  assumes "records_ok n (cap, hdrs, frame, s0)" "n \<le> 4"
  shows "wp (damage be cap hdrs s) (\<lambda>(cap', s'). length cap' \<le> 8536)"
proof -
  have ok: "length hdrs = n" "length cap \<le> 8536" "\<forall>h\<in>set hdrs. unat h + 16 \<le> length cap"
    using assms by (auto simp: records_ok_def)
  have "wp (if hdrs \<noteq> [] then (case rng s of (x, s) \<Rightarrow>
         if x AND 1 \<noteq> 0 then corrupt_length be cap hdrs s else Some (cap, s)) else Some (cap, s)) (\<lambda>(cap', s'). length cap' = length cap)"
    using ok assms(2) by (intro wp_if wp_pair wpI corrupt_ok) auto
  then obtain cap1 s1 where 1: "(if hdrs \<noteq> [] then (case rng s of (x, s) \<Rightarrow>
         if x AND 1 \<noteq> 0 then corrupt_length be cap hdrs s else Some (cap, s)) else Some (cap, s)) = Some (cap1, s1)" "length cap1 = length cap"
    by (auto simp: wp_def)
  have n1: "unat (of_nat (length cap1) :: size_t) = length cap1" using ok 1(2) by (simp add: unsigned_of_nat take_bit_nat_eq_self)
  have "wp (case rng s1 of (x, s) \<Rightarrow> if x AND 3 = 0 then flip_random_bit cap1 (of_nat (length cap1)) s else Some (cap1, s))
      (\<lambda>(cap', s'). length cap' = length cap1)"
    using n1 by (intro wp_if wp_pair wpI flip_ok) auto
  then obtain cap2 s2 where 2: "(case rng s1 of (x, s) \<Rightarrow> if x AND 3 = 0 then flip_random_bit cap1 (of_nat (length cap1)) s else Some (cap1, s)) =
      Some (cap2, s2)" "length cap2 = length cap1" by (auto simp: wp_def)
  have "wp (case rng s2 of (x, s) \<Rightarrow> if x AND 3 = 0 then (case rng_below (of_nat (length cap2) + 1) s of (len, s) \<Rightarrow> Some (take (unat len) cap2, s))
       else Some (cap2, s)) (\<lambda>(cap', s'). length cap' \<le> 8536)"
    using ok(2) 1(2) 2(2) by (intro wp_if wp_pair wpI) auto
  then show ?thesis by (simp only: damage_def 1(1) 2(1) bind.bind_lunit prod.case)
qed

section \<open>Reading in lockstep\<close>

lemma next_record_shorter: "next_record info bs = Inr (x, bs') \<Longrightarrow> length bs = 16 + unat (rec_caplen x) + length bs'"
  by (auto simp: next_record_def Let_def split: if_splits)

lemma capture_records_few: "capture_records info bs = (recs, st) \<Longrightarrow> 16 * length recs \<le> length bs"
proof (induction info bs arbitrary: recs rule: capture_records.induct)
  case (1 info bs)
  show ?case
  proof (cases "next_record info bs")
    case (Inl st')
    then show ?thesis using "1.prems" by (simp add: capture_records_Inl [OF Inl])
  next
    case (Inr p)
    then obtain x bs' where p: "next_record info bs = Inr (x, bs')" by (cases p) auto
    then show ?thesis using "1.prems" "1.IH" [OF p] next_record_shorter [OF p]
      by (auto simp: capture_records_Inr [OF p] split: prod.splits)
  qed
qed

lemma take_input_mem: "take_input r n = Some (p, got, r') \<Longrightarrow> r_mem r' = r_mem r \<and> r_mem_len r' = r_mem_len r"
  by (auto simp: take_input_def Let_def some_iff split: option.splits if_splits prod.splits)

lemma short_read_mem:
  "r_mem (snd (short_read_status r st)) = r_mem r" "r_mem_len (snd (short_read_status r st)) = r_mem_len r"
  by (auto simp: short_read_status_def split: option.split)

lemma short_read_memD: "short_read_status r st = (st', r') \<Longrightarrow> r_mem r' = r_mem r \<and> r_mem_len r' = r_mem_len r"
  using short_read_mem [of r st] by simp

lemma pcap_next_mem:
  assumes "pcap_next r rec = Some (st, r', rec')"
  shows "r_mem r' = r_mem r \<and> r_mem_len r' = r_mem_len r"
proof (cases "r_error r = PCAP_OK")
  case True
  with assms obtain p got r1 where t: "take_input r 16 = Some (p, got, r1)" by (auto simp: pcap_next_def some_iff)
  note m1 = take_input_mem [OF t]
  show ?thesis
  proof (cases p)
    case None
    then show ?thesis using assms True t m1
      by (cases "short_read_status r1 (if got = 0 then PCAP_EOF else PCAP_ERR_TRUNC_RECORD_HDR)")
        (use short_read_mem [of r1 "if got = 0 then PCAP_EOF else PCAP_ERR_TRUNC_RECORD_HDR"] in \<open>auto simp: pcap_next_def\<close>)
  next
    case (Some hdr)
    with assms True t obtain st1 rec1 where h: "pcap_parse_record_header (r_info r1) hdr rec = Some (st1, rec1)"
      by (auto simp: pcap_next_def some_iff)
    show ?thesis
    proof (cases "st1 = PCAP_OK")
      case False
      then show ?thesis using assms True t m1 Some h by (auto simp: pcap_next_def)
    next
      case ok: True
      with assms True t Some h obtain p2 got2 r2 where t2: "take_input r1 (ucast (rec_caplen rec1)) = Some (p2, got2, r2)"
        by (auto simp: pcap_next_def some_iff)
      then show ?thesis using assms True t m1 Some h ok take_input_mem [OF t2] short_read_mem [of r2 PCAP_ERR_TRUNC_RECORD]
        by (cases p2; cases "short_read_status r2 PCAP_ERR_TRUNC_RECORD") (auto simp: pcap_next_def)
    qed
  qed
qed (use assms in \<open>simp add: pcap_next_def\<close>)

text \<open>A record read from memory lies in the input.\<close>

lemma record_in_place:
  assumes "mem_ok r" "mem_ok r'" "r_mem r' = r_mem r" "r_mem_len r' = r_mem_len r"
    "length (mem_rest r) = 16 + c + length (mem_rest r')" "c = unat (rec_caplen x)"
  shows "\<not> (ucast (rec_caplen x) > r_mem_len r)" "\<not> (r_mem_pos r' - ucast (rec_caplen x) > r_mem_len r - ucast (rec_caplen x))"
proof -
  have pos: "unat (r_mem_pos r) \<le> length (r_mem r)" "unat (r_mem_pos r') \<le> length (r_mem r)" "unat (r_mem_len r) = length (r_mem r)"
    using assms(1-4) by (simp_all add: mem_ok_def word_le_nat_alt)
  then have "unat (r_mem_pos r') = unat (r_mem_pos r) + 16 + c"
    using assms(3,5) by (simp add: mem_rest_def)
  with pos assms(6) show "\<not> (ucast (rec_caplen x) > r_mem_len r)"
    "\<not> (r_mem_pos r' - ucast (rec_caplen x) > r_mem_len r - ucast (rec_caplen x))"
    by (simp_all add: word_less_nat_alt word_le_nat_alt unat_minus not_less)
qed

lemma accounted_file_records [simp]:
  "accounted ps an (tot\<lparr>tot_file_records := x\<rparr>) = accounted ps an tot" "arrays_ok (tot\<lparr>tot_file_records := x\<rparr>) = arrays_ok tot"
  by (simp_all add: accounted_def arrays_ok_def)

lemma lockstep_ok:
  assumes "mem_ok mr" "file_ok fr" "r_error mr = PCAP_OK" "r_error fr = PCAP_OK" "r_info fr = r_info mr"
    "file_rest fr = mem_rest mr" "\<not> file_fault fr" "r_records fr = r_records mr" "r_mem_len mr = file_len"
    "capture_records (r_info mr) (mem_rest mr) = (recs, st)"
    "accounted ps an tot" "arrays_ok tot" "length ps + length recs < 2 ^ 56"
    "\<forall>k n. fst (fe_packet e k) n \<and> snd (fe_packet e k) n" "fe_malloc e = (\<lambda>_. True)"
  shows "returns (lockstep e file_len iter mr mrec fr frec an tot s) (\<lambda>(ms, mr', fr', an', tot', s'). \<exists>ps'.
    accounted ps' an' tot' \<and> arrays_ok tot' \<and> length ps' = length ps + length recs \<and> r_records mr' = r_records fr')"
  using assms(1-13)
proof (induction recs arbitrary: mr fr mrec frec ps an tot s)
  case Nil
  then have none: "next_record (r_info mr) (mem_rest mr) = Inl st"
    by (auto simp: capture_records.simps [of "r_info mr"] split: sum.splits prod.splits)
  then have "st \<noteq> PCAP_OK" by (rule next_record_Inl)
  obtain mr1 x where m: "pcap_next mr mrec = Some (st, mr1, x)" "r_records mr1 = r_records mr"
    using mem.next_Inl [OF Nil.prems(1,3) none, of mrec] by (auto simp: meta_def mem.at_end_def mem_fault_def)
  obtain fr1 y where f: "pcap_next fr frec = Some (st, fr1, y)" "r_records fr1 = r_records fr"
    using stream.next_Inl [OF Nil.prems(2,4), of st frec] none Nil.prems(5-7) by (auto simp: meta_def stream.at_end_def)
  have "lockstep e file_len iter mr mrec fr frec an tot s = Some (Inr (st, mr1, fr1, an, tot, s))"
    using m(1) f(1) \<open>st \<noteq> PCAP_OK\<close> by (subst lockstep.simps) simp
  then show ?case using m(2) f(2) Nil.prems(8,11,12) by (auto simp: returns_def)
next
  case (Cons x recs)
  obtain bs where nx: "next_record (r_info mr) (mem_rest mr) = Inr (x, bs)" and cr: "capture_records (r_info mr) bs = (recs, st)"
    using Cons.prems(10) by (auto simp: capture_records.simps [of "r_info mr" "mem_rest mr"] split: sum.splits prod.splits)
  obtain mr1 where m: "pcap_next mr mrec = Some (PCAP_OK, mr1, x)" "mem_ok mr1" "mem_rest mr1 = bs"
      "r_info mr1 = r_info mr" "r_records mr1 = r_records mr + 1" "r_error mr1 = PCAP_OK"
    using mem.next_Inr [OF Cons.prems(1,3) nx, of mrec] by (auto simp: meta_def)
  obtain fr1 where f: "pcap_next fr frec = Some (PCAP_OK, fr1, x)" "file_ok fr1" "file_rest fr1 = bs" "file_fault fr1 = file_fault fr"
      "r_info fr1 = r_info fr" "r_records fr1 = r_records fr + 1" "r_error fr1 = PCAP_OK"
    using stream.next_Inr [OF Cons.prems(2,4), of x bs frec] nx Cons.prems(5,6) by (auto simp: meta_def)
  obtain data where data: "rec_data x = Some data" "length data = unat (rec_caplen x)" "rec_caplen x \<le> rec_wirelen x"
      "unat (rec_caplen x) \<le> 262144"
    using next_record_bounds [OF nx] by blast
  have same: "r_mem mr1 = r_mem mr" "r_mem_len mr1 = r_mem_len mr" using pcap_next_mem [OF m(1)] by simp_all
  have shorter: "length (mem_rest mr) = 16 + unat (rec_caplen x) + length (mem_rest mr1)"
    using next_record_shorter [OF nx] m(3) by simp
  note place = record_in_place [OF Cons.prems(1) m(2) same shorter refl, unfolded Cons.prems(9)]
  have max: "\<not> rec_caplen x > 262144" using data(4) by (simp add: word_less_nat_alt)
  obtain an1 tot1 s1 where p: "process_record e x an tot iter s = Some (Inr (an1, tot1, s1))" "accounted (ps @ [decoded x]) an1 tot1" "arrays_ok tot1"
    using process_record_ok [OF Cons.prems(11,12) _ assms(14,15) data(1-3), of iter s] Cons.prems(13) by (auto simp: returns_def)
  have step: "lockstep e file_len iter mr mrec fr frec an tot s =
      lockstep e file_len iter mr1 x fr1 x an1 (tot1\<lparr>tot_file_records := tot_file_records tot1 + 1\<rparr>) s1"
    using m(1) f(1) data(1) p(1) max place by (subst lockstep.simps) simp
  have "returns (lockstep e file_len iter mr1 x fr1 x an1 (tot1\<lparr>tot_file_records := tot_file_records tot1 + 1\<rparr>) s1)
      (\<lambda>(ms, mr', fr', an', tot', s'). \<exists>ps'. accounted ps' an' tot' \<and> arrays_ok tot' \<and>
        length ps' = length (ps @ [decoded x]) + length recs \<and> r_records mr' = r_records fr')"
    by (rule Cons.IH) (use m f cr p(2,3) same Cons.prems in auto)
  then show ?case unfolding step by simp
qed

section \<open>The environment\<close>

text \<open>
  What the fuzzer relies on: memory; a temporary file gives back the bytes written to it and
  takes what is printed to it; and \<open>inet_ntop\<close> prints every address, those that are not IPv4-compatible
  in the form of RFC 5952.
\<close>

definition tmpfile_ok :: "'d fuzz_env \<Rightarrow> bool" where
  "tmpfile_ok e \<longleftrightarrow> (\<forall>iter b. \<exists>fp. fe_tmpfile e iter b = Some fp \<and> fp_rest fp = b \<and> \<not> fails fp) \<and>
     (\<forall>k. \<exists>f. fe_report e k = Some f \<and> o_text f = [] \<and> \<not> o_error f \<and> o_fault f = (\<lambda>_. False))"

definition inet_ntop_ok :: "'d fuzz_env \<Rightarrow> bool" where
  "inet_ntop_ok e \<longleftrightarrow> (\<forall>a. length a = 16 \<longrightarrow>
     (\<exists>t. fe_inet_ntop e a = Some t \<and> (v4_compatible a = Some False \<longrightarrow> rfc5952 a t)))"

definition memory_ok :: "'d fuzz_env \<Rightarrow> bool" where
  "memory_ok e \<longleftrightarrow> fe_malloc e = (\<lambda>_. True) \<and> (\<forall>iter. \<exists>buf. fe_buffer e iter = Some buf \<and> length buf = 262144) \<and>
     fe_flows e = (\<lambda>_. True) \<and> fe_tunnels e = (\<lambda>_. True) \<and> fe_frags e \<and> (\<forall>k n. fst (fe_packet e k) n \<and> snd (fe_packet e k) n) \<and>
     fe_gtpu e = (\<lambda>_. True) \<and> (\<forall>b. fe_csv e b = (\<lambda>_. True)) \<and>
     length (fe_work e) = 2112 \<and> (\<forall>iter. length (fe_frame e iter) = 2112 \<and> length (fe_addr e iter) = 16)"

lemma open_both:
  assumes "length cap \<le> 8536" "length buf = 262144" "fp_rest fp = cap" "\<not> fails fp"
  obtains st mr fr closed where "pcap_open_mem cap (of_nat (length cap)) = Some (st, mr)"
    "pcap_open_stream (Some buf) (Some fp) = Some (st, fr, closed)" "r_records mr = 0" "r_records fr = 0"
    "st = PCAP_OK \<Longrightarrow> mem_ok mr \<and> file_ok fr \<and> r_error mr = PCAP_OK \<and> r_error fr = PCAP_OK \<and> r_info fr = r_info mr \<and>
       file_rest fr = mem_rest mr \<and> \<not> file_fault fr \<and> r_mem_len mr = of_nat (length cap) \<and> length (mem_rest mr) \<le> 8536"
proof -
  have len: "unat (of_nat (length cap) :: size_t) = length cap" using assms(1) by (simp add: unsigned_of_nat take_bit_nat_eq_self)
  let ?st = "fst (global_header cap)"
  obtain mr where m: "pcap_open_mem cap (of_nat (length cap)) = Some (?st, mr)" "mem_ok mr" "r_records mr = 0" "r_error mr = ?st"
      "?st = PCAP_OK \<longrightarrow> r_info mr = snd (global_header cap) \<and> mem_rest mr = drop 24 cap"
    using open_mem_reads [OF len] by blast
  have "header_status (fails fp) (fp_rest fp) = ?st" using assms(3,4) by (simp add: header_status_def)
  then obtain fr closed where f: "pcap_open_stream (Some buf) (Some fp) = Some (?st, fr, closed)" "r_records fr = 0" "r_error fr = ?st"
      "if ?st = PCAP_OK then file_ok fr \<and> closed = None \<and> r_info fr = snd (global_header cap) \<and> file_rest fr = drop 24 cap \<and> file_fault fr = fails fp
       else r_fp fr = None \<and> r_buf fr = None \<and> closed \<noteq> None"
    using open_stream_reads [OF assms(2), of fp] assms(3) by (auto simp: pcap_open_stream_def)
  have ml: "r_mem_len mr = of_nat (length cap)"
  proof -
    obtain r0 where "read_global_header (reader_reset\<lparr>r_mem := cap, r_mem_len := of_nat (length cap)\<rparr>) = Some (?st, r0)"
        "mr = (if ?st \<noteq> PCAP_OK then r0\<lparr>r_error := ?st\<rparr> else r0)"
      using m(1) by (auto simp: pcap_open_mem_def some_iff)
    then show ?thesis
      by (auto simp: read_global_header_def some_iff case_prod_beta short_read_mem split: if_splits option.splits
          dest!: take_input_mem short_read_memD)
  qed
  show thesis
    by (rule that [OF m(1) f(1) m(3) f(2)]) (use m f(3,4) ml assms(1,4) in auto)
qed

lemma read_both_ok:
  assumes "memory_ok e" "tmpfile_ok e" "length cap \<le> 8536" "accounted ps an tot" "arrays_ok tot" "length ps + 600 < 2 ^ 56"
  shows "returns (read_both e cap iter an tot s) (\<lambda>(an', tot', s'). \<exists>ps'. accounted ps' an' tot' \<and> arrays_ok tot' \<and>
    length ps' \<le> length ps + 600)"
proof -
  obtain buf where buf: "fe_buffer e iter = Some buf" "length buf = 262144" using assms(1) unfolding memory_ok_def by blast
  have mem: "fe_malloc e = (\<lambda>_. True)" "\<forall>k n. fst (fe_packet e k) n \<and> snd (fe_packet e k) n"
    using assms(1) by (auto simp: memory_ok_def)
  obtain fp where fp: "fe_tmpfile e iter cap = Some fp" "fp_rest fp = cap" "\<not> fails fp"
    using assms(2) unfolding tmpfile_ok_def by blast
  obtain st mr fr closed where o: "pcap_open_mem cap (of_nat (length cap)) = Some (st, mr)"
    "pcap_open_stream (Some buf) (Some fp) = Some (st, fr, closed)" "r_records mr = 0" "r_records fr = 0"
    "st = PCAP_OK \<Longrightarrow> mem_ok mr \<and> file_ok fr \<and> r_error mr = PCAP_OK \<and> r_error fr = PCAP_OK \<and> r_info fr = r_info mr \<and>
       file_rest fr = mem_rest mr \<and> \<not> file_fault fr \<and> r_mem_len mr = of_nat (length cap) \<and> length (mem_rest mr) \<le> 8536"
    by (rule open_both [OF assms(3) buf(2) fp(2,3)]) blast
  define tot1 where "tot1 = tot\<lparr>tot_files := tot_files tot + 1\<rparr>"
  have tot1: "accounted ps an tot1" "arrays_ok tot1" using assms(4,5) by (simp_all add: tot1_def accounted_def arrays_ok_def)
  have loop: "returns (if st = PCAP_OK then lockstep e (of_nat (length cap)) iter mr (fst (fe_record e iter)) fr (snd (fe_record e iter)) an tot1 s
       else Some (Inr (st, mr, fr, an, tot1, s)))
     (\<lambda>(ms, mr', fr', an', tot', s'). \<exists>ps'. accounted ps' an' tot' \<and> arrays_ok tot' \<and> length ps' \<le> length ps + 600 \<and>
        r_records mr' = r_records fr')"
  proof (cases "st = PCAP_OK")
    case True
    obtain recs est where cr: "capture_records (r_info mr) (mem_rest mr) = (recs, est)" by fastforce
    have few: "length recs \<le> 600" using capture_records_few [OF cr] o(5) [OF True] by simp
    have "returns (lockstep e (of_nat (length cap)) iter mr (fst (fe_record e iter)) fr (snd (fe_record e iter)) an tot1 s)
      (\<lambda>(ms, mr', fr', an', tot', s'). \<exists>ps'. accounted ps' an' tot' \<and> arrays_ok tot' \<and> length ps' = length ps + length recs \<and>
        r_records mr' = r_records fr')"
      by (rule lockstep_ok [OF _ _ _ _ _ _ _ _ _ cr tot1 _ mem(2,1)]) (use o(3,4) o(5) [OF True] few assms(6) in auto)
    then have "returns (lockstep e (of_nat (length cap)) iter mr (fst (fe_record e iter)) fr (snd (fe_record e iter)) an tot1 s)
      (\<lambda>(ms, mr', fr', an', tot', s'). \<exists>ps'. accounted ps' an' tot' \<and> arrays_ok tot' \<and> length ps' \<le> length ps + 600 \<and>
        r_records mr' = r_records fr')"
      by (rule returns_mono) (use few in fastforce)
    then show ?thesis using True by simp
  qed (use tot1 o(3,4) in \<open>auto simp: returns_def\<close>)
  have up: "\<exists>xs. count_up (tot_file_outcome t) (pcap_status_num ms) = Some xs \<and> length xs = 13" if "arrays_ok t" for t ms
    using that by (cases ms) (simp_all add: count_up_def pcap_status_num_def pcap_statuses_def arrays_ok_def wr_def)
  have num: "ms \<le> PCAP_ERR_BAD_CAPLEN" for ms
    by (cases ms) (simp_all add: less_eq_pcap_status_def pcap_status_num_def pcap_statuses_def)
  from loop obtain ms mr' fr' an' tot' s' ps' where l: "(if st = PCAP_OK then lockstep e (of_nat (length cap)) iter mr (fst (fe_record e iter)) fr (snd (fe_record e iter)) an tot1 s
       else Some (Inr (st, mr, fr, an, tot1, s))) = Some (Inr (ms, mr', fr', an', tot', s'))"
      "accounted ps' an' tot'" "arrays_ok tot'" "length ps' \<le> length ps + 600" "r_records mr' = r_records fr'"
    by (auto simp only: returns_def)
  obtain xs where xs: "count_up (tot_file_outcome tot') (pcap_status_num ms) = Some xs" "length xs = 13" using up [OF l(3)] by blast
  have "read_both e cap iter an tot s = Some (Inr (an', tot'\<lparr>tot_stream_files := tot_stream_files tot' + 1, tot_file_outcome := xs\<rparr>, s'))"
    unfolding read_both_def fp(1) buf(1) option.case Let_def o(1,2) bind.bind_lunit prod.case tot1_def [symmetric] l(1)
    using mem(1) xs(1) num [of ms] l(1,5) by (simp add: chain_def)
  then show ?thesis using l(2-4) xs(2) by (auto simp: returns_def accounted_def arrays_ok_def)
qed

lemma fuzz_reader_ok:
  assumes "memory_ok e" "tmpfile_ok e" "accounted ps an tot" "arrays_ok tot" "length ps + 600 < 2 ^ 56"
  shows "returns (fuzz_reader e iter an tot s) (\<lambda>(an', tot', s'). \<exists>ps'. accounted ps' an' tot' \<and> arrays_ok tot' \<and>
    length ps' \<le> length ps + 600)"
proof -
  obtain nrec s1 where n: "rng_below 5 s = (nrec, s1)" "unat nrec < unat (5 :: size_t)" using rng_belowE [of 5 s] by auto
  obtain x s2 y s3 where xy: "rng s1 = (x, s2)" "rng s2 = (y, s3)" by (meson surj_pair)
  let ?be = "x AND 1 \<noteq> 0" and ?nsec = "y AND 1 \<noteq> 0"
  have "records_ok 0 (pcap_put_global [] ?be ?nsec 65535 1, [], fe_frame e iter, s3)"
    using assms(1) by (simp add: records_ok_def memory_ok_def)
  then have "wp (put_random_records (unat nrec) ?be (pcap_put_global [] ?be ?nsec 65535 1, [], fe_frame e iter, s3)) (records_ok (0 + unat nrec))"
    using n(2) by (intro put_random_records_ok) auto
  then obtain cap hdrs frame s4 where p: "put_random_records (unat nrec) ?be (pcap_put_global [] ?be ?nsec 65535 1, [], fe_frame e iter, s3) =
      Some (cap, hdrs, frame, s4)" "records_ok (unat nrec) (cap, hdrs, frame, s4)"
    by (auto simp: wp_def)
  obtain cap' s5 where d: "damage ?be cap hdrs s4 = Some (cap', s5)" "length cap' \<le> 8536"
    using damage_ok [OF p(2), of ?be s4] n(2) by (auto simp: wp_def)
  have "fuzz_reader e iter an tot s = read_both e cap' iter an tot s5"
    unfolding fuzz_reader_def using n(1) xy p(1) d(1) by (simp add: Let_def)
  then show ?thesis using read_both_ok [OF assms(1,2) d(2) assms(3-5)] by simp
qed

end
