(* ===== verification/Fuzz_Props.thy ===== *)
theory Fuzz_Props
  imports Fuzz_Read
begin

text \<open>
  No input makes the fuzzer fail: each of its checks holds whatever it draws.
\<close>

section \<open>Addresses\<close>

lemma first_longest_unique:
  "first_longest_run g s n \<Longrightarrow> first_longest_run g s' n' \<Longrightarrow> s' = s \<and> n' = n"
  unfolding first_longest_run_def by (metis antisym)

lemma first_longest_two: "first_longest_run g s n \<Longrightarrow> zero_run g s 2"
  by (auto simp: first_longest_run_def zero_run_def)

lemma rfc5952_unique: "rfc5952 a t \<Longrightarrow> rfc5952 a t' \<Longrightarrow> t' = t"
  unfolding rfc5952_def using first_longest_unique first_longest_two by (metis (no_types, lifting))

lemma random_groups_ok: "length a = 16 \<Longrightarrow> g + n \<le> 8 \<Longrightarrow> wp (random_groups g n a s) (\<lambda>(a', s'). length a' = 16)"
proof (induction n arbitrary: g a s)
  case (Suc n)
  have rest: "wp (Option.bind (wr a (2 * g) x) (\<lambda>a. Option.bind (wr a (2 * g + 1) y) (\<lambda>a. random_groups (g + 1) n a s)))
      (\<lambda>(a', s'). length a' = 16)" for x y s
    using Suc.IH [of "a[2 * g := x, 2 * g + 1 := y]" "g + 1" s] Suc.prems by (simp add: wr_def)
  show ?case unfolding random_groups.simps by (intro wp_pair rest)
qed (simp add: wp_def)

lemma v4_compatible_ok: "length a = 16 \<Longrightarrow> \<exists>c. v4_compatible a = Some c"
  by (auto simp: v4_compatible_def rd8_def all_zero_ok)

lemma accounted_addrs [simp]:
  "accounted ps an (tot\<lparr>tot_addrs := x\<rparr>) = accounted ps an tot" "arrays_ok (tot\<lparr>tot_addrs := x\<rparr>) = arrays_ok tot"
  by (simp_all add: accounted_def arrays_ok_def)

lemma fuzz_addr_ok:
  assumes "memory_ok e" "inet_ntop_ok e"
  shows "returns (fuzz_addr e iter tot s) (\<lambda>(tot', s'). \<exists>x. tot' = tot\<lparr>tot_addrs := x\<rparr>)"
proof -
  have "length (fe_addr e iter) = 16" using assms(1) by (simp add: memory_ok_def)
  from random_groups_ok [OF this, of 0 8 s]
  obtain a1 s1 where g: "random_groups 0 8 (fe_addr e iter) s = Some (a1, s1)" "length a1 = 16" by (auto simp: wp_def)
  obtain z s2 where z: "rng_below 16 s1 = (z, s2)" by (meson surj_pair)
  have "wp (if z = 0 then do { a \<leftarrow> wr (set_prefix a1 (replicate 10 0)) 11 0xff; wr a 10 0xff } else Some a1)
      (\<lambda>a. length a = 16)"
    using g(2) by (simp add: wp_def wr_def)
  then obtain a where a: "(if z = 0 then do { a \<leftarrow> wr (set_prefix a1 (replicate 10 0)) 11 0xff; wr a 10 0xff }
      else Some a1) = Some a" "length a = 16" by (auto simp: wp_def)
  obtain t where t: "rfc5952 a t" "format_ipv6 a ADDR_STR_LEN = Some (snprintf ADDR_STR_LEN t)"
    using format_ipv6_ok [OF a(2)] by blast
  have "snprintf ADDR_STR_LEN t = t" using rfc5952_length [OF t(1)] by (simp add: snprintf_def)
  then have mine: "addr_format 6 a [] ADDR_STR_LEN = Some t" using t(2) by (simp add: addr_format_def)
  obtain ref where ref: "fe_inet_ntop e a = Some ref" "v4_compatible a = Some False \<longrightarrow> rfc5952 a ref"
    using assms(2) a(2) by (auto simp: inet_ntop_ok_def)
  obtain c where c: "v4_compatible a = Some c" using v4_compatible_ok [OF a(2)] ..
  have same: "\<not> (\<not> c \<and> t \<noteq> ref)" using ref(2) c rfc5952_unique [OF t(1)] by auto
  have "fuzz_addr e iter tot s = Some (Inr (tot\<lparr>tot_addrs := tot_addrs tot + 1\<rparr>, s2))"
    unfolding fuzz_addr_def g(1) z bind.bind_lunit prod.case a(1) mine ref(1) c option.case by (rule if_not_P [OF same])
  then show ?thesis by (auto simp: returns_def)
qed

section \<open>One iteration\<close>

lemma count_up_ok: "i < length xs \<Longrightarrow> count_up xs i = Some (xs[i := xs ! i + 1])"
  by (simp add: count_up_def wr_def)

lemma status_num_bound: "st \<noteq> DEC_STATUS_COUNT \<Longrightarrow> status_num st < 28"
  by (cases st) simp_all

lemma accounted_status [simp]:
  "accounted ps an (tot\<lparr>tot_frames := x, tot_by_status := xs\<rparr>) = accounted ps an tot"
  "accounted ps an (tot\<lparr>tot_gtpu_frames := x, tot_gtpu_by_status := xs, tot_gtpu_inner := y\<rparr>) = accounted ps an tot"
  by (simp_all add: accounted_def)

text \<open>The state of the loop: the accounting of the packets so far, and the working buffer.\<close>

definition iteration_inv :: "nat \<Rightarrow> analysis \<times> totals \<times> u8 list \<times> u64 \<Rightarrow> bool" where
  "iteration_inv n st = (case st of (an, tot, work, s) \<Rightarrow>
     (\<exists>ps. accounted ps an tot \<and> length ps \<le> n) \<and> arrays_ok tot \<and> length work = 2112)"

lemma count_frame_ok:
  assumes "frame_info False pi" "arrays_ok tot"
  shows "wp (count_frame tot pi)
    (\<lambda>tot'. arrays_ok tot' \<and> (\<forall>ps an. accounted ps an tot' = accounted ps an tot))"
proof -
  have st: "pi_status pi \<noteq> DEC_STATUS_COUNT" "pi_is_gtpu pi \<Longrightarrow> pi_gtp_status pi \<noteq> DEC_STATUS_COUNT"
    using assms(1) unfolding frame_info_def gtp_info_def by blast+
  then show ?thesis using assms(2) status_num_bound
    by (auto simp: count_frame_def count_up_ok wp_def arrays_ok_def Let_def)
qed

lemma fuzz_frame_ok:
  assumes "length work = 2112"
  shows "wp (fuzz_frame work s) (\<lambda>(work', len, wirelen, s'). length work' = 2112 \<and> unat len \<le> 2112)"
proof -
  obtain seed at s1 where seed: "pick build_seeds s = Some ((seed, at), s1)" "length seed \<le> 200" "unat at \<le> 100"
    by (rule pick_seed)
  define work1 where "work1 = set_prefix work seed"
  define len1 :: size_t where "len1 = of_nat (length seed)"
  have 1: "length work1 = 2112" "in_buffer work1 len1"
    using assms seed(2) by (simp_all add: work1_def len1_def in_buffer_def unsigned_of_nat take_bit_nat_eq_self)
  have "wp (if at \<noteq> 0 then (case rng s1 of (x, s) \<Rightarrow> if x AND 1 \<noteq> 0 then mutate_gtpu work1 len1 at s else Some (work1, s))
      else Some (work1, s1)) (\<lambda>(w, s'). length w = length work1)"
    using mutate_gtpu_ok [OF 1(2) seed(3)] by (intro wp_if wp_pair wpI) auto
  then obtain work2 s2 where 2: "(if at \<noteq> 0 then (case rng s1 of (x, s) \<Rightarrow> if x AND 1 \<noteq> 0 then mutate_gtpu work1 len1 at s else Some (work1, s))
      else Some (work1, s1)) = Some (work2, s2)" "length work2 = 2112" using 1(1) by (auto simp: wp_def)
  have "in_buffer work2 len1" using 1 2(2) by (simp add: in_buffer_def)
  from mutate_ok [OF this refl, of s2] 2(2)
  obtain work3 len3 s3 where 3: "mutate work2 len1 (of_nat (length work2)) s2 = Some (work3, len3, s3)" "length work3 = 2112" "unat len3 \<le> 2112"
    by (auto simp: wp_def in_buffer_def)
  have short: "\<not> length seed > length work" using assms seed(2) by simp
  have "fuzz_frame work s = (case rng s3 of (x, s) \<Rightarrow> if x AND 1 \<noteq> 0 then Some (work3, len3, len3, s)
      else (case rng_below 3000 s of (more', s) \<Rightarrow> Some (work3, len3, len3 + more', s)))"
    by (simp only: fuzz_frame_def seed(1) bind.bind_lunit prod.case if_not_P [OF short] Let_def work1_def [symmetric]
        len1_def [symmetric] 2(1) 3(1))
  then show ?thesis using 3 by (auto simp: wp_def split: prod.split)
qed

text \<open>An iteration adds the frame and the records of the capture file, of at most 8536 bytes.\<close>

lemma fuzz_iteration_ok:
  assumes "memory_ok e" "tmpfile_ok e" "inet_ntop_ok e" "iteration_inv n st" "n + 601 < 2 ^ 56"
  shows "returns (fuzz_iteration e i st) (iteration_inv (n + 601))"
proof -
  obtain an tot work s where st: "st = (an, tot, work, s)" by (cases st)
  obtain ps where ps: "accounted ps an tot" "length ps \<le> n" and tot: "arrays_ok tot" and work: "length work = 2112"
    using assms(4) by (auto simp: st iteration_inv_def)
  obtain work1 len wirelen s1 where 1: "fuzz_frame work s = Some (work1, len, wirelen, s1)" "length work1 = 2112" "unat len \<le> 2112"
    using fuzz_frame_ok [OF work, of s] by (auto simp: wp_def)
  have mem: "fe_malloc e = (\<lambda>_. True)" "\<forall>k n. fst (fe_packet e k) n \<and> snd (fe_packet e k) n"
    using assms(1) by (auto simp: memory_ok_def)
  obtain pi s2 where 2: "decode_checked e work1 len wirelen i s1 = Some (Inr (pi, s2))" "frame_info False pi"
    using decode_checked_ok [OF mem(1), of len work1] 1(2,3) by (fastforce simp: returns_def)
  obtain tot1 where 3: "count_frame tot pi = Some tot1" "arrays_ok tot1" "accounted ps an tot1"
    using count_frame_ok [OF 2(2) tot] ps(1) by (auto simp: wp_def)
  obtain an2 tot2 where 4: "fuzz_account e an tot1 pi (ucast len) (ucast wirelen) i i = Some (Inr (an2, tot2))" "arrays_ok tot2"
      "accounted (ps @ [(pi, ucast len, ucast wirelen, i)]) an2 tot2"
    using fuzz_account_ok [OF 3(3,2) 2(2) _ mem(2), of "ucast len" "ucast wirelen" i i] ps(2) assms(5) by (auto simp: returns_def)
  have "returns (if i AND 3 = 0 then fuzz_reader e i an2 tot2 s2 else Some (Inr (an2, tot2, s2)))
      (\<lambda>(an', tot', s'). \<exists>ps'. accounted ps' an' tot' \<and> arrays_ok tot' \<and> length ps' \<le> n + 601)"
  proof (cases "i AND 3 = 0")
    case True
    have "returns (fuzz_reader e i an2 tot2 s2)
        (\<lambda>(an', tot', s'). \<exists>ps'. accounted ps' an' tot' \<and> arrays_ok tot' \<and> length ps' \<le> length (ps @ [(pi, ucast len, ucast wirelen, i)]) + 600)"
      using ps(2) assms(5) by (intro fuzz_reader_ok assms 4) simp
    then have "returns (fuzz_reader e i an2 tot2 s2)
        (\<lambda>(an', tot', s'). \<exists>ps'. accounted ps' an' tot' \<and> arrays_ok tot' \<and> length ps' \<le> n + 601)"
      by (rule returns_mono) (use ps(2) in fastforce)
    then show ?thesis using True by simp
  next
    case False
    have "length (ps @ [(pi, ucast len, ucast wirelen, i)]) \<le> n + 601" using ps(2) by simp
    with 4(2,3) have "\<exists>ps'. accounted ps' an2 tot2 \<and> arrays_ok tot2 \<and> length ps' \<le> n + 601" by blast
    then show ?thesis using False by (simp add: returns_def)
  qed
  then obtain an3 tot3 s3 ps3 where 5: "(if i AND 3 = 0 then fuzz_reader e i an2 tot2 s2 else Some (Inr (an2, tot2, s2))) =
      Some (Inr (an3, tot3, s3))" "accounted ps3 an3 tot3" "arrays_ok tot3" "length ps3 \<le> n + 601"
    by (auto simp only: returns_def)
  obtain x s4 where 6: "fuzz_addr e i tot3 s3 = Some (Inr (tot3\<lparr>tot_addrs := x\<rparr>, s4))"
    using fuzz_addr_ok [OF assms(1,3), of i tot3 s3] by (auto simp: returns_def)
  have "fuzz_iteration e i st = Some (Inr (an3, tot3\<lparr>tot_addrs := x\<rparr>, work1, s4))"
    by (simp only: fuzz_iteration_def st prod.case 1(1) bind.bind_lunit chain_def 2(1) option.case sum.case 3(1) 4(1) 5(1) 6)
  then show ?thesis using 5(2-4) 1(2) by (auto simp: returns_def iteration_inv_def)
qed

lemma fuzz_loop_ok:
  assumes "memory_ok e" "tmpfile_ok e" "inet_ntop_ok e"
  shows "iteration_inv n st \<Longrightarrow> n + 601 * k < 2 ^ 56 \<Longrightarrow> returns (fuzz_loop e k i st) (iteration_inv (n + 601 * k))"
proof (induction k arbitrary: n i st)
  case (Suc k)
  have "returns (fuzz_iteration e i st) (iteration_inv (n + 601))"
    using Suc.prems by (intro fuzz_iteration_ok assms) simp_all
  moreover have "returns (fuzz_loop e k (i + 1) st') (iteration_inv (n + 601 + 601 * k))" if "iteration_inv (n + 601) st'" for st'
    using Suc.IH [OF that] Suc.prems(2) by simp
  ultimately show ?case by (simp add: returns_chain add.assoc)
qed (simp add: returns_def)

end
