(* ===== verification/Fuzz_Main.thy ===== *)
theory Fuzz_Main
  imports Fuzz_Props Cli_Run
begin

text \<open>
  The end of a run of the fuzzer: its summary, the comparison of the tables with the fuzzer's own
  counts, and the reports; then the whole program.
\<close>

section \<open>The summary\<close>

lemma print_counts_ok:
  assumes "length names \<le> length counts"
  shows "\<exists>out'. print_counts names counts out = Some out' \<and> prints out out'"
  unfolding print_counts_def
proof (rule prints_for_each)
  fix i s assume "0 \<le> i" "i < 0 + length names"
  with assms show "\<exists>s'. (do { c \<leftarrow> rd counts i; name \<leftarrow> rd names i;
      Some (if c > 0 then fprintf (''  '' @ pad_right 38 name @ '' '' @ fmt_u c @ ''\<newline>'') s else s) }) = Some s' \<and> prints s s'"
    by (auto simp: rd_def intro: prints_fprintf)
qed

lemma fuzz_summary_ok:
  assumes "arrays_ok tot"
  shows "\<exists>out'. fuzz_summary iterations seed an tot out = Some out' \<and> prints out out'"
proof -
  have names: "length (map decode_status_str (take 28 all_status)) = 28" "length (map pcap_status_str pcap_statuses) = 13"
    by (simp_all add: all_status_def pcap_statuses_def)
  have arrays: "length (tot_by_status tot) = 28" "length (tot_gtpu_by_status tot) = 28" "length (tot_file_outcome tot) = 13"
    using assms by (simp_all add: arrays_ok_def)
  define out0 where "out0 = fprintf (''decoder: '' @ fmt_u (tot_frames tot) @ '' mutated frames\<newline>'')
    (fprintf (''fuzz_decode: '' @ fmt_u iterations @ '' iterations, seed '' @ fmt_u seed @ ''\<newline>'') out)"
  obtain out1 where 1: "print_counts (map decode_status_str (take 28 all_status)) (tot_by_status tot) out0 = Some out1" "prints out0 out1"
    using print_counts_ok [of "map decode_status_str (take 28 all_status)" "tot_by_status tot"] names arrays by auto
  define out2 where "out2 = fprintf (''GTP-U: '' @ fmt_u (tot_gtpu_frames tot) @ '' of those frames decoded as GTP-U, '' @
    fmt_u (tot_gtpu_inner tot) @ '' with a valid inner packet\<newline>'') out1"
  obtain out3 where 3: "print_counts (map decode_status_str (take 28 all_status)) (tot_gtpu_by_status tot) out2 = Some out3" "prints out2 out3"
    using print_counts_ok [of "map decode_status_str (take 28 all_status)" "tot_gtpu_by_status tot"] names arrays by auto
  define out4 where "out4 = fprintf (''reader: '' @ fmt_u (tot_files tot) @ '' mutated pcap files (each read from memory and through stdio), '' @
    fmt_u (tot_file_records tot) @ '' records decoded\<newline>'') out3"
  obtain out5 where 5: "print_counts (map pcap_status_str pcap_statuses) (tot_file_outcome tot) out4 = Some out5" "prints out4 out5"
    using print_counts_ok [of "map pcap_status_str pcap_statuses" "tot_file_outcome tot"] names arrays by auto
  have "prints out out0" unfolding out0_def by (intro prints_fprintf prints_refl)
  also note 1(2)
  also have "prints out1 out2" unfolding out2_def by (intro prints_fprintf prints_refl)
  also note 3(2)
  also have "prints out3 out4" unfolding out4_def by (intro prints_fprintf prints_refl)
  also note 5(2)
  finally have all: "prints out out5" .
  show ?thesis
    unfolding fuzz_summary_def Let_def out0_def [symmetric] 1(1) bind.bind_lunit out2_def [symmetric] 3(1) out4_def [symmetric] 5(1)
    by (intro exI conjI, rule refl) (intro prints_fprintf all)
qed

section \<open>The tables\<close>

lemma sum_packets: "fold_opt (\<lambda>f n. Some (n + f_packets f)) fs n = Some (n + sum_list (map f_packets fs))" for n :: u64
  by (induction fs arbitrary: n) (simp_all add: add.assoc)

lemma check_tunnel_totals_ok:
  assumes "accounted ps an tot" "length ps < 2 ^ 64"
  shows "returns (check_tunnel_totals an tot out) (prints out)"
proof -
  have d: "describes ps ps ps an" "tot_tunnel_gpdus tot = tally in_tunnel ps" using assms(1) by (auto simp: accounted_def)
  have inv: "flow_inv (a_tunnels an)" using d(1) by (simp add: describes_def table.holds_def)
  let ?s = "(a_stats an)\<lparr>s_frag_matched := 0\<rparr>"
  have c: "stats_counts (attributed ps) ?s" using d(1) by (simp add: describes_def counted_def)
  have "length (attributed ps) < 2 ^ 64" using assms(2) by (simp add: attributed_def)
  from gtpu_diffs(3) [OF c this]
  have le: "\<not> (g_user_truncated (s_gtpu (a_stats an)) > g_truncated (s_gtpu (a_stats an)) \<or>
      g_user_malformed (s_gtpu (a_stats an)) > g_malformed (s_gtpu (a_stats an)))"
    by (simp add: not_less)
  have sum: "foreach (a_tunnels an) (\<lambda>f n. Some (n + f_packets f)) 0 (0 :: u64) = Some (tally in_tunnel ps)"
    using describes_totals(3) [OF d(1)] by (simp add: foreach_flows [OF inv] sum_packets)
  show ?thesis
    unfolding check_tunnel_totals_def Let_def sum bind.bind_lunit d(2) if_not_P [OF le]
    by (simp add: returns_def) (intro prints_fprintf prints_refl)
qed

lemma fuzz_print_top_ok:
  assumes "flow_inv t" "\<forall>f\<in>set (flows t). flow_ip f" "fe_malloc e = (\<lambda>_. True)"
  shows "returns (fuzz_print_top e f t tunnels) (\<lambda>(n, f'). prints f f')"
proof -
  define n where "n = (if t_count t < 100 then t_count t else 100)"
  define tops where "tops = take (unat n) (ranking t)"
  have tops: "flow_table_top_n t n = Some tops" by (simp add: flow_table_top_n_ok [OF assms(1)] tops_def ranking_def)
  have "\<forall>x\<in>set tops. flow_ip x" using assms(2) set_take_subset [of "unat n" "ranking t"] by (auto simp: tops_def)
  then obtain f' where "(if tunnels then report_top_tunnels f tops (length tops) (t_count t)
      else report_top_flows f tops (length tops) (t_count t)) = Some f'" "prints f f'"
    using flow_table_printed [of tops f "t_count t"] tunnel_table_printed [of tops f "t_count t"] by (cases tunnels) auto
  then show ?thesis
    unfolding fuzz_print_top_def Let_def n_def [symmetric] by (simp add: assms(3) tops returns_def)
qed

text \<open>The number of lines of an export.\<close>

context csv_format begin

lemma printed_lines: "\<forall>f\<in>set fs. ok f \<Longrightarrow> count_list (concat (printed fs)) CHR ''\<newline>'' = Suc (length fs)"
proof -
  assume "\<forall>f\<in>set fs. ok f"
  then have "count_list (concat (map (\<lambda>l. l @ ''\<newline>'') (map line fs))) CHR ''\<newline>'' = length fs"
    by (induction fs) (simp_all add: row_line(2) count_list_0_iff)
  moreover have "count_list header_line CHR ''\<newline>'' = 0" by (simp add: count_list_0_iff header_one_line)
  ultimately show ?thesis by (simp add: printed_def)
qed

end

lemma quiet_file: "prints f f' \<Longrightarrow> \<not> o_error f \<Longrightarrow> o_fault f = (\<lambda>_. False) \<Longrightarrow> \<not> o_error f'"
  by (auto simp: prints_def print_all_error)

lemma check_csv_ok:
  assumes "tmpfile_ok e" "flow_inv t" "exports writer (\<lambda>_. True) t ls"
    "count_list (concat ls) CHR ''\<newline>'' = Suc (length (flows t))"
  shows "returns (check_csv e k t writer what) (\<lambda>_. True)"
proof -
  obtain f where f: "fe_report e k = Some f" "o_text f = []" "\<not> o_error f" "o_fault f = (\<lambda>_. False)"
    using assms(1) unfolding tmpfile_ok_def by blast
  have quiet: "\<not> o_error (print_all ls f)" using quiet_file [OF prints_all f(3,4)] .
  have writes: "writer f t = Some (0, print_all ls f)" using assms(3) quiet by (simp add: exports_def)
  have "length (flows t) = unat (t_count t)" by (simp add: flow_inv_count [OF assms(2)])
  then have "(of_nat (count_list (o_text (print_all ls f)) CHR ''\<newline>'') :: u64) = t_count t + 1"
    by (simp add: print_all_simps f(2) assms(4))
  then show ?thesis
    unfolding check_csv_def f(1) option.case writes bind.bind_lunit prod.case by (simp add: returns_def)
qed

lemma fuzz_reports_ok:
  assumes "memory_ok e" "tmpfile_ok e" "reportable an"
  shows "returns (fuzz_reports e an out) (prints out)"
proof -
  have mem: "fe_malloc e = (\<lambda>_. True)" "fe_gtpu e = (\<lambda>_. True)" "fe_csv e False = (\<lambda>_. True)" "fe_csv e True = (\<lambda>_. True)"
    using assms(1) by (simp_all add: memory_ok_def)
  have an: "flow_inv (a_flows an)" "flow_inv (a_tunnels an)" "\<forall>f\<in>set (flows (a_flows an)). flow_ip f"
      "\<forall>f\<in>set (flows (a_tunnels an)). flow_ip f" "stats_ok (a_stats an)"
    using assms(3) by (simp_all add: reportable_def)
  obtain f where f: "fe_report e 0 = Some f" "\<not> o_error f" "o_fault f = (\<lambda>_. False)"
    using assms(2) unfolding tmpfile_ok_def by blast
  obtain f1 where f1: "report_summary (fe_doubles e) f ''fuzz'' (file_info0\<lparr>i_version_major := 2, i_version_minor := 4\<rparr>)
      (a_stats an) (t_count (a_flows an)) = Some f1" "prints f f1"
    using summary_printed [OF an(5)] by blast
  obtain n2 f2 where f2: "fuzz_print_top e f1 (a_flows an) False = Some (Inr (n2, f2))" "prints f1 f2"
    using fuzz_print_top_ok [OF an(1,3) mem(1), of f1 False] by (auto simp: returns_def)
  obtain f3 where f3: "report_gtpu (fe_gtpu e) f2 (a_stats an) (a_tunnels an) = Some (0, f3)" "prints f2 f3"
    using gtpu_printed_on [OF an(5,2), of "fe_gtpu e" f2] mem(2) by auto
  obtain n4 f4 where f4: "fuzz_print_top e f3 (a_tunnels an) True = Some (Inr (n4, f4))" "prints f3 f4"
    using fuzz_print_top_ok [OF an(2,4) mem(1), of f3 True] by (auto simp: returns_def)
  have "prints f f4" using f1(2) f2(2) f3(2) f4(2) by (blast intro: prints_trans)
  then have quiet: "\<not> o_error f4" by (rule quiet_file [OF _ f(2,3)])
  have "returns (check_csv e k (a_flows an) (report_csv (fe_csv e False)) what) (\<lambda>_. True)" for k what
    unfolding mem(3) by (rule check_csv_ok [OF assms(2) an(1) exports_csv(1) [OF an(1,3)]])
      (use flow_csv.printed_lines [of "ranking (a_flows an)"] an(3) in \<open>simp add: ranking_def\<close>)
  then have csv: "check_csv e k (a_flows an) (report_csv (fe_csv e False)) what = Some (Inr ())" for k what
    by (simp add: returns_def)
  have "returns (check_csv e k (a_tunnels an) (report_tunnels_csv (fe_csv e True)) what) (\<lambda>_. True)" for k what
    unfolding mem(4) by (rule check_csv_ok [OF assms(2) an(2) exports_csv(2) [OF an(2,4)]])
      (use tunnel_csv.printed_lines [of "ranking (a_tunnels an)"] an(4) in \<open>simp add: ranking_def\<close>)
  then have tcsv: "check_csv e k (a_tunnels an) (report_tunnels_csv (fe_csv e True)) what = Some (Inr ())" for k what
    by (simp add: returns_def)
  show ?thesis
    unfolding fuzz_reports_def f(1) option.case Let_def f1(1) bind.bind_lunit f2(1) f3(1) f4(1) chain_def sum.case prod.case
      csv tcsv if_not_P [OF quiet]
    by (simp add: returns_def) (intro prints_fprintf prints_refl)
qed

section \<open>The program\<close>

lemma init_accounted:
  assumes "memory_ok e"
  obtains an where "analysis_init (fe_flows e) (fe_tunnels e) (fe_frags e) (fe_analysis e) = Some (0, an)"
    "accounted [] an totals0" "arrays_ok totals0"
proof -
  have all: "fe_flows e = (\<lambda>_. True)" "fe_tunnels e = (\<lambda>_. True)" "fe_frags e" using assms by (simp_all add: memory_ok_def)
  obtain r1 t1 r2 t2 where init: "flow_table_init (\<lambda>_. True) 1024 = Some (r1, t1)" "r1 = 0"
      "flow_table_init (\<lambda>_. True) 64 = Some (r2, t2)" "r2 = 0"
    using init_result [of "\<lambda>_. True"] by auto
  then obtain an where an: "analysis_init (fe_flows e) (fe_tunnels e) (fe_frags e) (fe_analysis e) = Some (0, an)"
    by (auto simp: analysis_init_def frag_cache_init_def Let_def all)
  note d = init_describes [OF an]
  have "accounted [] an totals0" unfolding accounted_def d(2,3) using d(1) by (simp add: totals0_def tally_def)
  then show thesis by (intro that [OF an]) (simp_all add: totals0_def arrays_ok_def)
qed

lemma fuzz_main_ok:
  assumes "memory_ok e" "tmpfile_ok e" "inet_ntop_ok e"
    "(if length argv > 1 then strtoull (argv ! 1) else 200000) \<le> 2 ^ 46"
  shows "returns (fuzz_main e argv out)
    (\<lambda>out'. \<exists>s. o_text out' = o_text out @ s @ ''result: no crashes, no sanitizer reports, all invariants held\<newline>'')"
proof -
  define its where "its = (if length argv > 1 then strtoull (argv ! 1) else 200000)"
  define seed where "seed = (if length argv > 2 then strtoull (argv ! 2) else 1)"
  obtain an where an: "analysis_init (fe_flows e) (fe_tunnels e) (fe_frags e) (fe_analysis e) = Some (0, an)"
    "accounted [] an totals0" "arrays_ok totals0"
    by (rule init_accounted [OF assms(1)])
  have "unat its \<le> unat (2 ^ 46 :: u64)" using assms(4) unfolding its_def [symmetric] word_le_nat_alt .
  then have few: "0 + 601 * unat its < 2 ^ 56" by simp
  have "iteration_inv 0 (an, totals0, fe_work e, rng_seed seed)"
    using an(2,3) assms(1) by (simp add: iteration_inv_def memory_ok_def)
  from fuzz_loop_ok [OF assms(1-3) this few, of 0]
  obtain an' tot work s where loop: "fuzz_loop e (unat its) 0 (an, totals0, fe_work e, rng_seed seed) = Some (Inr (an', tot, work, s))"
      "iteration_inv (0 + 601 * unat its) (an', tot, work, s)"
    by (auto simp: returns_def)
  then obtain ps where ps: "accounted ps an' tot" "length ps \<le> 0 + 601 * unat its" and tot: "arrays_ok tot"
    unfolding iteration_inv_def prod.case by blast
  have short: "length ps < 2 ^ 64" using ps(2) few by simp
  have reportable: "reportable an'"
    using ps(1) by (intro describes_reportable [of ps ps ps]) (auto simp: accounted_def)
  obtain out1 where 1: "fuzz_summary its seed an' tot out = Some out1" "prints out out1" using fuzz_summary_ok [OF tot] by blast
  obtain out2 where 2: "check_tunnel_totals an' tot out1 = Some (Inr out2)" "prints out1 out2"
    using check_tunnel_totals_ok [OF ps(1) short, of out1] by (auto simp: returns_def)
  obtain out3 where 3: "fuzz_reports e an' out2 = Some (Inr out3)" "prints out2 out3"
    using fuzz_reports_ok [OF assms(1,2) reportable, of out2] by (auto simp: returns_def)
  have "prints out out3" using 1(2) 2(2) 3(2) by (blast intro: prints_trans)
  then obtain t where "o_text out3 = o_text out @ t" using prints_text by blast
  then show ?thesis
    unfolding fuzz_main_def Let_def its_def [symmetric] seed_def [symmetric] an(1) loop(1) 1(1) 2(1) 3(1) chain_def
      bind.bind_lunit prod.case option.case sum.case
    by (simp add: returns_def fprintf_def)
qed

section \<open>Properties\<close>

text \<open>
  C10. The fuzzer never fails. Let memory be allocated whenever it is asked for, a temporary file
  give back what was written to it, and \<open>inet_ntop\<close> print the addresses that are not
  IPv4-compatible in the form of RFC 5952. Then, whatever the command line with at most \<open>2^46\<close>
  iterations, whatever the seed, and whatever is in the uninitialised buffers, the program leaves no
  buffer, ends, and exits with status 0 after its last message: no check of a decoded frame, of a record,
  of the two readers in lockstep, of an address, of the tables and of the reports fails in any iteration.
\<close>

theorem fuzz_never_fails:
  assumes "memory_ok e" "tmpfile_ok e" "inet_ntop_ok e"
    "(if length argv > 1 then strtoull (argv ! 1) else 200000) \<le> 2 ^ 46"
  shows "\<exists>out' s. fuzz_main e argv out = Some (Inr out') \<and>
    o_text out' = o_text out @ s @ ''result: no crashes, no sanitizer reports, all invariants held\<newline>''"
  using fuzz_main_ok [OF assms, of out] unfolding returns_def by blast

definition sample_fuzz_env :: "unit fuzz_env" where
  "sample_fuzz_env = \<lparr>fe_malloc = \<lambda>_. True,
     fe_tmpfile = \<lambda>_ b. Some \<lparr>fp_rest = b, fp_fault = False, fp_errno = 0, fp_error = False\<rparr>,
     fe_report = \<lambda>_. Some good_file, fe_buffer = \<lambda>_. Some (replicate 262144 0), fe_flows = \<lambda>_. True, fe_tunnels = \<lambda>_. True,
     fe_frags = True, fe_packet = \<lambda>_. (\<lambda>_. True, \<lambda>_. True), fe_gtpu = \<lambda>_. True, fe_csv = \<lambda>_ _. True,
     fe_doubles = \<lparr>d_of = \<lambda>_. (), d_mul = \<lambda>_ _. (), d_div = \<lambda>_ _. (), d_pos = \<lambda>_. False, d_fixed = \<lambda>_ _. ''0''\<rparr>,
     fe_inet_ntop = \<lambda>a. format_ipv6 a 46, fe_work = replicate 2112 0, fe_frame = \<lambda>_. replicate 2112 0,
     fe_addr = \<lambda>_. replicate 16 0, fe_record = \<lambda>_. (sample_record, sample_record), fe_analysis = sample_analysis\<rparr>"

lemma sample_fuzz_env_ok: "memory_ok sample_fuzz_env" "tmpfile_ok sample_fuzz_env" "inet_ntop_ok sample_fuzz_env"
proof -
  show "memory_ok sample_fuzz_env" by (simp add: memory_ok_def sample_fuzz_env_def)
  show "tmpfile_ok sample_fuzz_env" by (simp add: tmpfile_ok_def sample_fuzz_env_def good_file_def)
  have "\<exists>t. format_ipv6 a 46 = Some t \<and> rfc5952 a t" if a: "length a = 16" for a
  proof -
    obtain t where t: "rfc5952 a t" "format_ipv6 a 46 = Some (snprintf 46 t)" using format_ipv6_ok [OF a] by blast
    moreover have "snprintf 46 t = t" using rfc5952_length [OF t(1)] by (intro snprintf_fits) simp
    ultimately show ?thesis by simp
  qed
  then show "inet_ntop_ok sample_fuzz_env" by (simp add: inet_ntop_ok_def sample_fuzz_env_def) blast
qed

theorem fuzz_never_fails_witness:
  "\<exists>out' s. fuzz_main sample_fuzz_env [''fuzz_decode''] good_file = Some (Inr out') \<and>
    o_text out' = s @ ''result: no crashes, no sanitizer reports, all invariants held\<newline>''"
  using fuzz_never_fails [OF sample_fuzz_env_ok, of "[''fuzz_decode'']" good_file] by simp

text \<open>
  C39. Mutations preserve the form of a frame. For every frame in a buffer of less than \<open>2^32\<close> bytes,
  every state of the generator, and a GTP-U header at an offset up to 100, also behind the end of the frame, both
  mutators have a result, so no read or write leaves the buffer; the result is a buffer of the same
  size, and the new length is a length in it.
\<close>

theorem mutations_stay_in_buffer:
  assumes "unat len \<le> length buf" "length buf < 2 ^ 32" "unat at \<le> 100"
  shows "(\<exists>buf' len' s'. mutate buf len (of_nat (length buf)) s = Some (buf', len', s') \<and> length buf' = length buf \<and>
      unat len' \<le> length buf) \<and>
    (\<exists>buf' s'. mutate_gtpu buf len at s = Some (buf', s') \<and> length buf' = length buf)"
  using mutate_ok [of buf len "of_nat (length buf)" s] mutate_gtpu_ok [of buf len at s] assms
  by (auto simp: in_buffer_def wp_def)

theorem mutations_stay_in_buffer_witness:
  "(\<exists>buf' len' s'. mutate [0x45, 0, 0] 2 3 7 = Some (buf', len', s') \<and> length buf' = 3 \<and> unat len' \<le> 3) \<and>
    (\<exists>buf' s'. mutate_gtpu [0x45, 0, 0] 2 1 7 = Some (buf', s') \<and> length buf' = 3)"
  using mutations_stay_in_buffer [of 2 "[0x45, 0, 0]" 1 7] by (simp add: numeral_3_eq_3)

end
