(* ===== verification/Spec2Isabelle.thy ===== *)
theory Spec2Isabelle
  imports Decode_Props Decode_Build Frag Flow_Props Top_N Stats_Props Reader_Props Analyze_Props Addr_Props Csv_Props Report_Props Cli_Props Reader_Steps Fuzz_Main
begin

text \<open>
  A verification library for pcapstat, a command-line tool in C that reads a capture file in the
  classic pcap format, decodes each Ethernet frame down to the transport layer (and, in GTP-U tunnels, the user
  packet inside), and prints counters, the top flows and tunnels, and CSV files of both tables.

  \<^bold>\<open>The program and its theories.\<close> A record goes through the program from left to
  right: \<open>main\<close> opens the capture, \<open>pcap_next\<close> cuts a record out of it, \<open>decode_frame\<close> reads its headers,
  \<open>frag_cache_apply\<close> gives a later IP fragment the ports of its first one, \<open>stats_add\<close> counts the packet,
  \<open>flow_table_add_packet\<close> and \<open>flow_table_add_tunnel\<close> enter it in the two hash tables, and at the end the reports print them.
  For each source file under \<open>src/\<close> there is a theory with its definitions, in the order of the code and under its names:

    \<^item> \<open>Bytes\<close> (\<open>bytes.h\<close>) and \<open>Hash\<close> (\<open>hash.h\<close>): loads in a given byte order, 64-bit FNV-1a.
    \<^item> \<open>Decode\<close> (\<open>decode.h\<close>, \<open>decode.c\<close>): a \<open>span\<close> is a position in the frame with the captured and the
      claimed number of bytes; each protocol layer maps a span and the \<open>packet_info\<close> so far to a status, the span behind its header
      and the new \<open>packet_info\<close>.
    \<^item> \<open>Frag\<close> (\<open>frag.h\<close>, \<open>frag.c\<close>): the cache of first fragments, an array of 4096 slots.
    \<^item> \<open>Flow\<close> and \<open>Top_N\<close> (\<open>flow.h\<close>, \<open>flow.c\<close>): the open-addressing table, its growth, and the heap that selects the top flows;
      \<open>Cmp\<close> has \<open>memcmp\<close> and the contract of \<open>qsort\<close>.
    \<^item> \<open>Stats\<close> (\<open>stats.h\<close>, \<open>stats.c\<close>): the counters.
    \<^item> \<open>Reader\<close> (\<open>pcap_reader.h\<close>, \<open>pcap_reader.c\<close>): the reader, from memory and from a stream.
    \<^item> \<open>Analyze\<close> (\<open>analyze.h\<close>, \<open>analyze.c\<close>): the pipeline over all records.
    \<^item> \<open>Text\<close> (the formats of \<open>printf\<close> that are used), \<open>Addr\<close> (\<open>addr.h\<close>, \<open>addr.c\<close>), \<open>Report\<close> (\<open>report.h\<close>, \<open>report.c\<close>):
      everything that is printed, to the character.
    \<^item> \<open>Cli\<close> (\<open>main.c\<close>): the arguments, the files that are opened and closed, every message, the exit status.
    \<^item> \<open>Fuzz_Checks\<close>, \<open>Fuzz_Gen\<close>, \<open>Fuzz\<close> (\<open>fuzz/fuzz_decode.c\<close>) and \<open>Builder\<close> (\<open>tests/builder.c\<close>): the fuzzer, that is its
      checks, its random numbers, seeds and mutations, and its main program.

  \<open>Prelude\<close> holds what all of them share: the word types at their width, byte buffers, the option monad with its weakest
  preconditions, and the collections of facts the proofs use.

  \<^bold>\<open>How C is represented.\<close> Unsigned integers are words, so that every wrap-around of the code is in the
  model; \<open>size_t\<close> has 64 bits. Structs are records, enumerations are datatypes, flags that hold only 0 or 1 are booleans. A
  read or a write outside an array has no value (\<open>None\<close>), so each theorem that an operation has a value is a theorem that it
  stays within its memory. Loops that end for a reason visible in the code are \<open>fun\<close> or \<open>function\<close>; those that end because
  of an invariant (probing the hash table, reading in lockstep) are \<open>partial_function (option)\<close>, and the theorems show that they have a
  value. No fuel is used. Failures (of memory, files, streams) are arguments: each allocation is a function from its size
  to whether it succeeds, an input stream is the bytes it delivers and whether a read past them is an error, an output stream is the text
  printed and the calls at which it fails.

  \<^bold>\<open>What is shown.\<close> The properties are numbered by importance, each before its theorem.

    \<^item> The decoder (C1--C4, C40; \<open>Decode_Safety\<close>, \<open>Decode_Frame\<close>, \<open>Decode_Snap\<close>, \<open>Decode_Props\<close>, \<open>Decode_Build\<close>): it reads only captured
      bytes, its result satisfies every check of the fuzzer, a smaller snapshot length hides information but never
      changes it, and in a well-formed G-PDU it finds exactly the values put into its headers. The locale \<open>bounded_layer\<close> is the contract of a layer, with one interpretation for each of them.
    \<^item> The reader (C11--C14, C25--C27; \<open>Reader_Spec\<close>, \<open>Reader_Props\<close>, \<open>Reader_Steps\<close>): \<open>capture\<close> says what the bytes of a file mean,
      without a reader; memory and streams interpret the locale \<open>pcap_source\<close>, in which the reader is shown to return just that, once for
      both; as a transition system it never gets stuck. Any capture written in the format, cut anywhere, reads back.
    \<^item> The flow table (C15, C16, C20--C22; \<open>Flow_Table\<close>, \<open>Flow_Props\<close>): a finite map from keys to flows, through collisions,
      growth and failed allocations; the locale \<open>flow_store\<close> has what follows for every such map. The ranking (C18; \<open>Top_N\<close>) is
      that of sorting the whole table. The cache of fragments (C17) refines the locale \<open>direct_mapped\<close>.
    \<^item> Counters and pipeline (C5, C6, C19, C23, C24; \<open>Stats_Props\<close>, \<open>Analyze_Props\<close>): each counter is the number of packets of its
      kind (\<open>frag_matched\<close>, which the pipeline increments and not \<open>stats_add\<close>, in C5); the analysis describes exactly the records read, also if memory runs out; the tables and the counters agree.
    \<^item> Text (C28--C36; \<open>Addr_Props\<close>, \<open>Csv_Props\<close>, \<open>Report_Text\<close>, \<open>Report_Props\<close>): addresses are in the form of RFC 5952 and read back; a CSV
      file reads back as the table in ranking order; nothing is cut by a buffer; dates are right.
    \<^item> The program (C7--C9, C37, C38; \<open>Cli_Run\<close>, \<open>Cli_Props\<close>): \<open>main\<close> returns for every input and every failure; status 0 means that help
      was asked for, or that the whole capture was read, the text passed to \<open>printf\<close> has its totals, every CSV file is complete and the final
      flush of \<open>stdout\<close> succeeded (a \<open>printf\<close> to \<open>stdout\<close> that failed earlier goes unnoticed, \<open>stdout_failure_unnoticed\<close>); damage is reported after the records before it, and no other file than the ones named is written.
    \<^item> The fuzzer (C10, C39; \<open>Fuzz_Safe\<close>, \<open>Fuzz_Read\<close>, \<open>Fuzz_Props\<close>, \<open>Fuzz_Main\<close>): no check of the fuzzer ever fails, whatever the seed. The
      bound of \<open>2^46\<close> iterations keeps the number of flows below \<open>2^56\<close>, where the growth of the table would overflow \<open>size_t\<close>: an iteration
      accounts at most 601 packets, one frame and the records of a file of at most 8536 bytes.

  \<^bold>\<open>Not modelled.\<close> Floating-point arithmetic: the conversions, products and quotients behind the percentages and durations
  and their \<open>%f\<close> are parameters (\<open>double_ops\<close>) about which nothing is assumed. \<open>fopen\<close>, \<open>strerror\<close>, \<open>inet_ntop\<close> and \<open>tmpfile\<close> are
  parameters as well; \<open>setvbuf\<close> has no effect that the program can see. Freeing memory at the end of the programs (\<open>analysis_free\<close>, \<open>bb_free\<close>), and
  the growing buffer of \<open>tests/builder.c\<close> with the file writer used by the unit tests. The unit tests, the Python script that
  writes the sample captures, and the build files have no code of the program.
\<close>

end
